(* ===== verification/JS_Prelude.thy ===== *)
theory JS_Prelude
  imports Main "HOL-Library.Word"
begin

unbundle bit_operations_syntax

text \<open>
  What the components share: the model of JavaScript's 32-bit integer operators, of strings
  (lists of UTF-16 code units), of thrown errors, of array reads past the end, and the
  arithmetic and list lemmas that several components use.

  A JavaScript number that the code uses as an integer is an \<^typ>\<open>int\<close> or \<^typ>\<open>nat\<close>; once a bitwise operator
  is applied it is the 32-bit word that \<open>ToInt32\<close> gives, read as signed with \<^const>\<open>sint\<close>. The
  arithmetic of doubles is exact below \<open>2^53\<close>; where the code leaves 32 bits before coming back
  (\<open>xe\<close>, for one) the intermediate value is an unbounded \<^typ>\<open>int\<close> in the model and a lemma
  shows that it stays below \<open>2^53\<close>.
\<close>

named_theorems js_ops \<open>unfolding rules of the JavaScript operators\<close>

section \<open>Types of values\<close>

type_synonym u8 = "8 word"
type_synonym int32 = "32 word"
type_synonym code_unit = "16 word"
type_synonym jsstring = "16 word list"

text \<open>
  The errors that the code throws, and results of code that may throw one. A loop whose exit test can
  no longer hold has the outcome \<open>NeverReturns\<close>.
\<close>

datatype js_error = TypeError | RangeError | OtherError string | NeverReturns

type_synonym 'a js = "js_error + 'a"

fun js_bind :: "'a js \<Rightarrow> ('a \<Rightarrow> 'b js) \<Rightarrow> 'b js" where
  "js_bind (Inl e) f = Inl e"
| "js_bind (Inr x) f = f x"

lemma js_bind_eq_Inr: "js_bind a f = Inr y \<longleftrightarrow> (\<exists>x. a = Inr x \<and> f x = Inr y)"
  by (cases a) simp_all

fun js_fold :: "('a \<Rightarrow> 's \<Rightarrow> 's js) \<Rightarrow> 'a list \<Rightarrow> 's \<Rightarrow> 's js" where
  "js_fold f [] s = Inr s"
| "js_fold f (x # xs) s = js_bind (f x s) (js_fold f xs)"

fun js_concat :: "'a list js list \<Rightarrow> 'a list js" where
  "js_concat [] = Inr []"
| "js_concat (x # xs) = js_bind x (\<lambda>y. js_bind (js_concat xs) (\<lambda>ys. Inr (y @ ys)))"

lemma js_concat_map: "(\<And>x. x \<in> set xs \<Longrightarrow> f x = Inr (g x)) \<Longrightarrow> js_concat (map f xs) = Inr (concat (map g xs))"
  by (induction xs) auto

definition str :: "string \<Rightarrow> jsstring" where
  "str = map (\<lambda>c. of_nat (of_char c))"

lemma str_eq_iff [simp]: "str a = str b \<longleftrightarrow> a = b"
proof -
  have "inj (\<lambda>c :: char. of_nat (of_char c) :: code_unit)"
  proof (rule injI)
    fix x y :: char
    assume e: "(of_nat (of_char x) :: code_unit) = of_nat (of_char y)"
    have u: "unat (of_nat (of_char c) :: code_unit) = of_char c" for c :: char
    proof -
      have "of_char c < (2 ^ 16 :: nat)" using nat_of_char_less_256 [of c] by (rule less_le_trans) simp
      then show ?thesis by (simp add: unsigned_of_nat take_bit_nat_eq_self)
    qed
    have "(of_char x :: nat) = of_char y" using arg_cong [OF e, of unat] by (simp only: u)
    then show "x = y" by simp
  qed
  then show ?thesis by (simp add: str_def inj_map_eq_map)
qed

text \<open>The names that every object inherits.\<close>

definition object_prototype :: "jsstring list" where
  "object_prototype = map str
     [''constructor'', ''__defineGetter__'', ''__defineSetter__'', ''hasOwnProperty'',
      ''__lookupGetter__'', ''__lookupSetter__'', ''isPrototypeOf'', ''propertyIsEnumerable'',
      ''toString'', ''valueOf'', ''__proto__'', ''toLocaleString'']"

section \<open>Operators on 32-bit integers\<close>

definition ToInt32 :: "int \<Rightarrow> int32" where
  [js_ops]: "ToInt32 x = word_of_int x"

text \<open>The shift count is taken modulo 32.\<close>

definition shl :: "int32 \<Rightarrow> nat \<Rightarrow> int32" where
  [js_ops]: "shl x n = push_bit (n mod 32) x"

definition ushr :: "int32 \<Rightarrow> nat \<Rightarrow> int32" where
  [js_ops]: "ushr x n = drop_bit (n mod 32) x"

definition sshr :: "int32 \<Rightarrow> nat \<Rightarrow> int32" where
  [js_ops]: "sshr x n = signed_drop_bit (n mod 32) x"

section \<open>Arrays\<close>

text \<open>A read past the end of an array is \<open>undefined\<close>: \<^const>\<open>None\<close>.\<close>

definition arr_get :: "'a list \<Rightarrow> nat \<Rightarrow> 'a option" where
  "arr_get xs i = (if i < length xs then Some (xs ! i) else None)"

lemma arr_get_Some [simp]: "i < length xs \<Longrightarrow> arr_get xs i = Some (xs ! i)"
  by (simp add: arr_get_def)

lemma arr_get_None [simp]: "length xs \<le> i \<Longrightarrow> arr_get xs i = None"
  by (simp add: arr_get_def)

lemma arr_get_mem: "arr_get xs i = Some x \<Longrightarrow> x \<in> set xs"
  by (auto simp: arr_get_def split: if_splits)

section \<open>Unsigned readings of word operations\<close>

lemma unat_and: "unat (x AND y) = (unat x AND unat (y :: 'a::len word))"
  by (rule unsigned_and_eq)

lemma unat_drop: "unat (drop_bit n x) = unat (x :: 'a::len word) div 2 ^ n"
  unfolding unat_drop_bit_eq by (rule drop_bit_eq_div)

lemma unat_add_small:
  "unat x + unat y < 2 ^ 32 \<Longrightarrow> unat (x + y) = unat x + unat (y :: int32)"
  by (simp add: unat_word_ariths)

lemma unat_less_32 [simp]: "unat (w :: int32) < 4294967296"
  using unsigned_less [of w, where ?'a = nat] by simp

lemma nat_and_le1: "x AND y \<le> (x :: nat)"
  by (simp add: and_nat_def nat_le_iff)

lemma nat_and_le2: "x AND y \<le> (y :: nat)"
  using nat_and_le1 [of y x] by (simp add: and.commute)

lemma nat_and_mask: "y AND (2 ^ n - 1) = y mod (2 ^ n :: nat)"
  using take_bit_eq_mask [of n y] by (simp add: take_bit_eq_mod mask_eq_exp_minus_1)

text \<open>
  An arithmetic shift agrees with a logical one under a mask that clears the bits it fills in,
  and on a non-negative value.
\<close>

lemma sdrop_and:
  assumes n: "n < 32" and m: "unat m < 2 ^ (32 - n)"
  shows "signed_drop_bit n w AND m = drop_bit n w AND (m :: int32)"
proof (rule bit_word_eqI)
  fix i assume i: "i < LENGTH(32)"
  have "i + n < 32" if b: "bit m i"
  proof (rule ccontr)
    assume "\<not> i + n < 32"
    then have "(2::nat) ^ (32 - n) \<le> 2 ^ i" by simp
    with m have "unat m < 2 ^ i" by (rule less_le_trans)
    then have "\<not> bit (unat m) i" by (simp add: bit_iff_odd)
    with b i show False by (simp add: bit_unsigned_iff)
  qed
  then show "bit (signed_drop_bit n w AND m) i = bit (drop_bit n w AND m) i"
    by (auto simp: bit_simps)
qed

lemma sdrop_nonneg:
  assumes "unat w < 2 ^ 31"
  shows "signed_drop_bit n w = drop_bit n (w :: int32)"
proof -
  from assms have "\<not> bit (unat w) 31" by (simp add: bit_iff_odd)
  then have "\<not> bit w 31" by (simp add: bit_unsigned_iff)
  then show ?thesis by (intro bit_word_eqI) (auto simp: bit_simps dest: bit_imp_le_length)
qed

end
