(* ===== verification/Imm_Hash.thy ===== *)
theory Imm_Hash
  imports JS_Prelude "HOL-Library.Multiset"
begin

text \<open>
  The hashing part of the Immutable collections module of \<^verbatim>\<open>swagger-ui-bundle.js\<close>: 32-bit
  multiplication, the reduction of a hash to a small integer, string hashes and their cache, the
  equality and the hash of keys, the hash of a collection, and the bit count that the hash trie
  uses to index its packed arrays.
\<close>

section \<open>Multiplication, small integers, string hashes\<close>

text \<open>\<open>xe\<close>: the replacement for \<^verbatim>\<open>Math.imul\<close>.\<close>

definition xe :: "int32 \<Rightarrow> int32 \<Rightarrow> int32" where
  "xe e t = (let n = 65535 AND e; r = 65535 AND t
             in ToInt32 (uint n * uint r +
                  uint (shl (ToInt32 (uint (ushr e 16) * uint r + uint n * uint (ushr t 16))) 16)))"

text \<open>\<open>Se\<close>: drops bit 30 and copies the sign into its place.\<close>

definition Se :: "int32 \<Rightarrow> int32" where
  "Se e = (ushr e 1 AND 1073741824) OR (3221225471 AND e)"

definition ke :: "jsstring \<Rightarrow> int32" where
  "ke e = Se (foldl (\<lambda>t c. ToInt32 (31 * sint t + uint c)) 0 e)"

section \<open>Keys\<close>

text \<open>
  The keys are the primitive values: \<open>undefined\<close>, \<open>null\<close>, booleans, numbers (the 32-bit
  integers and \<open>NaN\<close>) and strings.
\<close>

datatype key = KUndefined | KNull | KBool bool | KNum int32 | KNaN | KStr jsstring

fun strict_eq :: "key \<Rightarrow> key \<Rightarrow> bool" where
  "strict_eq KNaN _ = False"
| "strict_eq _ KNaN = False"
| "strict_eq a b = (a = b)"

fun truthy :: "key \<Rightarrow> bool" where
  "truthy KUndefined = False"
| "truthy KNull = False"
| "truthy (KBool b) = b"
| "truthy (KNum n) = (n \<noteq> 0)"
| "truthy KNaN = False"
| "truthy (KStr s) = (s \<noteq> [])"

text \<open>
  \<open>he\<close>, exported as \<open>Immutable.is\<close>. The \<open>valueOf\<close> of a primitive is the value itself, so the
  second pair of tests repeats the first; no primitive has an \<open>equals\<close> method.
\<close>

definition he :: "key \<Rightarrow> key \<Rightarrow> bool" where
  "he e t =
     (if strict_eq e t \<or> (\<not> strict_eq e e \<and> \<not> strict_eq t t) then True
      else if \<not> truthy e \<or> \<not> truthy t then False
      else if strict_eq e t \<or> (\<not> strict_eq e e \<and> \<not> strict_eq t t) then True
      else False)"

section \<open>The cache of string hashes\<close>

text \<open>
  Strings longer than 16 code units are hashed through the object \<open>De\<close>, which is emptied when the
  counter \<open>Re\<close> has reached \<open>Ne = 255\<close>. \<open>De\<close> is an object literal, so a read of a name that it
  does not hold finds the inherited method of that name in \<^verbatim>\<open>Object.prototype\<close>; such a read is
  \<open>HMethod\<close> here, and is what the function then returns in place of a hash.
\<close>

record hash_cache =
  Re :: nat
  De :: "jsstring \<rightharpoonup> int32"

datatype hash_result = HNum int32 | HMethod jsstring

definition Ne :: nat where "Ne = 255"

definition cached_hash :: "hash_cache \<Rightarrow> jsstring \<Rightarrow> hash_result \<times> hash_cache" where
  "cached_hash s e =
     (case De s e of
        Some t \<Rightarrow> (HNum t, s)
      | None \<Rightarrow>
          if e \<in> set object_prototype then (HMethod e, s)
          else let t = ke e;
                   s1 = (if Re s = Ne then \<lparr>Re = 0, De = Map.empty\<rparr> else s)
               in (HNum t, \<lparr>Re = Re s1 + 1, De = (De s1)(e \<mapsto> t)\<rparr>))"

text \<open>\<open>Ce\<close>: the hash of a key, threading the cache.\<close>

fun Ce :: "hash_cache \<Rightarrow> key \<Rightarrow> hash_result \<times> hash_cache" where
  "Ce s KUndefined = (HNum 0, s)"
| "Ce s KNull = (HNum 0, s)"
| "Ce s (KBool b) = (HNum (if b then 1 else 0), s)"
| "Ce s KNaN = (HNum 0, s)"
| "Ce s (KNum n) = (HNum (Se n), s)"
| "Ce s (KStr e) = (if length e > 16 then cached_hash s e else (HNum (ke e), s))"

text \<open>The hash without the cache: what the tries below are given as their hash function.\<close>

fun hash_of :: "key \<Rightarrow> int32" where
  "hash_of KUndefined = 0"
| "hash_of KNull = 0"
| "hash_of (KBool b) = (if b then 1 else 0)"
| "hash_of KNaN = 0"
| "hash_of (KNum n) = Se n"
| "hash_of (KStr e) = ke e"

definition cache_ok :: "hash_cache \<Rightarrow> bool" where
  "cache_ok s \<longleftrightarrow> finite (dom (De s)) \<and> card (dom (De s)) = Re s \<and> Re s \<le> Ne \<and>
     (\<forall>e t. De s e = Some t \<longrightarrow> t = ke e)"

definition empty_cache :: hash_cache where
  "empty_cache = \<lparr>Re = 0, De = Map.empty\<rparr>"

fun Ce_all :: "hash_cache \<Rightarrow> key list \<Rightarrow> hash_result list \<times> hash_cache" where
  "Ce_all s [] = ([], s)"
| "Ce_all s (k # ks) = (let (r, s1) = Ce s k; (rs, s2) = Ce_all s1 ks in (r # rs, s2))"

section \<open>Hash of a collection\<close>

definition qn :: "int32 \<Rightarrow> int32 \<Rightarrow> int32" where
  "qn e t = e XOR (t + 2654435769 + shl e 6 + sshr e 2)"

text \<open>The final mixing; \<open>>>> -15\<close> is a shift by 17.\<close>

definition mix :: "nat \<Rightarrow> int32 \<Rightarrow> int32" where
  "mix e t0 =
     (let t1 = xe t0 3432918353;
          t2 = xe (shl t1 15 OR ushr t1 17) 461845907;
          t3 = xe (shl t2 13 OR ushr t2 19) 5;
          t4 = (t3 + 3864292196) XOR of_nat e;
          t5 = xe (t4 XOR ushr t4 16) 2246822507;
          t6 = xe (t5 XOR ushr t5 13) 3266489909
      in Se (t6 XOR ushr t6 16))"

definition hash_step :: "('v \<Rightarrow> int32) \<Rightarrow> ('k \<Rightarrow> int32) \<Rightarrow> bool \<Rightarrow> bool \<Rightarrow> int32 \<Rightarrow> 'k \<times> 'v \<Rightarrow> int32" where
  "hash_step hv hk ordered keyed r e =
     (if keyed then
        (if ordered then ToInt32 (31 * sint r + sint (qn (hv (snd e)) (hk (fst e))))
         else ToInt32 (sint r + sint (qn (hv (snd e)) (hk (fst e)))))
      else
        (if ordered then ToInt32 (31 * sint r + sint (hv (snd e)))
         else ToInt32 (sint r + sint (hv (snd e)))))"

definition hashCode :: "('v \<Rightarrow> int32) \<Rightarrow> ('k \<Rightarrow> int32) \<Rightarrow> bool \<Rightarrow> bool \<Rightarrow> ('k \<times> 'v) list \<Rightarrow> int32" where
  "hashCode hv hk ordered keyed es =
     mix (length es) (foldl (hash_step hv hk ordered keyed) (if ordered then 1 else 0) es)"

section \<open>Counting bits\<close>

text \<open>\<open>ut\<close>: the number of set bits, by adding neighbouring fields.\<close>

definition ut :: "int32 \<Rightarrow> int32" where
  "ut e0 =
     (let e1 = e0 - (sshr e0 1 AND 1431655765);
          e2 = (858993459 AND e1) + (sshr e1 2 AND 858993459);
          e3 = (e2 + sshr e2 4) AND 252645135;
          e4 = e3 + sshr e3 8;
          e5 = e4 + sshr e4 16
      in 127 AND e5)"

section \<open>Multiplication and small integers\<close>

lemma split16: "uint w = uint (65535 AND w) + 65536 * uint (ushr (w :: int32) 16)"
proof -
  have "65535 AND w = take_bit 16 w"
    by (simp add: take_bit_eq_mask mask_eq_exp_minus_1 and.commute)
  then show ?thesis
    by (simp add: ushr_def take_bit_eq_mod drop_bit_eq_div uint_mod uint_div)
qed

lemma multiple_of_2p32: "(word_of_int (4294967296 * x) :: int32) = 0"
proof -
  have "(word_of_int (4294967296 * x) :: int32) = word_of_int 4294967296 * word_of_int x" by simp
  also have "(word_of_int 4294967296 :: int32) = 0" by simp
  finally show ?thesis by simp
qed

lemma Se_bit:
  assumes i: "i < 32"
  shows "bit (Se w) i = (if i = 30 then bit w 31 else bit w i)"
proof -
  have m: "(1073741824 :: int32) = push_bit 30 1" "(3221225471 :: int32) = NOT (push_bit 30 1)"
    by simp_all
  have b1: "bit (1073741824 :: int32) i = (i = 30)"
    unfolding m(1) using i by (simp only: bit_push_bit_iff bit_1_iff) auto
  have b2: "bit (3221225471 :: int32) i = (i \<noteq> 30)"
    unfolding m(2) bit_not_iff using i by (simp only: bit_push_bit_iff bit_1_iff) auto
  show ?thesis
    using i unfolding Se_def ushr_def bit_or_iff bit_and_iff b1 b2 by (auto simp: bit_drop_bit_eq)
qed

lemma Se_signed: "sint (Se w) = signed_take_bit 30 (sint (Se w))"
  by (rule bit_eqI) (auto simp: bit_simps bit_sint_iff Se_bit min_def)

text \<open>C29: the replacement for \<open>Math.imul\<close> multiplies modulo \<open>2^32\<close>, on every pair of arguments.\<close>

theorem xe_is_imul: "xe e t = e * t"
proof -
  define a b c d where abcd: "a = uint (65535 AND e)" "b = uint (ushr e 16)"
    "c = uint (65535 AND t)" "d = uint (ushr t 16)"
  have e: "uint e = a + 65536 * b" and t: "uint t = c + 65536 * d"
    by (simp_all add: abcd split16 [symmetric])
  have "xe e t = word_of_int (a * c + uint (shl (ToInt32 (b * c + a * d)) 16))"
    by (simp add: xe_def abcd Let_def ToInt32_def)
  also have "\<dots> = word_of_int (a * c) + shl (ToInt32 (b * c + a * d)) 16" by simp
  also have "\<dots> = word_of_int (a * c) + word_of_int (65536 * (b * c + a * d))
                    + word_of_int (4294967296 * (b * d))"
    unfolding multiple_of_2p32 by (simp add: shl_def ToInt32_def push_bit_eq_mult)
  also have "\<dots> = word_of_int ((a + 65536 * b) * (c + 65536 * d))"
    by (simp add: algebra_simps flip: wi_hom_add)
  also have "\<dots> = e * t" by (simp flip: e t)
  finally show ?thesis .
qed

text \<open>Its intermediate double never leaves the range in which doubles are exact integers.\<close>

lemma xe_intermediate_exact:
  "uint (65535 AND e) * uint (65535 AND t) < 2 ^ 53 \<and>
   uint (ushr e 16) * uint (65535 AND t) + uint (65535 AND e) * uint (ushr t 16) < 2 ^ 53"
proof -
  have lo: "uint (65535 AND w) < 65536" for w :: int32
  proof -
    have "65535 AND w = take_bit 16 w"
      by (simp add: take_bit_eq_mask mask_eq_exp_minus_1 and.commute)
    then show ?thesis by (simp add: take_bit_eq_mod uint_mod)
  qed
  have hi: "uint (ushr w 16) < 65536" for w :: int32
  proof -
    have "uint w < 4294967296" using uint_bounded [of w] by simp
    then show ?thesis using split16 [of w] uint_ge_0 [of "65535 AND w"] by linarith
  qed
  have "x * y < 65536 * 65536" if "0 \<le> x" "x < 65536" "0 \<le> y" "y < 65536" for x y :: int
    using that by (intro mult_strict_mono) auto
  note b = this [OF uint_ge_0 _ uint_ge_0]
  show ?thesis
    using b [OF lo [of e] lo [of t]] b [OF hi [of e] lo [of t]] b [OF lo [of e] hi [of t]] by simp
qed

section \<open>Keys and the cache\<close>

lemma he_eq [simp]: "he a b \<longleftrightarrow> a = b"
  by (cases a; cases b) (auto simp: he_def)

lemma long_prototype_name:
  "e \<in> set object_prototype \<Longrightarrow> length e > 16 \<Longrightarrow> e = str ''propertyIsEnumerable''"
  by (auto simp: object_prototype_def str_def)

lemma empty_cache_ok: "cache_ok empty_cache"
  by (simp add: cache_ok_def empty_cache_def Ne_def)

lemma cached_hash_ok: "cache_ok s \<Longrightarrow> cache_ok (snd (cached_hash s e))"
  by (auto simp: cache_ok_def cached_hash_def Ne_def Let_def dom_def[symmetric] domIff card_insert_if
      split: option.splits)

lemma cached_hash_value:
  "cache_ok s \<Longrightarrow> e \<notin> set object_prototype \<Longrightarrow> fst (cached_hash s e) = HNum (ke e)"
  by (auto simp: cache_ok_def cached_hash_def Let_def split: option.splits)

lemma Ce_ok: "cache_ok s \<Longrightarrow> cache_ok (snd (Ce s k))"
  by (cases k) (simp_all add: cached_hash_ok)

lemma Ce_value:
  assumes "cache_ok s" "k \<noteq> KStr (str ''propertyIsEnumerable'')"
  shows "fst (Ce s k) = HNum (hash_of k)"
  using assms by (cases k) (auto intro!: cached_hash_value dest: long_prototype_name)



text \<open>The excluded string: its hash is the inherited method, not a number.\<close>

lemma inherited_name_is_not_hashed:
  "Ce empty_cache (KStr (str ''propertyIsEnumerable'')) =
     (HMethod (str ''propertyIsEnumerable''), empty_cache)"
  by (simp add: cached_hash_def empty_cache_def object_prototype_def str_def)

text \<open>C32: every hash fits a 31-bit signed integer, and reducing it again changes nothing.\<close>

theorem Se_small_integer:
  "- (2 ^ 30) \<le> sint (Se w) \<and> sint (Se w) < 2 ^ 30 \<and> Se (Se w) = Se w"
proof -
  have "Se (Se w) = Se w" by (intro bit_word_eqI) (simp add: Se_bit)
  moreover have "- (2 ^ 30) \<le> sint (Se w) \<and> sint (Se w) < 2 ^ 30"
    by (subst (1 2) Se_signed)
      (simp del: power_numeral add: signed_take_bit_int_greater_eq_minus_exp signed_take_bit_int_less_exp)
  ultimately show ?thesis by simp
qed

section \<open>Hash of a collection\<close>

lemma hash_fold_unordered:
  "foldl (hash_step hv hk False keyed) r es =
     r + sum_list (map (\<lambda>e. if keyed then qn (hv (snd e)) (hk (fst e)) else hv (snd e)) es)"
  by (induction es arbitrary: r) (auto simp: hash_step_def ToInt32_def)

text \<open>
  C31: the hash of an unordered collection does not depend on the order in which it is iterated:
  two iteration orders of the same entries give the same hash.
\<close>

theorem hashCode_order_independent:
  assumes "mset es = mset es'"
  shows "hashCode hv hk False keyed es = hashCode hv hk False keyed es'"
proof -
  have "sum_list (map f es) = sum_list (map f es')" for f :: "_ \<Rightarrow> int32"
    using assms by (metis mset_map sum_mset_sum_list)
  moreover have "length es = length es'" using assms by (rule mset_eq_length)
  ultimately show ?thesis by (simp add: hashCode_def hash_fold_unordered)
qed

theorem hashCode_order_independent_witness:
  "hashCode hash_of hash_of False True [(KNum 1, KNum 2), (KNum 3, KNum 4)] =
   hashCode hash_of hash_of False True [(KNum 3, KNum 4), (KNum 1, KNum 2)]"
proof -
  have "mset [(KNum 1, KNum 2), (KNum 3, KNum 4)] = mset [(KNum 3, KNum 4), (KNum 1, KNum 2)]"
    by simp
  from hashCode_order_independent [OF this] show ?thesis .
qed

section \<open>Counting bits\<close>

text \<open>
  The bit count is read in base 16: each step of \<open>ut\<close> acts on the hexadecimal digits of its
  argument without a carry from one digit to the next.
\<close>

lemma and_nib_split:
  fixes a b m M :: nat
  assumes "m < 16" "a < 16"
  shows "(a + 16 * b) AND (m + 16 * M) = (a AND m) + 16 * (b AND M)"
proof -
  let ?x = "(a + 16 * b) AND (m + 16 * M)"
  have "?x = take_bit 4 ?x + push_bit 4 (drop_bit 4 ?x)"
    by (simp only: bits_ident add.commute [of "take_bit _ _"])
  also have "take_bit 4 ?x = (a AND m)"
    unfolding take_bit_and using assms by (simp add: take_bit_eq_mod)
  also have "drop_bit 4 ?x = b AND M"
    unfolding drop_bit_and using assms by (simp add: drop_bit_eq_div)
  finally show ?thesis by (simp add: push_bit_eq_mult)
qed

lemma less16E: "(a::nat) < 16 \<Longrightarrow> a \<in> {0,1,2,3,4,5,6,7,8,9,10,11,12,13,14,15}"
proof -
  assume "a < 16"
  then have "a \<in> set [0..<16]" by simp
  also have "[0..<16] = [0,1,2,3,4,5,6,7,8,9,10,11,12,13,14,15]" by (simp add: upt_conv_Cons)
  finally show ?thesis by simp
qed

text \<open>The first two steps on numbers: sums of pairs of bits, then of pairs of those.\<close>

definition pair_sum :: "nat \<Rightarrow> nat \<Rightarrow> nat" where
  "pair_sum M x = x - ((x div 2) AND M)"

definition quad_sum :: "nat \<Rightarrow> nat \<Rightarrow> nat" where
  "quad_sum M x = (M AND x) + ((x div 4) AND M)"

text \<open>The number of set bits of a hexadecimal digit and of a number below \<open>2^k\<close>.\<close>

definition pc4 :: "nat \<Rightarrow> nat" where
  "pc4 a = a mod 2 + (a div 2) mod 2 + (a div 4) mod 2 + (a div 8) mod 2"

definition popcount :: "nat \<Rightarrow> nat \<Rightarrow> nat" where
  "popcount k n = (\<Sum>i<k. n div 2 ^ i mod 2)"

text \<open>A number from its hexadecimal digits, the lowest first.\<close>

fun hex :: "nat list \<Rightarrow> nat" where
  "hex [] = 0"
| "hex (a # as) = a + 16 * hex as"

lemma pair_and: "a < 16 \<Longrightarrow> (a div 2 + 8 * (x mod 2)) AND 5 = (a div 2) AND (5::nat)"
proof -
  assume "a < 16"
  then have a: "a \<in> {0,1,2,3,4,5,6,7,8,9,10,11,12,13,14,15}" by (rule less16E)
  have x: "x mod 2 = 0 \<or> x mod 2 = 1" by auto
  from x a show ?thesis by (elim disjE) auto
qed

lemma pair_le: "a < 16 \<Longrightarrow> (a div 2) AND 5 \<le> (a::nat)"
  by (drule less16E) auto

lemma pair_sum_step:
  assumes a: "a < 16"
  shows "pair_sum (5 + 16 * M) (a + 16 * x) = pair_sum 5 a + 16 * pair_sum M x"
proof -
  have d: "(a + 16 * x) div 2 = (a div 2 + 8 * (x mod 2)) + 16 * (x div 2)"
    by (simp add: div_add1_eq [of a "16 * x"], use div_mult_mod_eq [of x 2] in linarith)
  have "((a + 16 * x) div 2) AND (5 + 16 * M) = ((a div 2) AND 5) + 16 * ((x div 2) AND M)"
    unfolding d using a by (subst and_nib_split) (auto simp: pair_and)
  moreover have "(x div 2) AND M \<le> x" using nat_and_le1 [of "x div 2" M] by simp
  ultimately show ?thesis using pair_le [OF a] unfolding pair_sum_def by linarith
qed

lemma quad_sum_step:
  assumes a: "a < 16"
  shows "quad_sum (3 + 16 * M) (a + 16 * x) = quad_sum 3 a + 16 * quad_sum M x"
proof -
  have and3: "y AND 3 = y mod 4" for y :: nat using nat_and_mask [of y 2] by simp
  have d: "(a + 16 * x) div 4 = (a div 4 + 4 * (x mod 4)) + 16 * (x div 4)"
    by (simp add: div_add1_eq [of a "16 * x"], use div_mult_mod_eq [of x 4] in linarith)
  have e: "(a div 4 + 4 * (x mod 4)) AND 3 = (a div 4) AND 3" by (simp add: and3)
  have "((a + 16 * x) div 4) AND (3 + 16 * M) = ((a div 4) AND 3) + 16 * ((x div 4) AND M)"
    unfolding d using a by (subst and_nib_split) (auto simp: e)
  moreover have "(3 + 16 * M) AND (a + 16 * x) = (3 AND a) + 16 * (M AND x)"
    using a by (simp add: and_nib_split and.commute)
  ultimately show ?thesis by (simp add: quad_sum_def)
qed

lemma pair_sum_digit: "a < 16 \<Longrightarrow> pair_sum 5 a < 16"
  by (simp add: pair_sum_def)

lemma quad_sum_digit: "a < 16 \<Longrightarrow> quad_sum 3 (pair_sum 5 a) = pc4 a"
  by (drule less16E) (auto simp: pair_sum_def quad_sum_def pc4_def)

lemma pc4_le: "pc4 a \<le> 4"
  by (simp add: pc4_def mod2_eq_if)

lemma popcount_step:
  assumes a: "a < 16"
  shows "popcount (k + 4) (a + 16 * x) = pc4 a + popcount k x"
proof -
  have split: "(\<Sum>i<k+4. f i) = (\<Sum>i<4. f i) + (\<Sum>i<k. f (i + 4))" for f :: "nat \<Rightarrow> nat"
    by (induction k) (simp_all add: numeral_eq_Suc)
  have sum4: "(\<Sum>i<4. f i) = f 0 + f 1 + f 2 + f 3" for f :: "nat \<Rightarrow> nat"
    by (simp add: numeral_eq_Suc)
  have hi: "(a + 16 * x) div 2 ^ (i + 4) = x div 2 ^ i" for i
    using a by (simp add: power_add mult.commute [of "2 ^ i"] div_mult2_eq)
  have "even ((a + 16 * x) div 2) = even (a div 2)" "even ((a + 16 * x) div 4) = even (a div 4)"
    "even ((a + 16 * x) div 8) = even (a div 8)"
    by (simp_all add: div_add1_eq [of a "16 * x"])
  then have lo: "(\<Sum>i<4. (a + 16 * x) div 2 ^ i mod 2) = pc4 a"
    unfolding sum4 by (simp add: pc4_def mod2_eq_if)
  show ?thesis unfolding popcount_def split hi lo ..
qed

lemma hex_exists:
  "n < 16 ^ k \<Longrightarrow> \<exists>as. length as = k \<and> (\<forall>a\<in>set as. a < 16) \<and> n = hex as"
proof (induction k arbitrary: n)
  case (Suc k)
  then have "n div 16 < 16 ^ k" by (auto simp: less_mult_imp_div_less mult.commute)
  from Suc.IH [OF this] obtain as where
    "length as = k" "\<forall>a\<in>set as. a < 16" "n div 16 = hex as" by blast
  then show ?case by (intro exI [of _ "n mod 16 # as"]) (simp flip: \<open>n div 16 = hex as\<close>)
qed simp

lemma hex_sums:
  "\<forall>a\<in>set as. a < 16 \<Longrightarrow>
   quad_sum (hex (replicate (length as) 3)) (pair_sum (hex (replicate (length as) 5)) (hex as))
     = hex (map pc4 as)"
  by (induction as) (auto simp: pair_sum_step quad_sum_step pair_sum_digit quad_sum_digit,
      simp_all add: pair_sum_def quad_sum_def)

lemma hex_popcount:
  "\<forall>a\<in>set as. a < 16 \<Longrightarrow> popcount (4 * length as) (hex as) = sum_list (map pc4 as)"
proof (induction as)
  case (Cons a as)
  then show ?case using popcount_step [of a "4 * length as" "hex as"] by (simp add: add.commute)
qed (simp add: popcount_def)

lemma hex_and:
  "length as = length ms \<Longrightarrow> \<forall>a\<in>set as. a < 16 \<Longrightarrow> \<forall>m\<in>set ms. m < 16 \<Longrightarrow>
   hex as AND hex ms = hex (map2 (AND) as ms)"
  by (induction as ms rule: list_induct2) (auto simp: and_nib_split)

text \<open>The steps on words are those steps on numbers.\<close>

lemma ut_pairs:
  "unat (w - (signed_drop_bit 1 w AND 1431655765)) = pair_sum 1431655765 (unat (w :: int32))"
proof -
  have eq: "signed_drop_bit 1 w AND 1431655765 = drop_bit 1 w AND (1431655765 :: int32)"
    by (rule sdrop_and) simp_all
  have u: "unat (drop_bit 1 w AND (1431655765 :: int32)) = (unat w div 2) AND 1431655765"
    unfolding unat_and unat_drop by simp
  have "unat (drop_bit 1 w AND (1431655765 :: int32)) \<le> unat w"
    unfolding u using nat_and_le1 [of "unat w div 2" 1431655765] by simp
  then have "drop_bit 1 w AND (1431655765 :: int32) \<le> w" by (simp add: word_le_nat_alt)
  then show ?thesis unfolding eq pair_sum_def by (simp only: unat_sub u)
qed

lemma ut_quads:
  "unat ((858993459 AND w) + (signed_drop_bit 2 w AND 858993459)) = quad_sum 858993459 (unat (w :: int32))"
proof -
  have eq: "signed_drop_bit 2 w AND 858993459 = drop_bit 2 w AND (858993459 :: int32)"
    by (rule sdrop_and) simp_all
  have lt: "unat (858993459 AND w) + unat (drop_bit 2 w AND 858993459) < 2 ^ 32"
    unfolding unat_and unat_drop
    using nat_and_le1 [of 858993459 "unat w"] nat_and_le2 [of "unat w div 4" 858993459] by simp
  show ?thesis unfolding eq quad_sum_def unat_add_small [OF lt] unat_and unat_drop by simp
qed

lemma ut_bytes:
  assumes e2: "unat (e2 :: int32) = hex [p0,p1,p2,p3,p4,p5,p6,p7]"
    and le: "p0 \<le> 4" "p1 \<le> 4" "p2 \<le> 4" "p3 \<le> 4" "p4 \<le> 4" "p5 \<le> 4" "p6 \<le> 4" "p7 \<le> 4"
  shows "unat ((e2 + signed_drop_bit 4 e2) AND 252645135) =
    (p0 + p1) + 256 * ((p2 + p3) + 256 * ((p4 + p5) + 256 * (p6 + p7)))"
proof -
  have and15: "y AND 15 = y" if "y < 16" for y :: nat using that nat_and_mask [of y 4] by simp
  have sd: "signed_drop_bit 4 e2 = drop_bit 4 e2" by (rule sdrop_nonneg) (use e2 le in simp)
  have d: "unat (drop_bit 4 e2) = hex [p1,p2,p3,p4,p5,p6,p7]"
    unfolding unat_drop e2 using le by simp
  have s: "unat (e2 + drop_bit 4 e2) = hex [p0+p1,p1+p2,p2+p3,p3+p4,p4+p5,p5+p6,p6+p7,p7]"
    by (subst unat_add_small) (use le e2 d in simp_all)
  have "unat ((e2 + drop_bit 4 e2) AND 252645135) =
     hex [p0+p1,p1+p2,p2+p3,p3+p4,p4+p5,p5+p6,p6+p7,p7] AND hex [15,0,15,0,15,0,15,0]"
    by (simp add: unat_and s del: hex.simps) simp
  also have "\<dots> = hex [p0+p1,0,p2+p3,0,p4+p5,0,p6+p7,0]"
    by (subst hex_and) (use le in \<open>simp_all add: and15\<close>)
  finally show ?thesis unfolding sd by simp
qed

lemma ut_fold:
  assumes e3: "unat (e3 :: int32) = q0 + 256 * (q1 + 256 * (q2 + 256 * q3))"
    and le: "q0 \<le> 8" "q1 \<le> 8" "q2 \<le> 8" "q3 \<le> 8"
  shows "unat (127 AND ((e3 + signed_drop_bit 8 e3) + signed_drop_bit 16 (e3 + signed_drop_bit 8 e3)))
     = q0 + q1 + q2 + q3"
proof -
  have and127: "127 AND y = y mod 128" for y :: nat
    using nat_and_mask [of y 7] by (simp add: and.commute)
  have sd: "signed_drop_bit 8 e3 = drop_bit 8 e3" by (rule sdrop_nonneg) (use e3 le in simp)
  have d: "unat (drop_bit 8 e3) = q1 + 256 * (q2 + 256 * q3)"
    unfolding unat_drop e3 using le by simp
  have e4: "unat (e3 + drop_bit 8 e3) = (q0 + q1) + 256 * (q1 + q2) + 65536 * ((q2 + q3) + 256 * q3)"
    by (subst unat_add_small) (use le e3 d in simp_all)
  have sd4: "signed_drop_bit 16 (e3 + drop_bit 8 e3) = drop_bit 16 (e3 + drop_bit 8 e3)"
    by (rule sdrop_nonneg) (use e4 le in simp)
  have d4: "unat (drop_bit 16 (e3 + drop_bit 8 e3)) = (q2 + q3) + 256 * q3"
    unfolding unat_drop e4 using le by simp
  have e5: "unat ((e3 + drop_bit 8 e3) + drop_bit 16 (e3 + drop_bit 8 e3))
     = (q0 + q1 + q2 + q3) + 128 * (2 * (q1 + q2 + q3) + 512 * ((q2 + q3) + 256 * q3))"
    by (subst unat_add_small) (use le e4 d4 in simp_all)
  have m: "unat (127 :: int32) = 127" by simp
  show ?thesis unfolding sd sd4 unat_and e5 m and127 mod_mult_self2 using le by simp
qed

lemma length8: "length as = 8 \<Longrightarrow> \<exists>a0 a1 a2 a3 a4 a5 a6 a7. as = [a0,a1,a2,a3,a4,a5,a6,a7]"
  by (auto simp: numeral_eq_Suc length_Suc_conv)

lemma ut_popcount: "unat (ut w) = popcount 32 (unat w)"
proof -
  have "unat w < 16 ^ 8" using unat_less_32 [of w] by simp
  then obtain as where as: "length as = 8" "\<forall>a\<in>set as. a < 16" "unat w = hex as"
    using hex_exists by blast
  define e1 where "e1 = w - (signed_drop_bit 1 w AND 1431655765)"
  define e2 where "e2 = (858993459 AND e1) + (signed_drop_bit 2 e1 AND 858993459)"
  have r: "replicate 8 x = [x,x,x,x,x,x,x,x]" for x :: nat by (simp add: numeral_eq_Suc)
  have "unat e2 = hex (map pc4 as)"
    unfolding e2_def e1_def ut_quads ut_pairs as(3)
    using hex_sums [OF as(2)] by (simp add: as(1) r)
  moreover obtain a0 a1 a2 a3 a4 a5 a6 a7 where l: "as = [a0,a1,a2,a3,a4,a5,a6,a7]"
    using as(1) length8 by blast
  ultimately have e2: "unat e2 = hex [pc4 a0,pc4 a1,pc4 a2,pc4 a3,pc4 a4,pc4 a5,pc4 a6,pc4 a7]"
    by simp
  have sh: "sshr x 1 = signed_drop_bit 1 x" "sshr x 2 = signed_drop_bit 2 x"
    "sshr x 4 = signed_drop_bit 4 x" "sshr x 8 = signed_drop_bit 8 x"
    "sshr x 16 = signed_drop_bit 16 x" for x
    by (simp_all add: sshr_def)
  note le = pc4_le [of a0] pc4_le [of a1] pc4_le [of a2] pc4_le [of a3]
    pc4_le [of a4] pc4_le [of a5] pc4_le [of a6] pc4_le [of a7]
  have "unat (ut w) = (pc4 a0 + pc4 a1) + (pc4 a2 + pc4 a3) + (pc4 a4 + pc4 a5) + (pc4 a6 + pc4 a7)"
    unfolding ut_def Let_def sh e1_def [symmetric] e2_def [symmetric]
    by (rule ut_fold, rule ut_bytes [OF e2]) (use le in simp_all)
  also have "\<dots> = popcount 32 (unat w)"
    using hex_popcount [OF as(2)] by (simp add: as(1,3)) (simp add: l)
  finally show ?thesis .
qed

lemma popcount_card: "popcount 32 (unat (w :: int32)) = card {i. i < 32 \<and> bit w i}"
proof -
  have "unat w div 2 ^ i mod 2 = of_bool (bit w i)" if "i < 32" for i
  proof -
    have "bit (unat w) i = bit w i" using that by (simp add: bit_unsigned_iff)
    then show ?thesis by (simp add: bit_iff_odd mod2_eq_if)
  qed
  then have "popcount 32 (unat w) = (\<Sum>i<32. of_bool (bit w i))"
    by (simp add: popcount_def)
  also have "\<dots> = card ({..<32} \<inter> {i. bit w i})" by (simp add: sum.If_cases of_bool_def)
  also have "{..<32} \<inter> {i. bit w i} = {i. i < 32 \<and> bit w i}" by auto
  finally show ?thesis .
qed

text \<open>C28: \<open>ut\<close> counts the set bits of its argument, for every 32-bit argument.\<close>

theorem ut_counts_bits: "unat (ut w) = card {i. i < 32 \<and> bit w i}"
  by (simp add: ut_popcount popcount_card)

end
