(* ===== verification/Imm_Map.thy ===== *)
theory Imm_Map
  imports Imm_Hash
begin

text \<open>
  The persistent hash map of the Immutable module: \<^verbatim>\<open>Map\<close> (\<open>Ue\<close>) over the nodes \<open>Ve\<close>
  (an array of at most eight entries, only ever the root), \<open>He\<close> (children packed under a 32-bit
  bitmap), \<open>We\<close> (32 slots), \<open>Je\<close> (entries of one hash) and \<open>Ye\<close> (one entry), with the
  operations on each node, their composition in \<open>Qe\<close>, and iteration.

  The \<open>ownerID\<close> of a node only decides whether an update copies the node or writes into it; the
  value of the result is the same, and the model is that value. The sentinel \<open>y\<close> (\<open>NOT_SET\<close>) as the
  new value of a key, which removes it, is \<^const>\<open>None\<close>. The flags \<open>didChangeSize\<close> and \<open>didAlter\<close>, passed
  as mutable cells, are the two booleans in the result of an update. The code tests
  \<open>h === d\<close> for \<open>the child came back unchanged\<close>; the model compares the values.
\<close>

section \<open>Nodes\<close>

type_synonym 'v entry = "key \<times> 'v"

datatype 'v node =
    He int32 "'v node list"
  | We nat "'v node option list"
  | Je int32 "'v entry list"
  | Ye int32 "'v entry"

datatype 'v root = Ve "'v entry list" | Node "'v node"

text \<open>Constants: \<open>v = 5\<close>, \<open>m = 1 << v\<close>, \<open>g = m - 1\<close>, and the sizes at which nodes change shape.\<close>

definition v_shift :: nat where "v_shift = 5"
definition m_size :: nat where "m_size = 32"
definition lt_max :: nat where "lt_max = m_size div 4"
definition ct_max :: nat where "ct_max = m_size div 2"
definition ft_min :: nat where "ft_min = m_size div 4"

definition idx :: "nat \<Rightarrow> int32 \<Rightarrow> nat" where
  "idx n h = unat ((if n = 0 then h else ushr h n) AND 31)"

definition slot :: "int32 \<Rightarrow> int32 \<Rightarrow> nat" where
  "slot bm s = unat (ut (bm AND (s - 1)))"

definition with_hash :: "int32 option \<Rightarrow> key \<Rightarrow> int32" where
  "with_hash t k = (case t of None \<Rightarrow> hash_of k | Some h \<Rightarrow> h)"

section \<open>Reading\<close>

text \<open>The value for a missing key is \<^const>\<open>None\<close> where the code passes \<open>y\<close>.\<close>

fun entries_get :: "'v entry list \<Rightarrow> key \<Rightarrow> 'v option \<Rightarrow> 'v option" where
  "entries_get [] n r = r"
| "entries_get (e # es) n r = (if he n (fst e) then Some (snd e) else entries_get es n r)"

function (sequential) node_get :: "'v node \<Rightarrow> nat \<Rightarrow> int32 option \<Rightarrow> key \<Rightarrow> 'v option \<Rightarrow> 'v option js" where
  "node_get (He bm ns) e t n r =
     (let h = with_hash t n; s = shl 1 (idx e h)
      in if bm AND s = 0 then Inr r
         else case arr_get ns (slot bm s) of
                Some c \<Rightarrow> node_get c (e + v_shift) (Some h) n r
              | None \<Rightarrow> Inl TypeError)"
| "node_get (We c ns) e t n r =
     (let h = with_hash t n
      in case arr_get ns (idx e h) of
           Some (Some c) \<Rightarrow> node_get c (e + v_shift) (Some h) n r
         | _ \<Rightarrow> Inr r)"
| "node_get (Je h es) e t n r = Inr (entries_get es n r)"
| "node_get (Ye h en) e t n r = Inr (if he n (fst en) then Some (snd en) else r)"
  by pat_completeness auto

lemma size_option_Some [termination_simp]: "x \<in> set ns \<Longrightarrow> x = Some c \<Longrightarrow> size c < Suc (size_list (size_option size) ns)"
proof -
  assume "x \<in> set ns" "x = Some c"
  then have "size_option size (Some c) \<le> size_list (size_option size) ns"
    using size_list_estimation'[of "Some c" ns _ "size_option size"] by auto
  then show ?thesis by simp
qed

lemma arr_get_size [termination_simp]: "arr_get ns i = Some c \<Longrightarrow> size c < Suc (size_list size ns)"
  by (drule arr_get_mem) (simp add: size_list_estimation' less_Suc_eq_le)

lemma arr_get_size_option [termination_simp]:
  "arr_get ns i = Some (Some c) \<Longrightarrow> size c < Suc (size_list (size_option size) ns)"
  by (rule size_option_Some [OF arr_get_mem refl])

termination node_get
  by (relation "measure (\<lambda>(nd, _). size nd)") (auto simp: termination_simp)

section \<open>Merging a leaf with a new entry\<close>

text \<open>
  Two hashes that differ in a bit differ in some five-bit field: the shift counts \<open>n, n + 5, ...\<close>
  modulo 32 run through every bit position, so the merge of two leaves ends.
\<close>

lemma idx_differs:
  assumes "a \<noteq> (b :: int32)"
  shows "\<exists>k. idx (n + v_shift * k) a \<noteq> idx (n + v_shift * k) b"
proof -
  from assms obtain i where i: "i < 32" "bit a i \<noteq> bit b i"
    using bit_word_eqI [of a b] by auto
  define q r where "q = n div 32" and "r = n mod 32"
  then have n: "n = 32 * q + r" "r < 32" by simp_all
  define d where "d = i + 32 - r"
  define k where "k = 13 * d"
  have "d + r = i + 32" using n by (simp add: d_def)
  then have "n + 5 * k = i + 32 * (q + 1 + 2 * d)" unfolding k_def n(1) by simp
  then have k: "(n + 5 * k) mod 32 = i" using i(1) by (simp only: mod_mult_self2 mod_less)
  have bit0: "bit ((if m = 0 then w else ushr w m) AND 31) 0 = bit w (m mod 32)" for m and w :: int32
    by (auto simp: ushr_def bit_0 even_and_iff even_drop_bit_iff_not_bit)
  have "(if n + 5 * k = 0 then a else ushr a (n + 5 * k)) AND 31 \<noteq>
        (if n + 5 * k = 0 then b else ushr b (n + 5 * k)) AND 31"
    using bit0 [of "n + 5 * k" a] bit0 [of "n + 5 * k" b] i(2) unfolding k by (intro notI) simp
  then show ?thesis
    unfolding idx_def v_shift_def by (intro exI [of _ k]) (metis word_unat_eq_iff)
qed

function (sequential) nt :: "'v node \<Rightarrow> int32 \<Rightarrow> nat \<Rightarrow> int32 \<Rightarrow> 'v entry \<Rightarrow> 'v node" where
  "nt e kh n r ent =
     (if kh = r then (case e of Ye _ ent0 \<Rightarrow> Je r [ent0, ent] | _ \<Rightarrow> Je r [ent])
      else let a = idx n kh; u = idx n r
           in He (shl 1 a OR shl 1 u)
                (if a = u then [nt e kh (n + v_shift) r ent]
                 else let i = Ye r ent in if a < u then [e, i] else [i, e]))"
  by pat_completeness auto
termination
proof (relation "measure (\<lambda>(e, kh, n, r, ent). LEAST k. idx (n + v_shift * k) kh \<noteq> idx (n + v_shift * k) r)")
  fix e :: "'v node" and kh r :: int32 and n :: nat and ent :: "'v entry" and a u
  assume ne: "kh \<noteq> r" and a: "a = idx n kh" and u: "u = idx n r" and eq: "a = u"
  define P where "P m k \<longleftrightarrow> idx (m + v_shift * k) kh \<noteq> idx (m + v_shift * k) r" for m k
  obtain k where k: "P n k" unfolding P_def using idx_differs [OF ne] by blast
  have "\<not> P n 0" using a u eq by (simp add: P_def)
  moreover have P_Suc: "P n (Suc k) = P (n + v_shift) k" for k by (simp add: P_def add.assoc)
  ultimately have "(LEAST k. P n k) = Suc (LEAST k. P n (Suc k))"
    using k by (intro Least_Suc) auto
  then show "((e, kh, n + v_shift, r, ent), (e, kh, n, r, ent)) \<in>
     measure (\<lambda>(e, kh, n, r, ent). LEAST k. idx (n + v_shift * k) kh \<noteq> idx (n + v_shift * k) r)"
    by (simp add: P_def P_Suc add.assoc)
qed simp

declare nt.simps [simp del]

section \<open>Updating\<close>

text \<open>The result of an update of a node: the new node (if any), \<open>didChangeSize\<close>, \<open>didAlter\<close>.\<close>

type_synonym 'v upd_result = "'v node option \<times> bool \<times> bool"

text \<open>\<open>et\<close>: updates the child if there is one, else makes a leaf.\<close>

definition et :: "('v node \<Rightarrow> 'v upd_result) \<Rightarrow> 'v node option \<Rightarrow> int32 \<Rightarrow> key \<Rightarrow> 'v option \<Rightarrow> 'v upd_result" where
  "et update e r k i =
     (case e of
        Some nd \<Rightarrow> update nd
      | None \<Rightarrow> (case i of None \<Rightarrow> (None, False, False) | Some x \<Rightarrow> (Some (Ye r (k, x)), True, True)))"

lemma et_cong [fundef_cong]:
  "d = d' \<Longrightarrow> r = r' \<Longrightarrow> k = k' \<Longrightarrow> i = i' \<Longrightarrow> (\<And>nd. d' = Some nd \<Longrightarrow> f nd = f' nd) \<Longrightarrow> et f d r k i = et f' d' r' k' i'"
  by (auto simp: et_def split: option.splits)

fun tt :: "'v node \<Rightarrow> bool" where
  "tt (Ye _ _) = True"
| "tt (Je _ _) = True"
| "tt _ = False"

text \<open>The index of the first entry with the key, the length if there is none.\<close>

fun entry_index :: "key \<Rightarrow> 'v entry list \<Rightarrow> nat" where
  "entry_index k [] = 0"
| "entry_index k (e # es) = (if he k (fst e) then 0 else Suc (entry_index k es))"

text \<open>The new entries of \<open>Ve\<close> and \<open>Je\<close>: removal moves the last entry into the gap.\<close>

definition edit_entries :: "'v entry list \<Rightarrow> nat \<Rightarrow> key \<Rightarrow> 'v option \<Rightarrow> 'v entry list" where
  "edit_entries d l r i =
     (if l < length d then
        (case i of
           None \<Rightarrow> (if l = length d - 1 then butlast d else (butlast d)[l := last d])
         | Some x \<Rightarrow> d[l := (r, x)])
      else (case i of None \<Rightarrow> d | Some x \<Rightarrow> d @ [(r, x)]))"

text \<open>Expanding a packed node to 32 slots, and packing one without slot \<open>r\<close>.\<close>

function expand_bits :: "int32 \<Rightarrow> 'a list \<Rightarrow> nat \<Rightarrow> 'a option list \<times> nat" where
  "expand_bits n t i =
     (if n = 0 then ([], i)
      else if 1 AND n = 1 then
        let (a, j) = expand_bits (ushr n 1) t (i + 1) in (arr_get t i # a, j)
      else let (a, j) = expand_bits (ushr n 1) t i in (None # a, j))"
  by pat_completeness auto
termination
proof (relation "measure (\<lambda>(n, t, i). unat n)")
  fix n :: int32 and t :: "'a list" and i :: nat
  assume "n \<noteq> 0"
  then have "unat (ushr n 1) < unat n" by (simp add: ushr_def unat_drop word_unat_eq_iff)
  then show "((ushr n 1, t, i + 1), (n, t, i)) \<in> measure (\<lambda>(n, t, i). unat n)"
    and "((ushr n 1, t, i), (n, t, i)) \<in> measure (\<lambda>(n, t, i). unat n)" by simp_all
qed simp

declare expand_bits.simps [simp del]

definition expandNodes :: "'v node list \<Rightarrow> int32 \<Rightarrow> nat \<Rightarrow> 'v node \<Rightarrow> 'v node" where
  "expandNodes t n r h =
     (let (a, i) = expand_bits n t 0
      in We (i + 1) ((a @ replicate (m_size - length a) None)[r := Some h]))"

fun pack_bits :: "'a option list \<Rightarrow> nat \<Rightarrow> nat \<Rightarrow> int32 \<times> 'a list" where
  "pack_bits [] u r = (0, [])"
| "pack_bits (c # t) u r =
     (let (bm, a) = pack_bits t (Suc u) r
      in case c of Some x \<Rightarrow> (if u \<noteq> r then (shl 1 u OR bm, x # a) else (bm, a)) | None \<Rightarrow> (bm, a))"

definition packNodes :: "'v node option list \<Rightarrow> nat \<Rightarrow> 'v node" where
  "packNodes t r = (let (bm, a) = pack_bits t 0 r in He bm a)"

text \<open>Copies of an array with one element removed or inserted.\<close>

definition spliceOut :: "'a list \<Rightarrow> nat \<Rightarrow> 'a list" where
  "spliceOut e t = take t e @ drop (Suc t) e"

definition spliceIn :: "'a list \<Rightarrow> nat \<Rightarrow> 'a \<Rightarrow> 'a list" where
  "spliceIn e t n = take t e @ n # drop t e"

text \<open>The updates of the four kinds of inner node.\<close>

definition He_finish :: "int32 \<Rightarrow> 'v node list \<Rightarrow> int32 \<Rightarrow> nat \<Rightarrow> nat \<Rightarrow> bool \<Rightarrow> 'v node option \<Rightarrow> 'v node option" where
  "He_finish l p s u f c h =
     (case h of
        Some h1 \<Rightarrow>
          if \<not> c \<and> length p \<ge> ct_max then Some (expandNodes p l u h1)
          else if c \<and> length p = 1 \<and> tt h1 then Some h1
          else if c then Some (He l (p[f := h1]))
          else Some (He (l OR s) (spliceIn p f h1))
      | None \<Rightarrow>
          (case arr_get p (1 XOR f) of
             Some q \<Rightarrow> if c \<and> length p = 2 \<and> tt q then Some q else Some (He (l XOR s) (spliceOut p f))
           | None \<Rightarrow> Some (He (l XOR s) (spliceOut p f))))"

definition We_finish :: "nat \<Rightarrow> 'v node option list \<Rightarrow> nat \<Rightarrow> 'v node option \<Rightarrow> 'v node option \<Rightarrow> 'v node option" where
  "We_finish p l u c f =
     (if c \<noteq> None then
        (if f = None \<and> p - 1 < ft_min then Some (packNodes l u)
         else Some (We (if f = None then p - 1 else p) (l[u := f])))
      else Some (We (p + 1) (l[u := f])))"

function (sequential) upd :: "'v node \<Rightarrow> nat \<Rightarrow> int32 option \<Rightarrow> key \<Rightarrow> 'v option \<Rightarrow> 'v upd_result" where
  "upd (He l p) t n r i =
     (let n1 = with_hash n r; u = idx t n1; s = shl 1 u; c = (l AND s \<noteq> 0)
      in if \<not> c \<and> i = None then (Some (He l p), False, False)
         else let f = slot l s;
                  d = (if c then arr_get p f else None);
                  (h, ch, al) = et (\<lambda>nd. upd nd (t + v_shift) (Some n1) r i) d n1 r i
              in if h = d then (Some (He l p), ch, al) else (He_finish l p s u f c h, ch, al))"
| "upd (We p l) t n r i =
     (let n1 = with_hash n r; u = idx t n1;
          c = (case arr_get l u of Some x \<Rightarrow> x | None \<Rightarrow> None)
      in if i = None \<and> c = None then (Some (We p l), False, False)
         else let (f, ch, al) = et (\<lambda>nd. upd nd (t + v_shift) (Some n1) r i) c n1 r i
              in if f = c then (Some (We p l), ch, al) else (We_finish p l u c f, ch, al))"
| "upd (Je kh s) t n r i =
     (let n1 = with_hash n r
      in if n1 \<noteq> kh then
           (case i of None \<Rightarrow> (Some (Je kh s), False, False)
            | Some x \<Rightarrow> (Some (nt (Je kh s) kh t n1 (r, x)), True, True))
         else let l = entry_index r s; f = (l < length s)
              in if (if f then i = Some (snd (s ! l)) else i = None) then (Some (Je kh s), False, False)
                 else if i = None \<and> length s = 2 then (Some (Ye kh (s ! (1 XOR l))), True, True)
                 else (Some (Je kh (edit_entries s l r i)), i = None \<or> \<not> f, True))"
| "upd (Ye kh e) t n r i =
     (let s = he r (fst e)
      in if (if s then i = Some (snd e) else i = None) then (Some (Ye kh e), False, False)
         else case i of
                None \<Rightarrow> (None, True, True)
              | Some x \<Rightarrow> if s then (Some (Ye kh (r, x)), False, True)
                          else (Some (nt (Ye kh e) kh t (hash_of r) (r, x)), True, True))"
  by pat_completeness auto
termination
  by (relation "measure (\<lambda>(nd, _). size nd)")
    (auto simp: termination_simp split: if_splits option.splits)

section \<open>The root and the map\<close>

text \<open>
  A ninth entry turns the array of entries into a trie: \<open>create_nodes\<close> inserts the old entries
  into a leaf of the new one.
\<close>

fun create_nodes :: "'v node \<Rightarrow> 'v entry list \<Rightarrow> 'v node option" where
  "create_nodes nd [] = Some nd"
| "create_nodes nd (a # t) =
     (case upd nd 0 None (fst a) (Some (snd a)) of
        (Some nd1, _, _) \<Rightarrow> create_nodes nd1 t
      | (None, _, _) \<Rightarrow> None)"

fun root_get :: "'v root \<Rightarrow> nat \<Rightarrow> int32 option \<Rightarrow> key \<Rightarrow> 'v option \<Rightarrow> 'v option js" where
  "root_get (Ve es) e t n r = Inr (entries_get es n r)"
| "root_get (Node nd) e t n r = node_get nd e t n r"

fun root_update :: "'v root \<Rightarrow> key \<Rightarrow> 'v option \<Rightarrow> 'v root option \<times> bool \<times> bool" where
  "root_update (Ve s) r i =
     (let l = entry_index r s; f = (l < length s); ch = (i = None \<or> \<not> f)
      in if (if f then i = Some (snd (s ! l)) else i = None) then (Some (Ve s), False, False)
         else if i = None \<and> length s = 1 then (None, ch, True)
         else case i of
                Some x \<Rightarrow> if \<not> f \<and> length s \<ge> lt_max
                           then (map_option Node (create_nodes (Ye (hash_of r) (r, x)) s), ch, True)
                           else (Some (Ve (edit_entries s l r i)), ch, True)
              | None \<Rightarrow> (Some (Ve (edit_entries s l r i)), ch, True))"
| "root_update (Node nd) r i =
     (let (nd1, ch, al) = upd nd 0 None r i in (map_option Node nd1, ch, al))"

datatype 'v immap = Immap (map_size: int) (map_root: "'v root option")

text \<open>\<open>Xe\<close>: the empty map; \<open>Qe\<close>: \<open>set\<close> and \<open>remove\<close> at once.\<close>

definition Xe :: "'v immap" where
  "Xe = Immap 0 None"

definition Qe :: "'v immap \<Rightarrow> key \<Rightarrow> 'v option \<Rightarrow> 'v immap" where
  "Qe e t n =
     (case map_root e of
        Some root \<Rightarrow>
          (let (r, i, a) = root_update root t n
           in if \<not> a then e
              else case r of
                     Some r1 \<Rightarrow> Immap (map_size e + (if i then (if n = None then -1 else 1) else 0)) (Some r1)
                   | None \<Rightarrow> Xe)
      | None \<Rightarrow>
          (case n of
             None \<Rightarrow> e
           | Some x \<Rightarrow> Immap 1 (Some (Ve [(t, x)]))))"

definition map_get :: "'v immap \<Rightarrow> key \<Rightarrow> 'v option \<Rightarrow> 'v option js" where
  "map_get m e t = (case map_root m of Some root \<Rightarrow> root_get root 0 None e t | None \<Rightarrow> Inr t)"

definition map_has :: "'v immap \<Rightarrow> key \<Rightarrow> bool js" where
  "map_has m e = map_sum id (\<lambda>x. x \<noteq> None) (map_get m e None)"

definition map_set :: "'v immap \<Rightarrow> key \<Rightarrow> 'v \<Rightarrow> 'v immap" where
  "map_set m e t = Qe m e (Some t)"

definition map_remove :: "'v immap \<Rightarrow> key \<Rightarrow> 'v immap" where
  "map_remove m e = Qe m e None"

definition map_clear :: "'v immap \<Rightarrow> 'v immap" where
  "map_clear m = (if map_size m = 0 then m else Xe)"

section \<open>Iteration\<close>

text \<open>
  A callback takes a state and an element; the boolean it returns is \<^const>\<open>False\<close> when the code's
  callback returns \<open>false\<close>, which ends the iteration.
\<close>

fun iter :: "('s \<Rightarrow> 'a \<Rightarrow> 's \<times> bool) \<Rightarrow> 'a list \<Rightarrow> 's \<Rightarrow> 's \<times> bool" where
  "iter f [] s = (s, True)"
| "iter f (x # xs) s = (let (s1, ok) = f s x in if ok then iter f xs s1 else (s1, False))"

lemma iter_cong [fundef_cong]:
  "xs = ys \<Longrightarrow> s = t \<Longrightarrow> (\<And>x u. x \<in> set ys \<Longrightarrow> f u x = g u x) \<Longrightarrow> iter f xs s = iter g ys t"
proof (induction ys arbitrary: xs s t)
  case (Cons y ys)
  then show ?case by (simp add: case_prod_unfold Let_def)
qed simp

function (sequential) node_iterate ::
  "('s \<Rightarrow> 'v entry \<Rightarrow> 's \<times> bool) \<Rightarrow> bool \<Rightarrow> 'v node \<Rightarrow> 's \<Rightarrow> 's \<times> bool" where
  "node_iterate e t (He bm ns) s =
     iter (\<lambda>s i. node_iterate e t i s) (if t then rev ns else ns) s"
| "node_iterate e t (We c ns) s =
     iter (\<lambda>s i. case i of Some nd \<Rightarrow> node_iterate e t nd s | None \<Rightarrow> (s, True))
       (if t then rev ns else ns) s"
| "node_iterate e t (Je h es) s = iter e (if t then rev es else es) s"
| "node_iterate e t (Ye h en) s = e s en"
  by pat_completeness auto
termination
  by (relation "measure (\<lambda>(_, _, nd, _). size nd)")
    (auto simp: termination_simp size_option_Some split: if_splits)

fun root_iterate :: "('s \<Rightarrow> 'v entry \<Rightarrow> 's \<times> bool) \<Rightarrow> bool \<Rightarrow> 'v root \<Rightarrow> 's \<Rightarrow> 's \<times> bool" where
  "root_iterate e t (Ve es) s = iter e (if t then rev es else es) s"
| "root_iterate e t (Node nd) s = node_iterate e t nd s"

text \<open>\<open>__iterate\<close> of the map: calls back with value and key, and returns how often it did.\<close>

definition map_iterate :: "('s \<Rightarrow> 'v \<Rightarrow> key \<Rightarrow> 's \<times> bool) \<Rightarrow> bool \<Rightarrow> 'v immap \<Rightarrow> 's \<Rightarrow> 's \<times> nat" where
  "map_iterate e t m s =
     (case map_root m of
        Some root \<Rightarrow>
          fst (root_iterate (\<lambda>(s, r) en. let (s1, ok) = e s (snd en) (fst en) in ((s1, r + 1), ok))
                 t root (s, 0))
      | None \<Rightarrow> (s, 0))"

text \<open>
  The iterator \<open>Ke\<close>: a stack of nodes, each with the index of the next child to visit. A node below
  the root is stacked unless it is a single entry, which is delivered at once.
\<close>

type_synonym 'v frame = "'v root \<times> nat"

fun frame_next :: "bool \<Rightarrow> 'v root \<Rightarrow> nat \<Rightarrow> ('v entry + 'v node option) option" where
  "frame_next r (Node (Ye h e)) i = (if i = 0 then Some (Inl e) else None)"
| "frame_next r (Node (Je h es)) i =
     (if i < length es then Some (Inl (es ! (if r then length es - 1 - i else i))) else None)"
| "frame_next r (Ve es) i =
     (if i < length es then Some (Inl (es ! (if r then length es - 1 - i else i))) else None)"
| "frame_next r (Node (He bm ns)) i =
     (if i < length ns then Some (Inr (Some (ns ! (if r then length ns - 1 - i else i)))) else None)"
| "frame_next r (Node (We c ns)) i =
     (if i < length ns then Some (Inr (ns ! (if r then length ns - 1 - i else i))) else None)"

fun node_cost :: "'v node \<Rightarrow> nat" where
  "node_cost (He bm ns) = 2 + sum_list (map (\<lambda>c. Suc (node_cost c)) ns)"
| "node_cost (We n ns) = 2 + sum_list (map (\<lambda>c. Suc (case c of None \<Rightarrow> 0 | Some x \<Rightarrow> node_cost x)) ns)"
| "node_cost (Je h es) = 2 + length es"
| "node_cost (Ye h e) = 3"

fun frame_cost :: "bool \<Rightarrow> 'v frame \<Rightarrow> nat" where
  "frame_cost r (Node (He bm ns), i) = 1 + sum_list (map (\<lambda>c. Suc (node_cost c)) (drop i (if r then rev ns else ns)))"
| "frame_cost r (Node (We n ns), i) =
     1 + sum_list (map (\<lambda>c. Suc (case c of None \<Rightarrow> 0 | Some x \<Rightarrow> node_cost x)) (drop i (if r then rev ns else ns)))"
| "frame_cost r (Node (Je h es), i) = 1 + (length es - i)"
| "frame_cost r (Node (Ye h e), i) = 1 + (1 - i)"
| "frame_cost r (Ve es, i) = 1 + (length es - i)"

lemma frame_cost_0: "frame_cost r (Node nd, 0) < node_cost nd"
  by (cases nd) (auto simp: rev_map [symmetric])

lemma drop_nth_rev:
  "i < length ns \<Longrightarrow> drop i ns = ns ! i # drop (Suc i) ns"
  "i < length ns \<Longrightarrow> drop i (rev ns) = ns ! (length ns - Suc i) # drop (Suc i) (rev ns)"
  by (simp_all add: Cons_nth_drop_Suc [symmetric] rev_nth)

lemma frame_cost_pos: "0 < frame_cost r f"
  by (cases "(r, f)" rule: frame_cost.cases) auto

lemma frame_cost_child:
  "frame_next r nd i = Some (Inr c) \<Longrightarrow>
   frame_cost r (nd, i) = Suc (frame_cost r (nd, Suc i) + (case c of None \<Rightarrow> 0 | Some x \<Rightarrow> node_cost x))"
  by (cases "(r, nd, i)" rule: frame_next.cases) (auto simp: drop_nth_rev(1) rev_nth split: if_splits)

function Ke_next :: "bool \<Rightarrow> 'v frame list \<Rightarrow> 'v entry option \<times> 'v frame list" where
  "Ke_next r [] = (None, [])"
| "Ke_next r ((nd, i) # st) =
     (case frame_next r nd i of
        Some (Inl e) \<Rightarrow> (Some e, (nd, Suc i) # st)
      | Some (Inr None) \<Rightarrow> Ke_next r ((nd, Suc i) # st)
      | Some (Inr (Some c)) \<Rightarrow>
          (case c of
             Ye h e \<Rightarrow> (Some e, (nd, Suc i) # st)
           | _ \<Rightarrow> Ke_next r ((Node c, 0) # (nd, Suc i) # st))
      | None \<Rightarrow> Ke_next r st)"
  by pat_completeness auto
termination
  by (relation "measure (\<lambda>(r, st). sum_list (map (frame_cost r) st))")
    (use frame_cost_0 [THEN less_SucI] in \<open>auto simp: frame_cost_child frame_cost_pos simp del: frame_cost.simps node_cost.simps\<close>)

definition Ke :: "'v immap \<Rightarrow> 'v frame list" where
  "Ke m = (case map_root m of None \<Rightarrow> [] | Some r \<Rightarrow> [(r, 0)])"

end
