(* ===== verification/Imm_Trie.thy ===== *)
theory Imm_Trie
  imports Imm_Map
begin

text \<open>
  The invariant of the hash trie and the correctness of its lookup. A bitmap is read as the
  increasing list of its set bits, so that a packed node is well formed when its children match that
  list; the entries below the child of bit \<open>i\<close> have the five-bit field \<open>i\<close> in their hash.
\<close>

section \<open>Bitmaps\<close>

definition bits :: "int32 \<Rightarrow> nat list" where
  "bits bm = filter (bit bm) [0..<32]"

definition lower_bits :: "int32 \<Rightarrow> nat \<Rightarrow> nat list" where
  "lower_bits bm u = filter (bit bm) [0..<u]"

definition upper_bits :: "int32 \<Rightarrow> nat \<Rightarrow> nat list" where
  "upper_bits bm u = filter (bit bm) [Suc u..<32]"

lemma upt_32_split: "u < 32 \<Longrightarrow> [0..<32] = [0..<u] @ u # [Suc u..<32]"
  using upt_add_eq_append [of 0 u "32 - u"] by (simp add: upt_conv_Cons)

lemma bits_split:
  "u < 32 \<Longrightarrow> bits bm = lower_bits bm u @ (if bit bm u then [u] else []) @ upper_bits bm u"
  by (simp add: bits_def lower_bits_def upper_bits_def upt_32_split)

lemma bit_shl_1: "u < 32 \<Longrightarrow> bit (shl 1 u) i \<longleftrightarrow> i = u"
  by (auto simp: shl_def bit_simps)

lemma and_shl_1: "u < 32 \<Longrightarrow> bm AND shl 1 u = 0 \<longleftrightarrow> \<not> bit bm u"
  by (auto simp: bit_eq_iff [of "bm AND shl 1 u" 0] bit_and_iff bit_shl_1)

lemma lower_bits_cong: "(\<And>i. i < u \<Longrightarrow> bit a i = bit b i) \<Longrightarrow> lower_bits a u = lower_bits b u"
  by (auto simp: lower_bits_def intro!: filter_cong)

lemma upper_bits_cong: "(\<And>i. u < i \<Longrightarrow> bit a i = bit b i) \<Longrightarrow> upper_bits a u = upper_bits b u"
  by (auto simp: upper_bits_def intro!: filter_cong)

lemma bits_or: "u < 32 \<Longrightarrow> bits (bm OR shl 1 u) = lower_bits bm u @ u # upper_bits bm u"
  using lower_bits_cong [of u "bm OR shl 1 u" bm] upper_bits_cong [of u "bm OR shl 1 u" bm]
  by (simp add: bits_split [of u] bit_or_iff bit_shl_1)

lemma bits_xor:
  "u < 32 \<Longrightarrow> bit bm u \<Longrightarrow> bits (bm XOR shl 1 u) = lower_bits bm u @ upper_bits bm u"
  using lower_bits_cong [of u "bm XOR shl 1 u" bm] upper_bits_cong [of u "bm XOR shl 1 u" bm]
  by (simp add: bits_split [of u] bit_xor_iff bit_shl_1)

lemma slot_lower_bits: "u < 32 \<Longrightarrow> slot bm (shl 1 u) = length (lower_bits bm u)"
proof -
  assume u: "u < 32"
  have "bm AND (shl 1 u - 1) = take_bit u bm"
    using u by (simp add: shl_def take_bit_eq_mask mask_eq_exp_minus_1 push_bit_eq_mult)
  then have "slot bm (shl 1 u) = card {i. i < 32 \<and> bit (take_bit u bm) i}"
    by (simp add: slot_def ut_popcount popcount_card)
  also have "{i. i < 32 \<and> bit (take_bit u bm) i} = set (lower_bits bm u)"
    using u by (auto simp: lower_bits_def bit_take_bit_iff)
  also have "card \<dots> = length (lower_bits bm u)"
    by (rule distinct_card) (simp add: lower_bits_def)
  finally show ?thesis .
qed

lemma idx_less [simp]: "idx n h < 32"
proof -
  have "unat (x AND (31 :: int32)) < 32" for x :: int32
    using nat_and_le2 [of "unat x" 31] by (simp add: unat_and)
  then show ?thesis by (simp add: idx_def)
qed

lemma idx_take_bit: "n < 32 \<Longrightarrow> idx n h = unat (take_bit 5 (drop_bit n h))"
proof -
  assume "n < 32"
  moreover have "(31 :: int32) = mask 5" by (simp add: mask_eq_exp_minus_1)
  ultimately show ?thesis by (simp add: idx_def ushr_def take_bit_eq_mask)
qed

lemma prefix_extend:
  "n < 32 \<Longrightarrow> take_bit n a = take_bit n b \<Longrightarrow> idx n a = idx n b \<Longrightarrow>
   take_bit (n + v_shift) a = take_bit (n + v_shift) (b :: int32)"
proof (rule bit_word_eqI)
  fix i assume n: "n < 32" and t: "take_bit n a = take_bit n b" and x: "idx n a = idx n b" and "i < LENGTH(32)"
  from x n have d: "take_bit 5 (drop_bit n a) = take_bit 5 (drop_bit n b)"
    by (simp add: idx_take_bit word_unat_eq_iff)
  show "bit (take_bit (n + v_shift) a) i = bit (take_bit (n + v_shift) b) i"
  proof (cases "i < n")
    case True
    then show ?thesis using arg_cong [OF t, of "\<lambda>w. bit w i"] by (auto simp: bit_take_bit_iff)
  next
    case False
    then show ?thesis using arg_cong [OF d, of "\<lambda>w. bit w (i - n)"]
      by (auto simp: bit_take_bit_iff bit_drop_bit_eq v_shift_def)
  qed
qed

section \<open>Entries and the invariant\<close>

fun entries :: "'v node \<Rightarrow> 'v entry list" where
  "entries (He bm ns) = concat (map entries ns)"
| "entries (We c ns) = concat (map (case_option [] entries) ns)"
| "entries (Je h es) = es"
| "entries (Ye h e) = [e]"

abbreviation keys :: "'v node \<Rightarrow> key set" where
  "keys nd \<equiv> fst ` set (entries nd)"

definition at_idx :: "nat \<Rightarrow> nat \<Rightarrow> 'v node \<Rightarrow> bool" where
  "at_idx sh i c \<longleftrightarrow> (\<forall>k\<in>keys c. idx sh (hash_of k) = i)"

fun wf :: "nat \<Rightarrow> 'v node \<Rightarrow> bool" where
  "wf sh (He bm ns) \<longleftrightarrow> sh < 32 \<and> ns \<noteq> [] \<and> length ns \<le> 16 \<and>
     (\<forall>c\<in>set ns. wf (sh + v_shift) c) \<and> list_all2 (at_idx sh) (bits bm) ns \<and>
     (\<forall>c. ns = [c] \<longrightarrow> \<not> tt c)"
| "wf sh (We n ns) \<longleftrightarrow> sh < 32 \<and> (\<forall>c\<in>set ns. case c of None \<Rightarrow> True | Some x \<Rightarrow> wf (sh + v_shift) x) \<and>
     list_all2 (\<lambda>i c. pred_option (at_idx sh i) c) [0..<32] ns \<and>
     n = length (filter (\<lambda>c. c \<noteq> None) ns) \<and> 8 \<le> n"
| "wf sh (Je h es) \<longleftrightarrow> 2 \<le> length es \<and> distinct (map fst es) \<and> (\<forall>e\<in>set es. hash_of (fst e) = h)"
| "wf sh (Ye h e) \<longleftrightarrow> h = hash_of (fst e)"

definition agree :: "nat \<Rightarrow> int32 \<Rightarrow> 'v node \<Rightarrow> bool" where
  "agree sh h nd \<longleftrightarrow> (\<forall>k\<in>keys nd. take_bit sh (hash_of k) = take_bit sh h)"

lemma wf_leaf: "tt nd \<Longrightarrow> wf sh nd = wf sh' nd"
  by (cases nd) auto

lemma wf_nonempty: "wf sh nd \<Longrightarrow> entries nd \<noteq> []"
proof (induction nd arbitrary: sh)
  case (He bm ns)
  then show ?case by (cases ns) auto
next
  case (We n ns)
  from We.prems have "filter (\<lambda>c. c \<noteq> None) ns \<noteq> []" by auto
  then obtain x where x: "Some x \<in> set ns" by (auto simp: filter_empty_conv)
  then have "wf (sh + v_shift) x" using We.prems by fastforce
  then have "entries x \<noteq> []" using We.IH [OF x] by simp
  with x show ?case by force
qed auto

lemma at_idx_disjoint: "at_idx sh i c \<Longrightarrow> at_idx sh j d \<Longrightarrow> i \<noteq> j \<Longrightarrow> keys c \<inter> keys d = {}"
  unfolding at_idx_def disjoint_iff by metis

lemma list_all2_in_set2: "list_all2 P xs ys \<Longrightarrow> y \<in> set ys \<Longrightarrow> \<exists>x\<in>set xs. P x y"
  by (induction rule: list_all2_induct) auto

lemma distinct_concat_at_idx:
  assumes "list_all2 (\<lambda>i c. at_idx sh i c) js cs" "distinct js" "\<forall>c\<in>set cs. distinct (map fst (entries c))"
  shows "distinct (map fst (concat (map entries cs)))"
  using assms
proof (induction rule: list_all2_induct)
  case (Cons i js c cs)
  have "keys c \<inter> keys d = {}" if d: "d \<in> set cs" for d
  proof -
    from d Cons.hyps obtain j where "j \<in> set js" "at_idx sh j d"
      by (blast dest: list_all2_in_set2)
    with Cons show ?thesis by (intro at_idx_disjoint [of sh i c j d]) auto
  qed
  then have "set (map fst (entries c)) \<inter> set (map fst (concat (map entries cs))) = {}" by force
  with Cons show ?case by simp
qed simp

lemma distinct_concat_at_idx_option:
  assumes "list_all2 (\<lambda>i c. pred_option (at_idx sh i) c) js cs" "distinct js"
    "\<forall>c. Some c\<in>set cs \<longrightarrow> distinct (map fst (entries c))"
  shows "distinct (map fst (concat (map (case_option [] entries) cs)))"
  using assms
proof (induction rule: list_all2_induct)
  case (Cons i js c cs)
  show ?case
  proof (cases c)
    case None
    with Cons show ?thesis by simp
  next
    case (Some x)
    have "keys x \<inter> keys d = {}" if d: "Some d \<in> set cs" for d
    proof -
      from d Cons.hyps obtain j where "j \<in> set js" "at_idx sh j d"
        by (fastforce dest: list_all2_in_set2)
      with Cons Some show ?thesis by (intro at_idx_disjoint [of sh i x j d]) auto
    qed
    then have "set (map fst (entries x)) \<inter> set (map fst (concat (map (case_option [] entries) cs))) = {}"
      by (fastforce split: option.splits)
    with Cons Some show ?thesis by simp
  qed
qed simp

lemma wf_distinct: "wf sh nd \<Longrightarrow> distinct (map fst (entries nd))"
proof (induction nd arbitrary: sh)
  case (He bm ns)
  then show ?case by (auto intro!: distinct_concat_at_idx [of sh "bits bm"] simp: bits_def simp del: map_concat)
next
  case (We n ns)
  then show ?case
    by (auto intro!: distinct_concat_at_idx_option [of sh "[0..<32]"] simp del: map_concat)
qed auto

section \<open>Looking a key up\<close>

lemma He_split_set:
  assumes "list_all2 (at_idx sh) (bits bm) ns" "u < 32" "bit bm u"
  obtains xs d ys where "ns = xs @ d # ys" "length xs = slot bm (shl 1 u)"
    "list_all2 (at_idx sh) (lower_bits bm u) xs" "at_idx sh u d"
    "list_all2 (at_idx sh) (upper_bits bm u) ys"
  using assms
  by (auto simp: bits_split [of u bm] list_all2_append1 list_all2_Cons1 slot_lower_bits dest: list_all2_lengthD)

lemma He_split_clear:
  assumes "list_all2 (at_idx sh) (bits bm) ns" "u < 32" "\<not> bit bm u"
  obtains xs ys where "ns = xs @ ys" "length xs = slot bm (shl 1 u)"
    "list_all2 (at_idx sh) (lower_bits bm u) xs" "list_all2 (at_idx sh) (upper_bits bm u) ys"
  using assms
  by (auto simp: bits_split [of u bm] list_all2_append1 slot_lower_bits dest: list_all2_lengthD)

lemma We_split:
  assumes "list_all2 (\<lambda>i c. pred_option (at_idx sh i) c) [0..<32] ns" "u < 32"
  obtains xs d ys where "ns = xs @ d # ys" "length xs = u"
    "list_all2 (\<lambda>i c. pred_option (at_idx sh i) c) [0..<u] xs" "pred_option (at_idx sh u) d"
    "list_all2 (\<lambda>i c. pred_option (at_idx sh i) c) [Suc u..<32] ys"
  using assms
  by (auto simp: upt_32_split [of u] list_all2_append1 list_all2_Cons1 simp del: upt_Suc dest: list_all2_lengthD)

lemma not_in_other:
  assumes "list_all2 (at_idx sh) js cs" "u \<notin> set js" "idx sh (hash_of k) = u"
  shows "k \<notin> fst ` set (concat (map entries cs))"
proof
  assume "k \<in> fst ` set (concat (map entries cs))"
  then obtain c where "c \<in> set cs" "k \<in> keys c" by auto
  with assms show False by (metis at_idx_def list_all2_in_set2)
qed

lemma not_in_other_option:
  assumes "list_all2 (\<lambda>i c. pred_option (at_idx sh i) c) js cs" "u \<notin> set js" "idx sh (hash_of k) = u"
  shows "k \<notin> fst ` set (concat (map (case_option [] entries) cs))"
proof
  assume "k \<in> fst ` set (concat (map (case_option [] entries) cs))"
  then obtain c where c: "Some c \<in> set cs" "k \<in> keys c" by (auto split: option.splits)
  with assms obtain j where "j \<in> set js" "at_idx sh j c" by (fastforce dest: list_all2_in_set2)
  with assms c show False by (metis at_idx_def)
qed

lemma lower_upper_notin [simp]: "u \<notin> set (lower_bits bm u)" "u \<notin> set (upper_bits bm u)"
  by (auto simp: lower_bits_def upper_bits_def)

lemma entries_get_append [simp]:
  "entries_get (xs @ ys) k r = (if k \<in> fst ` set xs then entries_get xs k r else entries_get ys k r)"
  by (induction xs) auto

lemma entries_get_notin [simp]: "k \<notin> fst ` set xs \<Longrightarrow> entries_get xs k r = r"
  by (induction xs) auto

lemma agree_child:
  assumes "agree sh h (He bm ns)" "sh < 32" "c \<in> set ns" "at_idx sh (idx sh h) c"
  shows "agree (sh + v_shift) h c"
  using assms unfolding agree_def at_idx_def by (force intro!: prefix_extend)

lemma agree_child_option:
  assumes "agree sh h (We n ns)" "sh < 32" "Some c \<in> set ns" "at_idx sh (idx sh h) c"
  shows "agree (sh + v_shift) h c"
  using assms unfolding agree_def at_idx_def by (force intro!: prefix_extend)

lemma node_get_correct:
  "wf sh nd \<Longrightarrow> agree sh (hash_of k) nd \<Longrightarrow>
   node_get nd sh (Some (hash_of k)) k r = Inr (entries_get (entries nd) k r)"
proof (induction nd arbitrary: sh)
  case (He bm ns)
  let ?h = "hash_of k" let ?u = "idx sh ?h"
  from He.prems have sh: "sh < 32" and l: "list_all2 (at_idx sh) (bits bm) ns" by simp_all
  show ?case
  proof (cases "bit bm ?u")
    case True
    from He_split_set [OF l idx_less True] obtain xs d ys where
      s: "ns = xs @ d # ys" "length xs = slot bm (shl 1 ?u)"
      "list_all2 (at_idx sh) (lower_bits bm ?u) xs" "at_idx sh ?u d"
      "list_all2 (at_idx sh) (upper_bits bm ?u) ys" .
    have d: "d \<in> set ns" "wf (sh + v_shift) d" using s He.prems by auto
    have "node_get d (sh + v_shift) (Some ?h) k r = Inr (entries_get (entries d) k r)"
      by (rule He.IH [OF d]) (rule agree_child [OF He.prems(2) sh d(1) s(4)])
    moreover have "arr_get ns (slot bm (shl 1 ?u)) = Some d"
      by (simp add: s(1) nth_append flip: s(2))
    ultimately show ?thesis
      using True not_in_other [OF s(3), of ?u k] not_in_other [OF s(5), of ?u k]
      by (auto simp: with_hash_def and_shl_1 s(1) Let_def)
  next
    case False
    from He_split_clear [OF l idx_less False] obtain xs ys where
      s: "ns = xs @ ys" "list_all2 (at_idx sh) (lower_bits bm ?u) xs"
      "list_all2 (at_idx sh) (upper_bits bm ?u) ys" by blast
    then show ?thesis
      using False not_in_other [OF s(2), of ?u k] not_in_other [OF s(3), of ?u k]
      by (auto simp: with_hash_def and_shl_1 s(1) Let_def)
  qed
next
  case (We n ns)
  let ?h = "hash_of k" let ?u = "idx sh ?h"
  from We.prems have sh: "sh < 32"
    and l: "list_all2 (\<lambda>i c. pred_option (at_idx sh i) c) [0..<32] ns" by simp_all
  from We_split [OF l idx_less] obtain xs d ys where
      s: "ns = xs @ d # ys" "length xs = ?u"
      "list_all2 (\<lambda>i c. pred_option (at_idx sh i) c) [0..<?u] xs" "pred_option (at_idx sh ?u) d"
      "list_all2 (\<lambda>i c. pred_option (at_idx sh i) c) [Suc ?u..<32] ys" .
  have a: "arr_get ns ?u = Some d" by (simp add: s(1) nth_append flip: s(2))
  note out = not_in_other_option [OF s(3), of ?u k] not_in_other_option [OF s(5), of ?u k]
  show ?case
  proof (cases d)
    case None
    then show ?thesis using a out by (auto simp: with_hash_def s(1))
  next
    case (Some c)
    have c: "Some c \<in> set ns" "wf (sh + v_shift) c" using s Some We.prems by auto
    have "node_get c (sh + v_shift) (Some ?h) k r = Inr (entries_get (entries c) k r)"
      using We.IH [OF c(1) _ c(2)] agree_child_option [OF We.prems(2) sh c(1)] s(4) Some by simp
    then show ?thesis using a out Some by (auto simp: with_hash_def s(1))
  qed
next
  case (Ye h e)
  then show ?case by (cases e) auto
qed auto

end
