(* ===== verification/Imm_Trie_Parts.thy ===== *)
theory Imm_Trie_Parts
  imports Imm_Trie
begin

text \<open>
  The steps from which an update of the hash trie is put together: splitting a leaf (\<open>nt\<close>),
  editing an array of entries, and the changes of shape between a packed node and one of 32 slots.
\<close>

section \<open>Updating: the parts\<close>

text \<open>What an update with a value (or its removal) makes of a set of entries.\<close>

definition put :: "key \<Rightarrow> 'v option \<Rightarrow> 'v entry set \<Rightarrow> 'v entry set" where
  "put k i E = {e \<in> E. fst e \<noteq> k} \<union> (case i of None \<Rightarrow> {} | Some x \<Rightarrow> {(k, x)})"

lemma put_absent: "k \<notin> fst ` E \<Longrightarrow> put k (Some x) E = insert (k, x) E"
  by (force simp: put_def)

lemma put_absent_None: "k \<notin> fst ` E \<Longrightarrow> put k None E = E"
  by (force simp: put_def)

lemma put_Un: "k \<notin> fst ` A \<Longrightarrow> put k i (A \<union> B) = A \<union> put k i B"
  by (force simp: put_def)

lemma upt_filter_eq: "filter (\<lambda>i. i = a) [m..<n] = (if m \<le> a \<and> a < n then [a] else [])"
  by (induction n) auto

lemma bits_two: "a < 32 \<Longrightarrow> u < 32 \<Longrightarrow> a \<noteq> u \<Longrightarrow> bits (shl 1 a OR shl 1 u) = (if a < u then [a, u] else [u, a])"
  by (auto simp: bits_or lower_bits_def upper_bits_def bit_shl_1 upt_filter_eq cong: filter_cong)

lemma bits_one: "u < 32 \<Longrightarrow> bits (shl 1 u) = [u]"
  by (simp add: bits_def bit_shl_1 upt_filter_eq cong: filter_cong)

lemma nt_correct:
  assumes "tt e" "wf n e" "\<forall>k\<in>keys e. hash_of k = kh" "hash_of (fst ent) = r" "fst ent \<notin> keys e"
    "kh = r \<Longrightarrow> \<exists>en. e = Ye kh en" "kh \<noteq> r \<Longrightarrow> n < 32 \<and> take_bit n kh = take_bit n r"
  shows "wf n (nt e kh n r ent) \<and> set (entries (nt e kh n r ent)) = insert ent (set (entries e)) \<and>
         (kh \<noteq> r \<longrightarrow> \<not> tt (nt e kh n r ent))"
  using assms
proof (induction e kh n r ent rule: nt.induct)
  case (1 e kh n r ent)
  show ?case
  proof (cases "kh = r")
    case True
    with 1 obtain en where "e = Ye kh en" by blast
    with 1 True show ?thesis by (auto simp: nt.simps)
  next
    case ne: False
    with 1 have n: "n < 32" "take_bit n kh = take_bit n r" by auto
    let ?a = "idx n kh" let ?u = "idx n r"
    show ?thesis
    proof (cases "?a = ?u")
      case True
      from prefix_extend [OF n True] have t: "take_bit (n + v_shift) kh = take_bit (n + v_shift) r" .
      have lt: "n + v_shift < 32"
      proof (rule ccontr)
        assume "\<not> n + v_shift < 32"
        with t have "kh = r" by (simp add: take_bit_word_eq_self)
        with ne show False ..
      qed
      have w: "wf (n + v_shift) e" using 1(2,3) wf_leaf by blast
      from 1(7) ne have IH: "wf (n + v_shift) (nt e kh (n + v_shift) r ent)"
        "set (entries (nt e kh (n + v_shift) r ent)) = insert ent (set (entries e))"
        "\<not> tt (nt e kh (n + v_shift) r ent)"
        using 1(1) [OF ne refl refl True 1(2) w 1(4,5,6)] t lt by auto
      then have "at_idx n ?u (nt e kh (n + v_shift) r ent)" using 1(4,5) True by (auto simp: at_idx_def)
      then show ?thesis using IH n ne True
        by (simp add: nt.simps [of e kh n r ent] Let_def bits_one)
    next
      case False
      have "wf (n + v_shift) e" using 1(2,3) wf_leaf by blast
      moreover have "at_idx n ?a e" "at_idx n ?u (Ye r ent)" using 1(4,5) by (auto simp: at_idx_def)
      ultimately show ?thesis using 1(5) n ne False
        by (auto simp: nt.simps [of e kh n r ent] Let_def bits_two)
    qed
  qed
qed

lemma entry_index_less: "entry_index k es < length es \<longleftrightarrow> k \<in> fst ` set es"
  by (induction es) auto

lemma entry_index_nth: "k \<in> fst ` set es \<Longrightarrow> fst (es ! entry_index k es) = k"
  by (induction es) auto

lemma entry_index_split:
  assumes "k \<in> fst ` set es"
  obtains xs x ys where "es = xs @ (k, x) # ys" "entry_index k es = length xs" "k \<notin> fst ` set xs"
  using assms
proof (induction es arbitrary: thesis)
  case (Cons e es)
  show ?case
  proof (cases "fst e = k")
    case True
    then show ?thesis using Cons.prems(1) [of "[]" "snd e" es] by (auto simp: prod_eq_iff)
  next
    case False
    with Cons.prems(2) have "k \<in> fst ` set es" by auto
    then obtain xs x ys where "es = xs @ (k, x) # ys" "entry_index k es = length xs" "k \<notin> fst ` set xs"
      using Cons.IH by blast
    with False show ?thesis using Cons.prems(1) [of "e # xs" x ys] by auto
  qed
qed simp

lemma edit_entries_correct:
  assumes d: "distinct (map fst es)" and c: "\<not> (i = None \<and> k \<notin> fst ` set es)"
  shows "set (edit_entries es (entry_index k es) k i) = put k i (set es)"
    "distinct (map fst (edit_entries es (entry_index k es) k i))"
    "length (edit_entries es (entry_index k es) k i) =
       (if i = None then length es - 1 else if k \<in> fst ` set es then length es else length es + 1)"
proof -
  let ?r = "edit_entries es (entry_index k es) k i"
  have "set ?r = put k i (set es) \<and> distinct (map fst ?r) \<and> length ?r =
       (if i = None then length es - 1 else if k \<in> fst ` set es then length es else length es + 1)"
  proof (cases "k \<in> fst ` set es")
    case True
    then obtain xs x ys where s: "es = xs @ (k, x) # ys" "entry_index k es = length xs"
      by (rule entry_index_split)
    have out: "k \<notin> fst ` set xs" "k \<notin> fst ` set ys" using d s by auto
    show ?thesis
    proof (cases i)
      case None
      show ?thesis
      proof (cases ys rule: rev_cases)
        case Nil
        then show ?thesis using None s out d by (force simp: edit_entries_def put_def)
      next
        case (snoc zs z)
        then have "?r = xs @ z # zs"
          using None s by (simp add: edit_entries_def butlast_append list_update_append)
        then show ?thesis using None s out d snoc by (force simp: put_def)
      qed
    next
      case (Some y)
      then have "?r = xs @ (k, y) # ys" using s by (simp add: edit_entries_def list_update_append)
      then show ?thesis using Some s out d by (force simp: put_def)
    qed
  next
    case False
    with c obtain y where "i = Some y" by (cases i) auto
    with False d show ?thesis by (auto simp: edit_entries_def entry_index_less put_absent)
  qed
  then show "set ?r = put k i (set es)" "distinct (map fst ?r)" "length ?r =
       (if i = None then length es - 1 else if k \<in> fst ` set es then length es else length es + 1)"
    by blast+
qed

text \<open>Expanding: slot \<open>q\<close> of the expanded array holds the child of bit \<open>q\<close>.\<close>

lemma bit_ushr_1: "bit (ushr n 1) q = bit n (Suc q)" "bit (ushr n (Suc 0)) q = bit n (Suc q)"
  by (simp_all add: ushr_def bit_drop_bit_eq)

lemma ushr_1_induct [case_names step]:
  assumes "\<And>n. (n \<noteq> 0 \<Longrightarrow> P (ushr n 1)) \<Longrightarrow> P (n :: int32)"
  shows "P n"
proof (induction "unat n" arbitrary: n rule: less_induct)
  case less
  show ?case
  proof (rule assms)
    assume "n \<noteq> 0"
    then show "P (ushr n 1)" by (intro less) (simp add: ushr_def unat_drop word_unat_eq_iff)
  qed
qed

definition bits_from :: "int32 \<Rightarrow> nat \<Rightarrow> nat list" where
  "bits_from n s = map (\<lambda>q. q + s) (bits n)"

lemma bits_from_step:
  "n \<noteq> 0 \<Longrightarrow> bits_from n s = (if bit n 0 then [s] else []) @ bits_from (ushr n 1) (Suc s)"
proof -
  have "[0..<32] = 0 # map Suc [0..<31]" by (simp add: map_Suc_upt upt_conv_Cons)
  moreover have "bit n \<circ> Suc = bit (ushr n 1)" by (simp add: fun_eq_iff bit_ushr_1)
  ultimately have "bits n = (if bit n 0 then [0] else []) @ map Suc (filter (bit (ushr n 1)) [0..<31])"
    by (simp add: bits_def filter_map)
  moreover have "filter (bit (ushr n 1)) [0..<31] = bits (ushr n 1)"
  proof -
    have "\<not> bit (ushr n 1) 31" unfolding bit_ushr_1 using bit_imp_le_length [of n 32] by auto
    then show ?thesis by (simp add: bits_def upt_Suc_append [of 0 31, simplified])
  qed
  ultimately show ?thesis by (auto simp: bits_from_def)
qed

lemma bits_0 [simp]: "bits 0 = []"
  by (simp add: bits_def)

lemma expand_bits_correct:
  assumes "list_all2 P (bits_from n s) ts" "i + length ts = length t" "drop i t = ts"
    "\<forall>q. bit n q \<longrightarrow> q + s < 32"
  shows "list_all2 (\<lambda>q. pred_option (P q)) [s..<s + length (fst (expand_bits n t i))] (fst (expand_bits n t i)) \<and>
    snd (expand_bits n t i) = length t \<and>
    concat (map (case_option [] (\<lambda>x. [x])) (fst (expand_bits n t i))) = ts \<and>
    (n \<noteq> 0 \<longrightarrow> s + length (fst (expand_bits n t i)) \<le> 32)"
  using assms
proof (induction n arbitrary: s ts i rule: ushr_1_induct)
  case (step n)
  let ?e = "expand_bits (ushr n 1) t"
  show ?case
  proof (cases "n = 0")
    case True
    with step.prems show ?thesis by (simp add: expand_bits.simps [of 0] bits_from_def)
  next
    case False
    have q: "\<forall>q. bit (ushr n 1) q \<longrightarrow> q + Suc s < 32" using step.prems(4) by (fastforce simp: bit_ushr_1)
    have b0: "1 AND n = 1 \<longleftrightarrow> bit n 0"
      by (metis and.commute and_one_eq bit_0 odd_iff_mod_2_eq_one)
    have "s < 32"
    proof (rule ccontr)
      assume "\<not> s < 32"
      then have "\<not> bit n q" for q using step.prems(4) by (meson add_lessD1 less_trans not_less trans_le_add2)
      then show False using False by (simp add: bit_eq_iff)
    qed
    show ?thesis
    proof (cases "bit n 0")
      case True
      with step.prems(1) False obtain x ts' where ts: "ts = x # ts'" "P s x" "list_all2 P (bits_from (ushr n 1) (Suc s)) ts'"
        by (auto simp: bits_from_step list_all2_Cons1)
      have d: "drop (Suc i) t = ts'" and x: "arr_get t i = Some x" and l: "Suc i + length ts' = length t"
        using step.prems(2,3) ts(1) by (auto simp: arr_get_def nth_via_drop drop_Suc tl_drop [symmetric])
      obtain a j where e: "expand_bits (ushr n 1) t (Suc i) = (a, j)" by fastforce
      have "expand_bits n t i = (Some x # a, j)"
        using False True b0 x e by (simp add: expand_bits.simps [of n])
      with e step.IH [OF False ts(3) l d q] \<open>s < 32\<close> ts show ?thesis
        by (cases "ushr n 1 = 0") (auto simp: expand_bits.simps [of 0] upt_conv_Cons simp del: upt_Suc One_nat_def)
    next
      case nb: False
      with step.prems(1) False have ts: "list_all2 P (bits_from (ushr n 1) (Suc s)) ts"
        by (simp add: bits_from_step)
      obtain a j where e: "expand_bits (ushr n 1) t i = (a, j)" by fastforce
      have "expand_bits n t i = (None # a, j)"
        using False nb b0 e by (simp add: expand_bits.simps [of n] del: One_nat_def)
      with e step.IH [OF False ts step.prems(2,3) q] \<open>s < 32\<close> show ?thesis
        by (cases "ushr n 1 = 0") (auto simp: expand_bits.simps [of 0] upt_conv_Cons simp del: upt_Suc One_nat_def)
    qed
  qed
qed

abbreviation somes :: "'a option list \<Rightarrow> 'a list" where
  "somes cs \<equiv> concat (map (case_option [] (\<lambda>x. [x])) cs)"

lemma length_somes: "length (somes cs) = length (filter (\<lambda>c. c \<noteq> None) cs)"
  by (induction cs) (auto split: option.split)

lemma set_somes: "set (somes cs) = {x. Some x \<in> set cs}"
  by (induction cs) (auto split: option.splits)

lemma entries_somes: "concat (map (case_option [] entries) cs) = concat (map entries (somes cs))"
  by (induction cs) (auto split: option.splits)

lemma somes_replicate_None [simp]: "somes (replicate n None) = []"
  by (induction n) auto

lemma expandNodes_correct:
  assumes w: "wf sh (He bm ns)" and u: "u < 32" "\<not> bit bm u" and l: "length ns = 16"
    and h: "wf (sh + v_shift) h" "at_idx sh u h"
  shows "wf sh (expandNodes ns bm u h) \<and>
    set (entries (expandNodes ns bm u h)) = set (entries (He bm ns)) \<union> set (entries h)"
proof -
  obtain a j where e: "expand_bits bm ns 0 = (a, j)" by fastforce
  have "list_all2 (at_idx sh) (bits_from bm 0) ns" using w by (simp add: bits_from_def)
  from expand_bits_correct [OF this, of 0] w have
    a: "list_all2 (\<lambda>q. pred_option (at_idx sh q)) [0..<length a] a" "j = length ns" "somes a = ns"
      "length a \<le> 32"
    using bit_imp_le_length [of bm] l by (auto simp: e)
  define b where "b = a @ replicate (32 - length a) None"
  have b: "length b = 32" "somes b = ns" using a(3,4) by (simp_all add: b_def)
  have pb: "list_all2 (\<lambda>q. pred_option (at_idx sh q)) [0..<32] b"
  proof -
    have "[0..<32] = [0..<length a] @ [length a..<32]"
      using a(4) by (metis le_add_diff_inverse upt_add_eq_append zero_le)
    then show ?thesis unfolding b_def
      by (simp only:) (rule list_all2_appendI [OF a(1)], simp add: list_all2_conv_all_nth)
  qed
  have r: "expandNodes ns bm u h = We (length ns + 1) (b[u := Some h])"
    by (simp add: expandNodes_def e a(2) b_def m_size_def)
  obtain xs d ys where s: "b = xs @ d # ys" "length xs = u" and d: "pred_option (at_idx sh u) d"
    and xy: "list_all2 (\<lambda>q. pred_option (at_idx sh q)) [0..<u] xs"
      "list_all2 (\<lambda>q. pred_option (at_idx sh q)) [Suc u..<32] ys"
    by (rule We_split [OF pb u(1)])
  have "d = None"
  proof (cases d)
    case (Some x)
    then have "x \<in> set ns" using b(2) s by auto
    moreover from this obtain q where "q \<in> set (bits bm)" "at_idx sh q x"
      using w list_all2_in_set2 [of "at_idx sh" "bits bm" ns x] by auto
    ultimately have "q = u" using d Some w wf_nonempty [of _ x] by (fastforce simp: at_idx_def neq_Nil_conv)
    then show ?thesis using \<open>q \<in> _\<close> u by (simp add: bits_def)
  qed simp
  then have ns: "ns = somes xs @ somes ys" using b(2) s by simp
  have bu: "b[u := Some h] = xs @ Some h # ys" using s by (simp add: list_update_append)
  have "list_all2 (\<lambda>q. pred_option (at_idx sh q)) [0..<32] (xs @ Some h # ys)"
    unfolding upt_32_split [OF u(1)] using xy h by (intro list_all2_appendI) simp_all
  moreover have "\<forall>c\<in>set (xs @ Some h # ys). case c of None \<Rightarrow> True | Some x \<Rightarrow> wf (sh + v_shift) x"
    using w h ns by (auto simp: set_somes split: option.split)
  moreover have "length (filter (\<lambda>c. c \<noteq> None) (xs @ Some h # ys)) = length ns + 1"
    using ns by (simp add: length_somes)
  ultimately show ?thesis using w l ns unfolding r bu by (auto simp: entries_somes)
qed

lemma pack_bits_correct:
  fixes t :: "'a option list"
  assumes "list_all2 (\<lambda>q. pred_option (P q)) [u..<u + length t] t" "u + length t \<le> 32"
    "pack_bits t u r = (bm, a)"
  shows "(\<forall>q. bit bm q \<longrightarrow> u \<le> q \<and> q < u + length t) \<and>
    list_all2 P (filter (bit bm) [u..<u + length t]) a \<and>
    a = somes (if u \<le> r \<and> r < u + length t then t[r - u := None] else t)"
  using assms
proof (induction t arbitrary: u bm a rule: list.induct)
  case (Cons c t)
  obtain bm' a' where r: "pack_bits t (Suc u) r = (bm', a')" by fastforce
  have l: "list_all2 (\<lambda>q. pred_option (P q)) [Suc u..<Suc u + length t] t" and c0: "pred_option (P u) c"
    using Cons.prems(1) by (auto simp: upt_conv_Cons simp del: upt_Suc)
  have le: "Suc u + length t \<le> 32" using Cons.prems(2) by simp
  have IH: "\<forall>q. bit bm' q \<longrightarrow> Suc u \<le> q \<and> q < Suc u + length t"
    "list_all2 P (filter (bit bm') [Suc u..<Suc u + length t]) a'"
    "a' = somes (if Suc u \<le> r \<and> r < Suc u + length t then t[r - Suc u := None] else t)"
    using Cons.IH [OF l le r] by blast+
  have u: "u < 32" "\<not> bit bm' u" using Cons.prems(2) IH(1) by auto
  show ?case
  proof (cases "c = None \<or> u = r")
    case True
    then have "bm = bm'" "a = a'" using Cons.prems(3) r by (auto split: option.splits)
    moreover have "somes (if u \<le> r \<and> r < u + length (c # t) then (c # t)[r - u := None] else c # t) = a'"
      using True IH(3) by (cases "r - u") (auto simp: le_Suc_eq Suc_diff_Suc diff_Suc split: option.split nat.split)
    ultimately show ?thesis using IH u by (auto simp: upt_conv_Cons simp del: upt_Suc)
  next
    case False
    then obtain x where c: "c = Some x" by auto
    then have bm: "bm = shl 1 u OR bm'" "a = x # a'" using Cons.prems(3) r False by auto
    then have "bit bm q \<longleftrightarrow> q = u \<or> bit bm' q" for q using u by (simp add: bit_or_iff bit_shl_1)
    moreover have "somes (if u \<le> r \<and> r < u + length (c # t) then (c # t)[r - u := None] else c # t) = x # a'"
      using False c IH(3) by (cases "r - u") (auto simp: diff_Suc split: option.split nat.split)
    moreover have "filter (\<lambda>q. q = u \<or> bit bm' q) [Suc u..<Suc u + length t] = filter (bit bm') [Suc u..<Suc u + length t]"
      by (rule filter_cong) auto
    ultimately show ?thesis using IH u c bm c0
      by (auto simp: upt_conv_Cons simp del: upt_Suc)
  qed
qed simp


lemma packNodes_correct:
  assumes w: "wf sh (We n (xs @ d # ys))" and u: "length xs = u" "u < 32"
    and n: "2 \<le> n - 1" "n - 1 < ft_min" "d \<noteq> None"
  shows "wf sh (packNodes (xs @ d # ys) u) \<and>
    set (entries (packNodes (xs @ d # ys) u)) = set (entries (We n (xs @ None # ys)))"
proof -
  let ?t = "xs @ d # ys"
  obtain bm a where r: "pack_bits ?t 0 u = (bm, a)" by fastforce
  have l: "length ?t = 32" using w list_all2_lengthD [of _ "[0..<32]" ?t] by auto
  have "list_all2 (\<lambda>q. pred_option (at_idx sh q)) [0..<0 + length ?t] ?t" using w l by simp
  from pack_bits_correct [OF this _ r] l u
  have p: "list_all2 (at_idx sh) (bits bm) a" "a = somes (xs @ None # ys)"
    by (auto simp: bits_def list_update_append simp del: upt_Suc)
  have "length a = n - 1" using w n(3) p(2) by (auto simp: length_somes)
  then have "2 \<le> length a" "length a \<le> 16" using n by (simp_all add: ft_min_def m_size_def)
  then have "a \<noteq> []" "length a \<le> 16" "\<forall>c. a \<noteq> [c]" by auto
  moreover have "\<forall>c\<in>set a. wf (sh + v_shift) c" using w p(2) by (auto simp: set_somes split: option.splits)
  moreover have "sh < 32" using w by simp
  moreover have "entries (He bm a) = entries (We n (xs @ None # ys))" using p(2) by (simp add: entries_somes)
  ultimately show ?thesis using p(1) by (simp add: packNodes_def r)
qed

end
