(* ===== verification/Persistent_Map.thy ===== *)
theory Persistent_Map
  imports JS_Prelude
begin

text \<open>
  The contract of a persistent map, as the callers of \<open>Map\<close> rely on it: lookup with a default,
  \<open>set\<close>, \<open>remove\<close> and \<open>size\<close>, over an abstraction to a partial function. An operation
  that would change nothing returns the very map it was given.
\<close>

locale persistent_map =
  fixes empty :: 'm
    and get :: "'m \<Rightarrow> 'k \<Rightarrow> 'v option \<Rightarrow> 'v option js"
    and put :: "'m \<Rightarrow> 'k \<Rightarrow> 'v \<Rightarrow> 'm"
    and remove :: "'m \<Rightarrow> 'k \<Rightarrow> 'm"
    and size :: "'m \<Rightarrow> int"
    and invar :: "'m \<Rightarrow> bool"
    and abs :: "'m \<Rightarrow> 'k \<Rightarrow> 'v option"
  assumes invar_empty: "invar empty" and abs_empty: "abs empty = Map.empty"
    and get_abs: "invar m \<Longrightarrow> get m k d = Inr (case abs m k of None \<Rightarrow> d | Some x \<Rightarrow> Some x)"
    and invar_put: "invar m \<Longrightarrow> invar (put m k x)"
    and abs_put: "invar m \<Longrightarrow> abs (put m k x) = (abs m)(k := Some x)"
    and invar_remove: "invar m \<Longrightarrow> invar (remove m k)"
    and abs_remove: "invar m \<Longrightarrow> abs (remove m k) = (abs m)(k := None)"
    and put_unchanged: "invar m \<Longrightarrow> (abs m)(k := Some x) = abs m \<Longrightarrow> put m k x = m"
    and remove_unchanged: "invar m \<Longrightarrow> (abs m)(k := None) = abs m \<Longrightarrow> remove m k = m"
    and size_abs: "invar m \<Longrightarrow> finite (dom (abs m)) \<and> size m = int (card (dom (abs m)))"
begin

lemmas laws = invar_empty abs_empty get_abs invar_put abs_put invar_remove abs_remove

lemma get_put: "invar m \<Longrightarrow> get (put m k x) q d = (if q = k then Inr (Some x) else get m q d)"
  by (simp add: laws)

lemma get_remove: "invar m \<Longrightarrow> get (remove m k) q d = (if q = k then Inr d else get m q d)"
  by (simp add: laws)

lemma size_put: "invar m \<Longrightarrow> size (put m k x) = size m + (if abs m k = None then 1 else 0)"
  using size_abs [of m] size_abs [of "put m k x"]
  by (auto simp: laws card_insert_if domIff insert_absorb)

lemma size_remove: "invar m \<Longrightarrow> size (remove m k) = size m - (if abs m k = None then 0 else 1)"
proof -
  assume m: "invar m"
  have "abs m k \<noteq> None \<Longrightarrow> card (dom (abs m)) > 0" using size_abs [OF m] by (auto simp: card_gt_0_iff)
  then show ?thesis using size_abs [OF m] size_abs [of "remove m k"] m
    by (auto simp: laws card_Diff_singleton_if domIff of_nat_diff Suc_le_eq)
qed

text \<open>A sequence of \<open>set\<close> calls, as \<open>Map\<close>, \<open>merge\<close> and \<open>Set\<close> make: the last one for a key wins.\<close>

lemma invar_fold_put: "invar m \<Longrightarrow> invar (fold (\<lambda>(k, x) m. put m k x) es m)"
  by (induction es arbitrary: m) (auto simp: laws)

lemma abs_fold_put: "invar m \<Longrightarrow> abs (fold (\<lambda>(k, x) m. put m k x) es m) = abs m ++ map_of (rev es)"
  by (induction es arbitrary: m) (auto simp: laws map_add_def fun_eq_iff split: option.splits)

end

end
