(* ===== verification/Imm_Map_Update.thy ===== *)
theory Imm_Map_Update
  imports Imm_Trie_Parts Persistent_Map
begin

text \<open>
  The correctness of an update of the hash trie, of the map over it, and of iteration.
\<close>

section \<open>Updating a node\<close>

text \<open>What an update of a node promises.\<close>

definition upd_ok :: "nat \<Rightarrow> 'v node \<Rightarrow> key \<Rightarrow> 'v option \<Rightarrow> 'v upd_result \<Rightarrow> bool" where
  "upd_ok sh nd k i res \<longleftrightarrow>
     (case res of (nd1, ch, al) \<Rightarrow>
       (case nd1 of None \<Rightarrow> put k i (set (entries nd)) = {} \<and> tt nd
        | Some x \<Rightarrow> wf sh x \<and> set (entries x) = put k i (set (entries nd))) \<and>
       (ch \<longleftrightarrow> (k \<in> keys nd) \<noteq> (i \<noteq> None)) \<and> (al \<longleftrightarrow> put k i (set (entries nd)) \<noteq> set (entries nd)) \<and>
       (\<not> al \<longrightarrow> nd1 = Some nd))"

lemma put_same: "distinct (map fst es) \<Longrightarrow> (k, x) \<in> set es \<Longrightarrow> put k (Some x) (set es) = set es"
  by (force simp: put_def dest: eq_key_imp_eq_value)

lemma put_unchanged:
  assumes "distinct (map fst es)"
  shows "put k i (set es) = set es \<longleftrightarrow> (if k \<in> fst ` set es then i = Some (snd (es ! entry_index k es)) else i = None)"
proof (cases "k \<in> fst ` set es")
  case True
  then have m: "(k, snd (es ! entry_index k es)) \<in> set es"
    by (metis entry_index_less entry_index_nth nth_mem prod.collapse)
  show ?thesis
  proof (cases i)
    case None
    with m show ?thesis by (auto simp: put_def)
  next
    case (Some x)
    have "(k, x) \<in> set es \<longleftrightarrow> x = snd (es ! entry_index k es)"
      using m assms by (auto dest: eq_key_imp_eq_value)
    moreover have "put k i (set es) = set es \<longleftrightarrow> (k, x) \<in> set es"
      using Some assms put_same [of es k x] by (auto simp: put_def)
    ultimately show ?thesis using Some True by simp
  qed
qed (cases i; force simp: put_def)

lemma agree_hash_less:
  assumes "agree sh (hash_of k) nd" "k' \<in> keys nd" "hash_of k' \<noteq> hash_of k"
  shows "sh < 32 \<and> take_bit sh (hash_of k') = take_bit sh (hash_of k)"
proof -
  have "32 \<le> sh \<Longrightarrow> take_bit sh w = w" for w :: int32
    by (rule bit_word_eqI) (simp add: bit_take_bit_iff)
  then show ?thesis using assms by (force simp: agree_def not_less [symmetric])
qed

lemma put_absent_neq: "k \<notin> fst ` E \<Longrightarrow> put k (Some x) E \<noteq> E"
  by (force simp: put_def)

lemma put_middle: "k \<notin> fst ` A \<Longrightarrow> k \<notin> fst ` B \<Longrightarrow> put k i (A \<union> (C \<union> B)) = A \<union> (B \<union> put k i C)"
  by (force simp: put_def)

lemma put_middle_eq:
  assumes "k \<notin> fst ` A" "k \<notin> fst ` B"
  shows "put k i (A \<union> (C \<union> B)) = A \<union> (C \<union> B) \<longleftrightarrow> put k i C = C"
proof
  assume eq: "put k i (A \<union> (C \<union> B)) = A \<union> (C \<union> B)"
  have "e \<in> put k i C \<longleftrightarrow> e \<in> C" for e
  proof (cases "fst e = k")
    case True
    then have "e \<notin> A \<union> B" using assms by force
    then show ?thesis using eq unfolding put_middle [OF assms] by blast
  qed (auto simp: put_def split: option.split)
  then show "put k i C = C" by blast
qed (use put_middle [OF assms] in auto)

lemma upd_Ye_ok:
  assumes "wf sh (Ye kh e)" "agree sh (hash_of k) (Ye kh e)"
  shows "upd_ok sh (Ye kh e) k i (upd (Ye kh e) sh n k i)"
proof (cases "k = fst e")
  case True
  then show ?thesis using assms
    by (cases i) (auto simp: upd_ok_def put_def prod_eq_iff split: option.splits)
next
  case False
  show ?thesis
  proof (cases i)
    case None
    with False assms show ?thesis by (auto simp: upd_ok_def put_def)
  next
    case (Some x)
    have "kh \<noteq> hash_of k \<Longrightarrow> sh < 32 \<and> take_bit sh kh = take_bit sh (hash_of k)"
      using assms agree_hash_less [of sh k "Ye kh e" "fst e"] by auto
    then have "wf sh (nt (Ye kh e) kh sh (hash_of k) (k, x)) \<and>
      set (entries (nt (Ye kh e) kh sh (hash_of k) (k, x))) = insert (k, x) {e} \<and>
      (kh \<noteq> hash_of k \<longrightarrow> \<not> tt (nt (Ye kh e) kh sh (hash_of k) (k, x)))"
      using nt_correct [of "Ye kh e" sh kh "(k, x)" "hash_of k"] assms False by auto
    then show ?thesis using Some False by (auto simp: upd_ok_def put_def)
  qed
qed

lemma upd_Je_ok:
  assumes "wf sh (Je kh s)" "agree sh (hash_of k) (Je kh s)"
  shows "upd_ok sh (Je kh s) k i (upd (Je kh s) sh (Some (hash_of k)) k i)"
proof (cases "hash_of k = kh")
  case False
  then have out: "k \<notin> fst ` set s" using assms by auto
  show ?thesis
  proof (cases i)
    case None
    with False assms out show ?thesis by (auto simp: upd_ok_def put_absent_None with_hash_def)
  next
    case (Some x)
    have "sh < 32 \<and> take_bit sh kh = take_bit sh (hash_of k)"
      using assms False agree_hash_less [of sh k "Je kh s" "fst (hd s)"] by (cases s) auto
    then have "wf sh (nt (Je kh s) kh sh (hash_of k) (k, x)) \<and>
      set (entries (nt (Je kh s) kh sh (hash_of k) (k, x))) = insert (k, x) (set s)"
      using nt_correct [of "Je kh s" sh kh "(k, x)" "hash_of k"] assms False out by auto
    moreover have "insert (k, x) (set s) \<noteq> set s" using out by force
    ultimately show ?thesis using Some False out by (auto simp: upd_ok_def put_absent with_hash_def)
  qed
next
  case True
  let ?l = "entry_index k s"
  show ?thesis
  proof (cases "if k \<in> fst ` set s then i = Some (snd (s ! ?l)) else i = None")
    case same: True
    with assms have "put k i (set s) = set s" by (simp add: put_unchanged)
    with same True assms show ?thesis
      by (auto simp: upd_ok_def with_hash_def entry_index_less split: if_splits)
  next
    case new: False
    then have c: "\<not> (i = None \<and> k \<notin> fst ` set s)" by auto
    have d: "distinct (map fst s)" and ne: "put k i (set s) \<noteq> set s"
      using assms new by (simp_all add: put_unchanged)
    show ?thesis
    proof (cases "i = None \<and> length s = 2")
      case two: True
      then obtain a b where s: "s = [a, b]" by (auto simp: length_Suc_conv numeral_2_eq_2)
      with two c True new assms show ?thesis
        by (auto simp: upd_ok_def put_def with_hash_def)
    next
      case more: False
      note e = edit_entries_correct [OF d c]
      have "2 \<le> length (edit_entries s ?l k i)" using e(3) more assms by auto
      moreover have "\<forall>en\<in>set (edit_entries s ?l k i). hash_of (fst en) = kh"
        using assms True unfolding e(1) by (auto simp: put_def split: option.splits)
      moreover have "upd (Je kh s) sh (Some (hash_of k)) k i =
          (Some (Je kh (edit_entries s ?l k i)), i = None \<or> k \<notin> fst ` set s, True)"
        using new more True by (auto simp: with_hash_def entry_index_less Let_def)
      moreover have "(i = None \<or> k \<notin> fst ` set s) \<longleftrightarrow> (k \<in> fst ` set s) \<noteq> (i \<noteq> None)"
        using c by (cases "i = None"; cases "k \<in> fst ` set s") simp_all
      ultimately show ?thesis using e(1,2) ne by (simp add: upd_ok_def)
    qed
  qed
qed

lemma list_all2_at_idx_update:
  "list_all2 (at_idx sh) (lower_bits bm u) xs \<Longrightarrow> list_all2 (at_idx sh) (upper_bits bm u) ys \<Longrightarrow> at_idx sh u d \<Longrightarrow>
   list_all2 (at_idx sh) (lower_bits bm u @ u # upper_bits bm u) (xs @ d # ys)"
  by (intro list_all2_appendI) auto

lemma at_idx_put:
  "set (entries x) = put k i E \<Longrightarrow> (\<forall>k\<in>fst ` E. idx sh (hash_of k) = u) \<Longrightarrow> idx sh (hash_of k) = u \<Longrightarrow> at_idx sh u x"
  by (auto simp: at_idx_def put_def split: option.splits)

text \<open>A packed node whose bit \<open>u\<close> is set: the child is replaced, or taken out.\<close>

lemma He_finish_set:
  assumes w: "wf sh (He bm (xs @ d # ys))" and u: "u < 32" "bit bm u" "idx sh (hash_of k) = u"
    and xs: "length xs = slot bm (shl 1 u)" "list_all2 (at_idx sh) (lower_bits bm u) xs"
    and ys: "list_all2 (at_idx sh) (upper_bits bm u) ys" and d: "at_idx sh u d"
    and h: "case h of None \<Rightarrow> put k i (set (entries d)) = {} \<and> tt d
            | Some x \<Rightarrow> wf (sh + v_shift) x \<and> set (entries x) = put k i (set (entries d))"
  shows "\<exists>nd. He_finish bm (xs @ d # ys) (shl 1 u) u (length xs) True h = Some nd \<and> wf sh nd \<and>
    set (entries nd) = put k i (set (entries (He bm (xs @ d # ys))))"
proof -
  have out: "k \<notin> fst ` set (concat (map entries xs))" "k \<notin> fst ` set (concat (map entries ys))"
    using not_in_other [OF xs(2) _ u(3)] not_in_other [OF ys _ u(3)] by simp_all
  have put: "put k i (set (entries (He bm (xs @ d # ys)))) =
      set (concat (map entries xs)) \<union> set (concat (map entries ys)) \<union> put k i (set (entries d))"
    using put_middle [OF out] by (simp add: Un_assoc)
  show ?thesis
  proof (cases h)
    case (Some x)
    then have x: "wf (sh + v_shift) x" "set (entries x) = put k i (set (entries d))" using h by auto
    then have "at_idx sh u x" using d u(3) by (intro at_idx_put [OF x(2)]) (auto simp: at_idx_def)
    then have l: "list_all2 (at_idx sh) (bits bm) (xs @ x # ys)"
      using list_all2_at_idx_update [OF xs(2) ys] u by (simp add: bits_split)
    show ?thesis
    proof (cases "length (xs @ d # ys) = 1 \<and> tt x")
      case True
      then show ?thesis using Some put x wf_leaf [of x sh "sh + v_shift"] by (auto simp: He_finish_def)
    next
      case False
      then have "He_finish bm (xs @ d # ys) (shl 1 u) u (length xs) True h = Some (He bm (xs @ x # ys))"
        using Some by (auto simp: He_finish_def)
      moreover have "\<forall>c. xs @ x # ys = [c] \<longrightarrow> \<not> tt c" using False by (auto simp: append_eq_Cons_conv)
      ultimately show ?thesis using w x l put by auto
    qed
  next
    case None
    then have h: "put k i (set (entries d)) = {}" "tt d" using h by auto
    then have ne: "xs @ ys \<noteq> []" using w by auto
    have so: "spliceOut (xs @ d # ys) (length xs) = xs @ ys" by (simp add: spliceOut_def)
    have l: "list_all2 (at_idx sh) (bits (bm XOR shl 1 u)) (xs @ ys)"
      using xs(2) ys u by (simp add: bits_xor list_all2_appendI)
    show ?thesis
    proof (cases "\<exists>c. xs @ ys = [c] \<and> tt c")
      case True
      then obtain c where c: "xs @ ys = [c]" "tt c" by auto
      then have "arr_get (xs @ d # ys) (1 XOR length xs) = Some c \<and> length (xs @ d # ys) = 2"
        by (cases xs) auto
      moreover have "wf sh c" using c w wf_leaf [of c sh "sh + v_shift"] by (cases xs) auto
      moreover have "set (entries c) = set (concat (map entries xs)) \<union> set (concat (map entries ys))"
        using arg_cong [OF c(1), of "\<lambda>l. set (concat (map entries l))"] by simp
      ultimately show ?thesis using None c put h(1) by (simp add: He_finish_def)
    next
      case False
      have "He_finish bm (xs @ d # ys) (shl 1 u) u (length xs) True h = Some (He (bm XOR shl 1 u) (xs @ ys))"
      proof (cases "length (xs @ d # ys) = 2")
        case True
        then obtain c where c: "xs @ ys = [c]" by (cases xs) (auto simp: length_Suc_conv)
        then have "arr_get (xs @ d # ys) (1 XOR length xs) = Some c" by (cases xs) auto
        with False c None so show ?thesis by (auto simp: He_finish_def)
      next
        case False
        then show ?thesis using None so by (auto simp: He_finish_def split: option.split)
      qed
      moreover have "wf sh (He (bm XOR shl 1 u) (xs @ ys))" using w l ne False by auto
      ultimately show ?thesis using put h(1) by auto
    qed
  qed
qed

text \<open>A packed node whose bit \<open>u\<close> is clear: a leaf is put in.\<close>

lemma He_finish_clear:
  assumes w: "wf sh (He bm (xs @ ys))" and u: "u < 32" "\<not> bit bm u" "idx sh (hash_of k) = u"
    and xs: "length xs = slot bm (shl 1 u)" "list_all2 (at_idx sh) (lower_bits bm u) xs"
    and ys: "list_all2 (at_idx sh) (upper_bits bm u) ys"
  shows "\<exists>nd. He_finish bm (xs @ ys) (shl 1 u) u (length xs) False (Some (Ye (hash_of k) (k, x))) = Some nd \<and>
    wf sh nd \<and> set (entries nd) = put k (Some x) (set (entries (He bm (xs @ ys)))) \<and>
    k \<notin> keys (He bm (xs @ ys))"
proof -
  let ?h = "Ye (hash_of k) (k, x)"
  have out: "k \<notin> fst ` set (concat (map entries xs))" "k \<notin> fst ` set (concat (map entries ys))"
    using not_in_other [OF xs(2) _ u(3)] not_in_other [OF ys _ u(3)] by simp_all
  then have out': "k \<notin> keys (He bm (xs @ ys))" by auto
  have h: "wf (sh + v_shift) ?h" "at_idx sh u ?h" using u(3) by (auto simp: at_idx_def)
  have put: "put k (Some x) (set (entries (He bm (xs @ ys)))) = set (entries (He bm (xs @ ys))) \<union> set (entries ?h)"
    using put_absent [OF out'] by simp
  show ?thesis
  proof (cases "length (xs @ ys) \<ge> ct_max")
    case True
    then have "length (xs @ ys) = 16" using w by (simp add: ct_max_def m_size_def)
    with True expandNodes_correct [OF w u(1,2) _ h] put out' show ?thesis
      by (simp add: He_finish_def del: entries.simps wf.simps length_append)
  next
    case False
    then have "He_finish bm (xs @ ys) (shl 1 u) u (length xs) False (Some ?h) = Some (He (bm OR shl 1 u) (xs @ ?h # ys))"
      by (simp add: He_finish_def spliceIn_def)
    moreover have "list_all2 (at_idx sh) (bits (bm OR shl 1 u)) (xs @ ?h # ys)"
      using list_all2_at_idx_update [OF xs(2) ys h(2)] u by (simp add: bits_or)
    moreover have "length (xs @ ys) < 16" "xs @ ys \<noteq> []" using w False by (auto simp: ct_max_def m_size_def)
    ultimately show ?thesis using w h out' put
      by (auto simp: append_eq_Cons_conv)
  qed
qed

lemma upd_He_ok:
  assumes w: "wf sh (He bm ns)" and ag: "agree sh (hash_of k) (He bm ns)" and n: "with_hash n k = hash_of k"
    and IH: "\<And>d. d \<in> set ns \<Longrightarrow> wf (sh + v_shift) d \<Longrightarrow> agree (sh + v_shift) (hash_of k) d \<Longrightarrow>
      upd_ok (sh + v_shift) d k i (upd d (sh + v_shift) (Some (hash_of k)) k i)"
  shows "upd_ok sh (He bm ns) k i (upd (He bm ns) sh n k i)"
proof -
  define u where "u = idx sh (hash_of k)"
  have u: "u < 32" "idx sh (hash_of k) = u" by (simp_all add: u_def)
  have l: "list_all2 (at_idx sh) (bits bm) ns" and sh: "sh < 32" using w by auto
  show ?thesis
  proof (cases "bit bm u")
    case True
    from l u(1) True obtain xs d ys where s: "ns = xs @ d # ys" and xs: "length xs = slot bm (shl 1 u)"
      "list_all2 (at_idx sh) (lower_bits bm u) xs" and d: "at_idx sh u d"
      and ys: "list_all2 (at_idx sh) (upper_bits bm u) ys"
      by (rule He_split_set)
    have out: "k \<notin> fst ` set (concat (map entries xs))" "k \<notin> fst ` set (concat (map entries ys))"
      using not_in_other [OF xs(2) _ u(2)] not_in_other [OF ys _ u(2)] by simp_all
    have kd: "k \<in> keys (He bm ns) \<longleftrightarrow> k \<in> keys d" using out by (auto simp: s)
    obtain h ch al where r: "upd d (sh + v_shift) (Some (hash_of k)) k i = (h, ch, al)"
      by (cases "upd d (sh + v_shift) (Some (hash_of k)) k i")
    have "upd_ok (sh + v_shift) d k i (h, ch, al)"
      unfolding r [symmetric] using w d u(2) sh by (intro IH agree_child [OF ag]) (auto simp: s)
    then have h: "case h of None \<Rightarrow> put k i (set (entries d)) = {} \<and> tt d
            | Some x \<Rightarrow> wf (sh + v_shift) x \<and> set (entries x) = put k i (set (entries d))"
      and ch: "ch \<longleftrightarrow> (k \<in> keys d) \<noteq> (i \<noteq> None)"
      and al: "al \<longleftrightarrow> put k i (set (entries d)) \<noteq> set (entries d)" "\<not> al \<longrightarrow> h = Some d"
      by (auto simp: upd_ok_def)
    have al': "al \<longleftrightarrow> put k i (set (entries (He bm ns))) \<noteq> set (entries (He bm ns))"
      using put_middle_eq [OF out, of i "set (entries d)"] al(1) by (simp add: s)
    have hd: "h = Some d \<longleftrightarrow> \<not> al" using al h by auto
    have "upd (He bm ns) sh n k i = (if h = Some d then (Some (He bm ns), ch, al)
        else (He_finish bm ns (shl 1 u) u (length xs) True h, ch, al))"
      using True u(1) by (simp add: n Let_def and_shl_1 xs(1) [symmetric] s et_def r u_def [symmetric])
    moreover obtain nd where "He_finish bm ns (shl 1 u) u (length xs) True h = Some nd" "wf sh nd"
      "set (entries nd) = put k i (set (entries (He bm ns)))"
      using He_finish_set [OF w [unfolded s] u(1) True u(2) xs ys d h] by (auto simp: s)
    ultimately show ?thesis using hd al' w ch kd by (simp add: upd_ok_def del: entries.simps wf.simps)
  next
    case False
    from l u(1) False obtain xs ys where s: "ns = xs @ ys" and xs: "length xs = slot bm (shl 1 u)"
      "list_all2 (at_idx sh) (lower_bits bm u) xs" and ys: "list_all2 (at_idx sh) (upper_bits bm u) ys"
      by (rule He_split_clear)
    note c = He_finish_clear [OF w [unfolded s] u(1) False u(2) xs ys, folded s]
    have out: "k \<notin> keys (He bm ns)" using c by blast
    show ?thesis
    proof (cases i)
      case None
      then have "upd (He bm ns) sh n k i = (Some (He bm ns), False, False)"
        using False u(1) by (simp add: n Let_def and_shl_1 u_def [symmetric])
      with None w put_absent_None [OF out] out show ?thesis by (simp add: upd_ok_def del: entries.simps wf.simps)
    next
      case (Some x)
      obtain nd where nd: "He_finish bm ns (shl 1 u) u (length xs) False (Some (Ye (hash_of k) (k, x))) = Some nd" "wf sh nd"
        "set (entries nd) = put k (Some x) (set (entries (He bm ns)))" using c [of x] by auto
      have "upd (He bm ns) sh n k i = (Some nd, True, True)"
        unfolding upd.simps n Let_def u(2) xs(1) [symmetric] Some
        using nd(1) False u(1) by (simp add: and_shl_1 et_def)
      moreover have "put k i (set (entries (He bm ns))) \<noteq> set (entries (He bm ns))"
        using put_absent_neq [OF out] Some by simp
      ultimately show ?thesis using nd Some out by (simp add: upd_ok_def del: entries.simps wf.simps)
    qed
  qed
qed

text \<open>A node of 32 slots: slot \<open>u\<close> gets a new child, or loses its child.\<close>

lemma list_all2_slot_update:
  assumes "u < 32" "list_all2 (\<lambda>q. pred_option (at_idx sh q)) [0..<u] xs" "pred_option (at_idx sh u) d"
    "list_all2 (\<lambda>q. pred_option (at_idx sh q)) [Suc u..<32] ys"
  shows "list_all2 (\<lambda>q. pred_option (at_idx sh q)) [0..<32] (xs @ d # ys)"
  unfolding upt_32_split [OF assms(1)] using assms by (intro list_all2_appendI) simp_all

lemma We_finish_ok:
  assumes w: "wf sh (We m (xs @ d # ys))" and u: "u < 32" "length xs = u" "idx sh (hash_of k) = u"
    and xs: "list_all2 (\<lambda>q. pred_option (at_idx sh q)) [0..<u] xs"
    and ys: "list_all2 (\<lambda>q. pred_option (at_idx sh q)) [Suc u..<32] ys"
    and d: "pred_option (at_idx sh u) d"
    and h: "case h of None \<Rightarrow> d \<noteq> None \<and> put k i (set (case_option [] entries d)) = {}
            | Some x \<Rightarrow> wf (sh + v_shift) x \<and> set (entries x) = put k i (set (case_option [] entries d))"
  shows "\<exists>nd. We_finish m (xs @ d # ys) u d h = Some nd \<and> wf sh nd \<and>
    set (entries nd) = put k i (set (entries (We m (xs @ d # ys))))"
proof -
  let ?E = "\<lambda>cs. set (concat (map (case_option [] entries) cs))"
  have out: "k \<notin> fst ` ?E xs" "k \<notin> fst ` ?E ys"
    using not_in_other_option [OF xs _ u(3)] not_in_other_option [OF ys _ u(3)] by simp_all
  have put: "put k i (set (entries (We m (xs @ d # ys)))) = ?E xs \<union> (?E ys \<union> put k i (set (case_option [] entries d)))"
    using put_middle [OF out] by simp
  have len: "(xs @ d # ys)[u := h] = xs @ h # ys" using u(2) by (simp add: list_update_append)
  have "pred_option (at_idx sh u) h"
  proof (cases h)
    case (Some x)
    with h have "set (entries x) = put k i (set (case_option [] entries d))" by simp
    moreover have "\<forall>k\<in>fst ` set (case_option [] entries d). idx sh (hash_of k) = u"
      using d by (cases d) (simp_all add: at_idx_def)
    ultimately have "at_idx sh u x" using u(3) by (rule at_idx_put)
    with Some show ?thesis by simp
  qed simp
  then have l: "list_all2 (\<lambda>q. pred_option (at_idx sh q)) [0..<32] (xs @ h # ys)"
    by (rule list_all2_slot_update [OF u(1) xs _ ys])
  have E: "set (entries (We m' (xs @ h # ys))) = put k i (set (entries (We m (xs @ d # ys))))" for m'
    using h put by (auto split: option.splits)
  show ?thesis
  proof (cases "h = None \<and> m - 1 < ft_min")
    case True
    with h have "d \<noteq> None" by auto
    moreover have "8 \<le> m" using w by simp
    ultimately show ?thesis using True packNodes_correct [OF w u(2,1)] E [of m] by (auto simp: We_finish_def)
  next
    case False
    define m' where "m' = (if d \<noteq> None then if h = None then m - 1 else m else m + 1)"
    have "We_finish m (xs @ d # ys) u d h = Some (We m' (xs @ h # ys))"
      using False len by (auto simp: We_finish_def m'_def)
    moreover have "m' = length (filter (\<lambda>c. c \<noteq> None) (xs @ h # ys))" "8 \<le> m'"
      using w h False by (auto simp: m'_def ft_min_def m_size_def split: option.splits)
    moreover have "\<forall>c\<in>set (xs @ h # ys). case c of None \<Rightarrow> True | Some x \<Rightarrow> wf (sh + v_shift) x"
      using w h by (auto split: option.splits)
    ultimately show ?thesis using w l E by auto
  qed
qed

text \<open>What an update of a slot, through \<open>et\<close>, promises.\<close>

definition child_ok :: "nat \<Rightarrow> 'v node option \<Rightarrow> key \<Rightarrow> 'v option \<Rightarrow> 'v upd_result \<Rightarrow> bool" where
  "child_ok sh d k i res \<longleftrightarrow>
     (let E = set (case_option [] entries d) in
      case res of (h, ch, al) \<Rightarrow>
        (case h of None \<Rightarrow> d \<noteq> None \<and> put k i E = {} | Some x \<Rightarrow> wf sh x \<and> set (entries x) = put k i E) \<and>
        (ch \<longleftrightarrow> (k \<in> fst ` E) \<noteq> (i \<noteq> None)) \<and> (al \<longleftrightarrow> put k i E \<noteq> E) \<and> (\<not> al \<longrightarrow> h = d))"

lemma et_ok:
  assumes "\<not> (i = None \<and> d = None)" "\<And>nd. d = Some nd \<Longrightarrow> upd_ok sh nd k i (f nd)"
  shows "child_ok sh d k i (et f d (hash_of k) k i)"
proof (cases d)
  case None
  then show ?thesis using assms(1) by (auto simp: child_ok_def et_def put_def)
next
  case (Some nd)
  then show ?thesis using assms(2)
    by (cases "f nd") (auto simp: child_ok_def et_def upd_ok_def Let_def split: option.splits)
qed

lemma upd_We_ok:
  assumes w: "wf sh (We m ns)" and ag: "agree sh (hash_of k) (We m ns)" and n: "with_hash n k = hash_of k"
    and IH: "\<And>d. Some d \<in> set ns \<Longrightarrow> wf (sh + v_shift) d \<Longrightarrow> agree (sh + v_shift) (hash_of k) d \<Longrightarrow>
      upd_ok (sh + v_shift) d k i (upd d (sh + v_shift) (Some (hash_of k)) k i)"
  shows "upd_ok sh (We m ns) k i (upd (We m ns) sh n k i)"
proof -
  define u where "u = idx sh (hash_of k)"
  have u: "u < 32" "idx sh (hash_of k) = u" by (simp_all add: u_def)
  have l: "list_all2 (\<lambda>q. pred_option (at_idx sh q)) [0..<32] ns" and sh: "sh < 32" using w by auto
  from l u(1) obtain xs d ys where s: "ns = xs @ d # ys" and lx: "length xs = u"
    and xs: "list_all2 (\<lambda>q. pred_option (at_idx sh q)) [0..<u] xs" and d: "pred_option (at_idx sh u) d"
    and ys: "list_all2 (\<lambda>q. pred_option (at_idx sh q)) [Suc u..<32] ys"
    by (rule We_split)
  let ?E = "\<lambda>cs. set (concat (map (case_option [] entries) cs))"
  have out: "k \<notin> fst ` ?E xs" "k \<notin> fst ` ?E ys"
    using not_in_other_option [OF xs _ u(2)] not_in_other_option [OF ys _ u(2)] by simp_all
  have kd: "k \<in> keys (We m ns) \<longleftrightarrow> k \<in> fst ` set (case_option [] entries d)"
    using out by (simp add: s image_Un)
  have gd: "(case arr_get ns u of Some x \<Rightarrow> x | None \<Rightarrow> None) = d" using lx s by auto
  have eqd: "put k i (set (entries (We m ns))) = set (entries (We m ns)) \<longleftrightarrow>
      put k i (set (case_option [] entries d)) = set (case_option [] entries d)"
    using put_middle_eq [OF out, of i "set (case_option [] entries d)"] by (simp add: s)
  show ?thesis
  proof (cases "i = None \<and> d = None")
    case True
    then have "upd (We m ns) sh n k i = (Some (We m ns), False, False)"
      unfolding upd.simps n Let_def u(2) gd by simp
    with True kd w show ?thesis
      by (simp add: upd_ok_def put_absent_None del: entries.simps wf.simps)
  next
    case False
    obtain h ch al where r: "et (\<lambda>nd. upd nd (sh + v_shift) (Some (hash_of k)) k i) d (hash_of k) k i = (h, ch, al)"
      by (rule prod_cases3)
    have "child_ok (sh + v_shift) d k i (h, ch, al)" unfolding r [symmetric]
      using False w d u(2) sh by (intro et_ok IH agree_child_option [OF ag]) (auto simp: s)
    then have h: "case h of None \<Rightarrow> d \<noteq> None \<and> put k i (set (case_option [] entries d)) = {}
            | Some x \<Rightarrow> wf (sh + v_shift) x \<and> set (entries x) = put k i (set (case_option [] entries d))"
      and ch: "ch \<longleftrightarrow> (k \<in> fst ` set (case_option [] entries d)) \<noteq> (i \<noteq> None)"
      and al: "al \<longleftrightarrow> put k i (set (case_option [] entries d)) \<noteq> set (case_option [] entries d)" "\<not> al \<longrightarrow> h = d"
      unfolding child_ok_def Let_def prod.case by blast+
    have hd: "h = d \<longleftrightarrow> \<not> al" using al h by (auto split: option.splits)
    have "upd (We m ns) sh n k i = (if h = d then (Some (We m ns), ch, al) else (We_finish m ns u d h, ch, al))"
      unfolding upd.simps n Let_def u(2) gd r using False by auto
    moreover obtain nd where "We_finish m ns u d h = Some nd" "wf sh nd"
      "set (entries nd) = put k i (set (entries (We m ns)))"
      using We_finish_ok [OF w [unfolded s] u(1) lx u(2) xs ys d h] by (auto simp: s)
    moreover have "al \<longleftrightarrow> put k i (set (entries (We m ns))) \<noteq> set (entries (We m ns))" using al(1) eqd by blast
    moreover have "ch \<longleftrightarrow> (k \<in> keys (We m ns)) \<noteq> (i \<noteq> None)" using ch kd by blast
    ultimately show ?thesis using hd w by (simp add: upd_ok_def del: entries.simps wf.simps upd.simps)
  qed
qed

theorem upd_correct:
  assumes "wf sh nd" "agree sh (hash_of k) nd" "n = Some (hash_of k) \<or> n = None"
  shows "upd_ok sh nd k i (upd nd sh n k i)"
  using assms
proof (induction nd arbitrary: sh n)
  case (He bm ns)
  have "with_hash n k = hash_of k" using He.prems(3) by (auto simp: with_hash_def)
  then show ?case using He by (intro upd_He_ok) auto
next
  case (We m ns)
  have "with_hash n k = hash_of k" using We.prems(3) by (auto simp: with_hash_def)
  then show ?case using We.IH [OF _ _ _ _ disjI1 [OF refl]] We.prems by (intro upd_We_ok) auto
next
  case (Je kh s)
  have "upd (Je kh s) sh n k i = upd (Je kh s) sh (Some (hash_of k)) k i"
    using Je.prems(3) by (auto simp: with_hash_def)
  with upd_Je_ok [OF Je.prems(1,2)] show ?case by simp
next
  case (Ye kh e)
  then show ?case by (intro upd_Ye_ok)
qed

section \<open>The root\<close>

fun root_entries :: "'v root \<Rightarrow> 'v entry list" where
  "root_entries (Ve es) = es"
| "root_entries (Node nd) = entries nd"

fun root_wf :: "'v root \<Rightarrow> bool" where
  "root_wf (Ve es) \<longleftrightarrow> es \<noteq> [] \<and> length es \<le> lt_max \<and> distinct (map fst es)"
| "root_wf (Node nd) \<longleftrightarrow> wf 0 nd"

lemma root_wf_distinct: "root_wf r \<Longrightarrow> distinct (map fst (root_entries r))"
  by (cases r) (auto dest: wf_distinct)

lemma root_wf_nonempty: "root_wf r \<Longrightarrow> root_entries r \<noteq> []"
  by (cases r) (auto dest: wf_nonempty)

lemma agree_0 [simp]: "agree 0 h nd"
  by (simp add: agree_def)

lemma create_nodes_correct:
  assumes "wf 0 nd" "distinct (map fst es)" "keys nd \<inter> fst ` set es = {}"
  shows "\<exists>nd'. create_nodes nd es = Some nd' \<and> wf 0 nd' \<and> set (entries nd') = set (entries nd) \<union> set es"
  using assms
proof (induction es arbitrary: nd)
  case (Cons a es)
  obtain nd1 ch al where r: "upd nd 0 None (fst a) (Some (snd a)) = (nd1, ch, al)" by (rule prod_cases3)
  have "upd_ok 0 nd (fst a) (Some (snd a)) (nd1, ch, al)"
    unfolding r [symmetric] using Cons.prems(1) by (intro upd_correct) auto
  moreover have "fst a \<notin> keys nd" using Cons.prems(3) by auto
  ultimately obtain x where x: "nd1 = Some x" "wf 0 x" "set (entries x) = insert a (set (entries nd))"
    by (auto simp: upd_ok_def put_absent split: option.splits)
  moreover have "keys x \<inter> fst ` set es = {}" using Cons.prems(2,3) unfolding x(3) by auto
  ultimately show ?case using Cons.IH [of x] Cons.prems(2) r by auto
qed auto

lemma root_get_correct:
  "root_wf r \<Longrightarrow> root_get r 0 None k x = Inr (entries_get (root_entries r) k x)"
proof (cases r)
  case (Node nd)
  have "node_get nd 0 None k x = node_get nd 0 (Some (hash_of k)) k x" by (cases nd) (simp_all add: with_hash_def)
  then show "root_wf r \<Longrightarrow> root_get r 0 None k x = Inr (entries_get (root_entries r) k x)"
    using Node node_get_correct [of 0 nd k x] by simp
qed simp

definition root_upd_ok :: "'v root \<Rightarrow> key \<Rightarrow> 'v option \<Rightarrow> 'v root option \<times> bool \<times> bool \<Rightarrow> bool" where
  "root_upd_ok r k i res \<longleftrightarrow>
     (let E = set (root_entries r) in
      case res of (r1, ch, al) \<Rightarrow>
        (case r1 of None \<Rightarrow> put k i E = {} | Some x \<Rightarrow> root_wf x \<and> set (root_entries x) = put k i E) \<and>
        (ch \<longleftrightarrow> (k \<in> fst ` E) \<noteq> (i \<noteq> None)) \<and> (al \<longleftrightarrow> put k i E \<noteq> E))"

lemma root_update_Ve_ok:
  assumes w: "root_wf (Ve s)"
  shows "root_upd_ok (Ve s) k i (root_update (Ve s) k i)"
proof (cases "if k \<in> fst ` set s then i = Some (snd (s ! entry_index k s)) else i = None")
  case True
  with assms have "put k i (set s) = set s" by (simp add: put_unchanged)
  moreover have "root_update (Ve s) k i = (Some (Ve s), False, False)"
    using True by (simp add: entry_index_less Let_def)
  moreover have "(k \<in> fst ` set s) = (i \<noteq> None)" using True by (simp split: if_splits)
  ultimately show ?thesis using w by (simp add: root_upd_ok_def)
next
  case False
  let ?ch = "i = None \<or> k \<notin> fst ` set s"
  have d: "distinct (map fst s)" using w by simp
  with False have ne: "put k i (set s) \<noteq> set s" by (simp add: put_unchanged)
  have c: "\<not> (i = None \<and> k \<notin> fst ` set s)" using False by auto
  then have ch: "?ch \<longleftrightarrow> (k \<in> fst ` set s) \<noteq> (i \<noteq> None)" by (cases i; cases "k \<in> fst ` set s") simp_all
  consider (gone) "i = None" "length s = 1" | (grow) x where "i = Some x" "k \<notin> fst ` set s" "length s \<ge> lt_max"
    | (edit) "\<not> (i = None \<and> length s = 1)" "i = None \<or> k \<in> fst ` set s \<or> length s < lt_max"
    by (cases i) force+
  then show ?thesis
  proof cases
    case gone
    then obtain a where a: "s = [a]" by (auto simp: length_Suc_conv)
    with gone c have "put k i (set s) = {}" by (auto simp: put_def)
    moreover have "root_update (Ve s) k i = (None, ?ch, True)" using a gone c by auto
    ultimately show ?thesis using ch ne by (simp add: root_upd_ok_def)
  next
    case grow
    obtain nd where "create_nodes (Ye (hash_of k) (k, x)) s = Some nd" "wf 0 nd" "set (entries nd) = insert (k, x) (set s)"
      using create_nodes_correct [of "Ye (hash_of k) (k, x)" s] d grow by auto
    moreover from this have "root_update (Ve s) k i = (Some (Node nd), ?ch, True)"
      using grow by (simp add: entry_index_less)
    ultimately show ?thesis using ch ne grow by (simp add: root_upd_ok_def put_absent)
  next
    case edit
    note e = edit_entries_correct [OF d c]
    have "root_update (Ve s) k i = (Some (Ve (edit_entries s (entry_index k s) k i)), ?ch, True)"
      using False edit by (auto simp: entry_index_less Let_def split: option.split)
    moreover have "edit_entries s (entry_index k s) k i \<noteq> []" "length (edit_entries s (entry_index k s) k i) \<le> lt_max"
      using e(3) w edit c by (auto simp: Suc_le_eq simp flip: length_greater_0_conv split: if_splits)
    ultimately show ?thesis using ch ne e(1,2) by (simp add: root_upd_ok_def)
  qed
qed

lemma root_update_correct: "root_wf r \<Longrightarrow> root_upd_ok r k i (root_update r k i)"
proof (cases r)
  case (Node nd)
  assume "root_wf r"
  then have "upd_ok 0 nd k i (upd nd 0 None k i)" using Node by (intro upd_correct) auto
  then show ?thesis using Node
    by (cases "upd nd 0 None k i") (auto simp: upd_ok_def root_upd_ok_def Let_def split: option.splits)
qed (simp add: root_update_Ve_ok del: root_update.simps root_wf.simps)

section \<open>The map\<close>

definition map_entries :: "'v immap \<Rightarrow> 'v entry list" where
  "map_entries m = (case map_root m of None \<Rightarrow> [] | Some r \<Rightarrow> root_entries r)"

definition map_ok :: "'v immap \<Rightarrow> bool" where
  "map_ok m \<longleftrightarrow> (case map_root m of None \<Rightarrow> True | Some r \<Rightarrow> root_wf r) \<and> map_size m = int (length (map_entries m))"

definition map_abs :: "'v immap \<Rightarrow> key \<rightharpoonup> 'v" where
  "map_abs m = map_of (map_entries m)"

lemma map_ok_distinct: "map_ok m \<Longrightarrow> distinct (map fst (map_entries m))"
  by (auto simp: map_ok_def map_entries_def root_wf_distinct split: option.splits)

lemma map_of_eq_iff_set:
  assumes "distinct (map fst xs)" "distinct (map fst ys)"
  shows "map_of xs = map_of ys \<longleftrightarrow> set xs = set ys"
  using assms by (metis map_of_inject_set)

lemma map_of_put:
  assumes "distinct (map fst es)" "distinct (map fst es')" "set es' = put k i (set es)"
  shows "map_of es' = (map_of es)(k := i)"
proof
  fix q
  show "map_of es' q = ((map_of es)(k := i)) q"
  proof (cases "q = k")
    case True
    then show ?thesis using assms
      by (cases i) (auto simp: put_def map_of_eq_None_iff)
  next
    case False
    have "map_of es' q = Some x \<longleftrightarrow> map_of es q = Some x" for x
      unfolding map_of_eq_Some_iff [OF assms(1)] map_of_eq_Some_iff [OF assms(2)] assms(3)
      using False by (auto simp: put_def split: option.split)
    then have "map_of es' q = map_of es q" by (metis not_None_eq)
    with False show ?thesis by simp
  qed
qed

lemma length_card_keys: "distinct (map fst xs) \<Longrightarrow> length xs = card (fst ` set xs)"
  by (metis distinct_card length_map set_map)

lemma length_put:
  assumes "distinct (map fst es)" "distinct (map fst es')" "set es' = put k i (set es)"
  shows "int (length es') = int (length es) +
    (if (k \<in> fst ` set es) \<noteq> (i \<noteq> None) then if i = None then -1 else 1 else 0)"
proof -
  have "fst ` set es' = (if i = None then fst ` set es - {k} else insert k (fst ` set es))"
    using assms(3) by (force simp: put_def split: option.splits)
  moreover have "k \<in> fst ` set es \<Longrightarrow> 0 < card (fst ` set es)" by (metis card_gt_0_iff empty_iff finite_imageI finite_set)
  ultimately show ?thesis using length_card_keys [OF assms(1)] length_card_keys [OF assms(2)]
    by (cases "k \<in> fst ` set es"; cases i) (simp_all add: card_Diff_singleton insert_absorb of_nat_diff Suc_le_eq)
qed

lemma Qe_correct:
  assumes "map_ok m"
  shows "map_ok (Qe m k i)" "map_abs (Qe m k i) = (map_abs m)(k := i)" "(map_abs m)(k := i) = map_abs m \<Longrightarrow> Qe m k i = m"
proof -
  have "map_ok (Qe m k i) \<and> map_abs (Qe m k i) = (map_abs m)(k := i) \<and> ((map_abs m)(k := i) = map_abs m \<longrightarrow> Qe m k i = m)"
  proof (cases "map_root m")
    case None
    then have m: "map_entries m = []" "m = Xe" using assms
      by (cases m; auto simp: map_ok_def map_entries_def Xe_def)+
    then show ?thesis using assms
      by (cases i) (auto simp: Qe_def map_ok_def map_entries_def map_abs_def Xe_def lt_max_def m_size_def fun_eq_iff)
  next
    case (Some r)
    let ?E = "set (root_entries r)"
    have w: "root_wf r" and sz: "map_size m = int (length (root_entries r))"
      using assms Some by (auto simp: map_ok_def map_entries_def)
    obtain r1 ch al where u: "root_update r k i = (r1, ch, al)" by (rule prod_cases3)
    have "root_upd_ok r k i (r1, ch, al)" using root_update_correct [OF w] u by metis
    then have r1: "case r1 of None \<Rightarrow> put k i ?E = {} | Some x \<Rightarrow> root_wf x \<and> set (root_entries x) = put k i ?E"
      and ch: "ch \<longleftrightarrow> (k \<in> fst ` ?E) \<noteq> (i \<noteq> None)" and al: "al \<longleftrightarrow> put k i ?E \<noteq> ?E"
      unfolding root_upd_ok_def Let_def prod.case by blast+
    define q where "q = (if al then r1 else Some r)"
    define es where "es = (case q of None \<Rightarrow> [] | Some x \<Rightarrow> root_entries x)"
    have q: "case q of None \<Rightarrow> True | Some x \<Rightarrow> root_wf x" "set es = put k i ?E" "distinct (map fst es)"
      using r1 al w by (auto simp: q_def es_def root_wf_distinct split: option.splits)
    note d = root_wf_distinct [OF w]
    have len: "int (length es) = int (length (root_entries r)) + (if ch then if i = None then -1 else 1 else 0)"
      using length_put [OF d q(3,2)] unfolding ch .
    have Q: "Qe m k i = Immap (int (length es)) q"
    proof (cases al)
      case True
      then show ?thesis using len Some u sz
        by (cases r1) (simp_all add: Qe_def q_def es_def Xe_def)
    next
      case False
      then show ?thesis using Some u sz by (cases m) (simp add: Qe_def q_def es_def)
    qed
    have "map_abs m = map_of (root_entries r)" using Some by (simp add: map_abs_def map_entries_def)
    moreover have E: "map_entries (Qe m k i) = es" by (simp add: Q map_entries_def es_def)
    moreover have "map_of es = (map_of (root_entries r))(k := i)" by (rule map_of_put [OF d q(3,2)])
    moreover have "(map_of (root_entries r))(k := i) = map_of (root_entries r) \<Longrightarrow> \<not> al"
      using al d q(2,3) \<open>map_of es = _\<close> by (metis map_of_eq_iff_set)
    moreover have "\<not> al \<Longrightarrow> Qe m k i = m" using Some u by (simp add: Qe_def)
    ultimately show ?thesis using q(1) by (auto simp: map_ok_def E Q map_abs_def)
  qed
  then show "map_ok (Qe m k i)" "map_abs (Qe m k i) = (map_abs m)(k := i)" "(map_abs m)(k := i) = map_abs m \<Longrightarrow> Qe m k i = m"
    by blast+
qed

lemma map_get_correct:
  "map_ok m \<Longrightarrow> map_get m k d = Inr (case map_abs m k of None \<Rightarrow> d | Some x \<Rightarrow> Some x)"
proof -
  have "entries_get es k d = (case map_of es k of None \<Rightarrow> d | Some x \<Rightarrow> Some x)" for es :: "'a entry list"
    by (induction es) auto
  then show "map_ok m \<Longrightarrow> map_get m k d = Inr (case map_abs m k of None \<Rightarrow> d | Some x \<Rightarrow> Some x)"
    by (auto simp: map_get_def map_ok_def map_abs_def map_entries_def root_get_correct split: option.splits)
qed

lemma map_size_card:
  assumes "map_ok m"
  shows "finite (dom (map_abs m)) \<and> map_size m = int (card (dom (map_abs m)))"
  using assms map_ok_distinct [OF assms]
  by (simp add: map_ok_def map_abs_def dom_map_of_conv_image_fst length_card_keys)

interpretation hamt: persistent_map Xe map_get map_set map_remove map_size map_ok map_abs
proof unfold_locales
  show "map_ok Xe" "map_abs Xe = Map.empty"
    by (simp_all add: map_ok_def Xe_def map_abs_def map_entries_def)
qed (simp_all add: map_set_def map_remove_def Qe_correct map_get_correct map_size_card)

end
