(* ===== verification/Imm_Map_Iter.thy ===== *)
theory Imm_Map_Iter
  imports Imm_Map_Update
begin

text \<open>
  Traversal of the map: \<open>__iterate\<close> calls back once per entry, and the iterator \<open>Ke\<close> delivers the
  same entries in the same order, forwards and backwards.
\<close>

section \<open>Iteration with a callback\<close>

lemma iter_append:
  "iter f (xs @ ys) s = (let (s1, ok) = iter f xs s in if ok then iter f ys s1 else (s1, False))"
  by (induction xs arbitrary: s) (auto simp: Let_def split: prod.splits)

lemma iter_concat: "iter (\<lambda>s x. iter f (g x) s) xs s = iter f (concat (map g xs)) s"
  by (induction xs arbitrary: s) (auto simp: iter_append Let_def split: prod.splits)

lemma rev_concat_map: "rev (concat (map g xs)) = concat (map (\<lambda>x. rev (g x)) (rev xs))"
  by (induction xs) auto

abbreviation direction :: "bool \<Rightarrow> 'a list \<Rightarrow> 'a list" where
  "direction t xs \<equiv> (if t then rev xs else xs)"

lemma node_iterate_entries: "node_iterate f t nd s = iter f (direction t (entries nd)) s"
proof (induction nd arbitrary: s)
  case (He bm ns)
  have "node_iterate f t (He bm ns) s = iter (\<lambda>s c. iter f (direction t (entries c)) s) (direction t ns) s"
    using He by (auto intro!: iter_cong)
  then show ?case by (auto simp: iter_concat rev_concat_map)
next
  case (We n ns)
  have "node_iterate f t (We n ns) s =
      iter (\<lambda>s c. iter f (direction t (case_option [] entries c)) s) (direction t ns) s"
    using We by (auto intro!: iter_cong split: option.splits)
  then show ?case by (auto simp: iter_concat rev_concat_map)
qed (auto split: prod.split)

lemma root_iterate_entries: "root_iterate f t r s = iter f (direction t (root_entries r)) s"
  by (cases r) (auto simp: node_iterate_entries)


section \<open>The iterator\<close>

fun frame_pending :: "bool \<Rightarrow> 'v frame \<Rightarrow> 'v entry list" where
  "frame_pending t (Node (He bm ns), i) = concat (map (\<lambda>c. direction t (entries c)) (drop i (direction t ns)))"
| "frame_pending t (Node (We n ns), i) =
     concat (map (\<lambda>c. direction t (case_option [] entries c)) (drop i (direction t ns)))"
| "frame_pending t (Node (Je h es), i) = drop i (direction t es)"
| "frame_pending t (Node (Ye h e), i) = drop i [e]"
| "frame_pending t (Ve es, i) = drop i (direction t es)"

definition pending :: "bool \<Rightarrow> 'v frame list \<Rightarrow> 'v entry list" where
  "pending t st = concat (map (frame_pending t) st)"

lemma pending_Nil [simp]: "pending t [] = []"
  by (simp add: pending_def)

lemma pending_Cons [simp]: "pending t (f # st) = frame_pending t f @ pending t st"
  by (simp add: pending_def)

lemma frame_pending_0: "frame_pending t (Node nd, 0) = direction t (entries nd)"
  by (cases nd) (auto simp: rev_concat_map)

lemma frame_next_pending:
  "frame_pending t (nd, i) =
     (case frame_next t nd i of
        None \<Rightarrow> []
      | Some (Inl e) \<Rightarrow> e # frame_pending t (nd, Suc i)
      | Some (Inr c) \<Rightarrow> direction t (case_option [] entries c) @ frame_pending t (nd, Suc i))"
  by (cases "(t, nd, i)" rule: frame_next.cases) (auto simp: drop_nth_rev(1) rev_nth split: option.split)

lemma Ke_next_pending:
  "(case pending t st of
      [] \<Rightarrow> Ke_next t st = (None, [])
    | e # es \<Rightarrow> \<exists>st'. Ke_next t st = (Some e, st') \<and> pending t st' = es)"
proof (induction t st rule: Ke_next.induct)
  case (2 r nd i st)
  note p = frame_next_pending [of r nd i]
  show ?case
  proof (cases "frame_next r nd i")
    case None
    then have "Ke_next r ((nd, i) # st) = Ke_next r st" "pending r ((nd, i) # st) = pending r st"
      using p by simp_all
    with 2(1) [OF None] show ?thesis by (simp only:)
  next
    case (Some x)
    show ?thesis
    proof (cases x)
      case (Inl e)
      with Some p show ?thesis by simp
    next
      case (Inr c)
      show ?thesis
      proof (cases c)
        case None
        have "Ke_next r ((nd, i) # st) = Ke_next r ((nd, Suc i) # st)"
          using Some Inr None by (subst Ke_next.simps) simp
        moreover have "pending r ((nd, i) # st) = pending r ((nd, Suc i) # st)"
          using p Some Inr None by (simp split: if_splits)
        ultimately show ?thesis using 2(2) [OF Some Inr None] by (simp only:)
      next
        case c: (Some nd')
        have P: "pending r ((nd, i) # st) = pending r ((Node nd', 0) # (nd, Suc i) # st)"
          using p Some Inr c by (simp add: frame_pending_0 del: frame_pending.simps)
        have K: "Ke_next r ((nd, i) # st) = (case nd' of Ye h e \<Rightarrow> (Some e, (nd, Suc i) # st)
            | _ \<Rightarrow> Ke_next r ((Node nd', 0) # (nd, Suc i) # st))"
          using Some Inr c by (subst Ke_next.simps) (simp split: node.split)
        show ?thesis
        proof (cases nd')
          case (Ye h e)
          then show ?thesis using P K by simp
        qed (use 2(3-5) [OF Some Inr c] in \<open>simp_all only: P K node.case\<close>)
      qed
    qed
  qed
qed simp

text \<open>The results of \<open>n\<close> calls of \<open>next\<close>.\<close>

fun drain :: "bool \<Rightarrow> nat \<Rightarrow> 'v frame list \<Rightarrow> 'v entry option list" where
  "drain t 0 st = []"
| "drain t (Suc n) st = (let (e, st1) = Ke_next t st in e # drain t n st1)"

lemma drain_pending:
  "drain t n st = map Some (take n (pending t st)) @ replicate (n - length (pending t st)) None"
proof (induction n arbitrary: st)
  case (Suc n)
  then show ?case using Ke_next_pending [of t st]
    by (cases "pending t st") auto
qed simp

lemma pending_Ke: "pending t (Ke m) = direction t (map_entries m)"
proof (cases "map_root m")
  case (Some r)
  then show ?thesis by (cases r) (auto simp: Ke_def map_entries_def frame_pending_0)
qed (simp add: Ke_def map_entries_def)

end
