(* ===== verification/Imm_Map_Ops.thy ===== *)
theory Imm_Map_Ops
  imports Imm_Map_Iter "HOL-Library.Sublist"
begin

text \<open>
  The operations of \<open>Map\<close> built from \<open>get\<close>, \<open>set\<close> and \<open>remove\<close>: construction, merging, and
  the nested updates along a path of keys (\<open>getIn\<close>, \<open>updateIn\<close>, \<open>setIn\<close>, \<open>deleteIn\<close>).
\<close>

section \<open>Construction and merging\<close>

text \<open>
  A source of entries is a map or a sequence of entries in iteration order; the constructor returns
  a map it is given unchanged.
\<close>

datatype 'v source = SMap "'v immap" | SSeq "'v entry list"

fun source_entries :: "'v source \<Rightarrow> 'v entry list" where
  "source_entries (SMap m) = map_entries m"
| "source_entries (SSeq es) = es"

fun src_size :: "'v source \<Rightarrow> int" where
  "src_size (SMap m) = map_size m"
| "src_size (SSeq es) = int (length es)"

fun Ue :: "'v source option \<Rightarrow> 'v immap" where
  "Ue None = Xe"
| "Ue (Some (SMap m)) = m"
| "Ue (Some (SSeq es)) = fold (\<lambda>(n, e) t. map_set t n e) es Xe"

fun Ue_of :: "key list \<Rightarrow> key immap \<Rightarrow> key immap js" where
  "Ue_of [] e = Inr e"
| "Ue_of [k] e = Inl (OtherError ''Missing value for key: '')"
| "Ue_of (k # x # t) e = Ue_of t (map_set e k x)"

definition at_step :: "('v \<Rightarrow> 'v \<Rightarrow> key \<Rightarrow> 'v) option \<Rightarrow> 'v entry \<Rightarrow> 'v immap \<Rightarrow> 'v immap js" where
  "at_step t en e =
     (case t of
        None \<Rightarrow> Inr (map_set e (fst en) (snd en))
      | Some g \<Rightarrow>
          js_bind (map_get e (fst en) None) (\<lambda>c.
            let s = (case c of None \<Rightarrow> snd en | Some x \<Rightarrow> g x (snd en) (fst en))
            in Inr (if Some s = c then e else map_set e (fst en) s)))"

definition at :: "'v immap \<Rightarrow> ('v \<Rightarrow> 'v \<Rightarrow> key \<Rightarrow> 'v) option \<Rightarrow> 'v source list \<Rightarrow> 'v immap js" where
  "at e t n =
     (let n1 = filter (\<lambda>s. src_size s \<noteq> 0) n
      in if n1 = [] then Inr e
         else if map_size e \<noteq> 0 \<or> length n1 \<noteq> 1 then js_fold (at_step t) (concat (map source_entries n1)) e
         else Inr (Ue (Some (hd n1))))"

section \<open>Paths\<close>

datatype 'a val = Atom 'a | VMap "'a val immap"

fun update_in :: "'a val option \<Rightarrow> key list \<Rightarrow> 'a val option \<Rightarrow> ('a val option \<Rightarrow> 'a val option) \<Rightarrow> 'a val option js" where
  "update_in t [] r f = (let u = (if t = None then r else t); s = f u in Inr (if s = u then t else s))"
| "update_in t (l # n) r f =
     (case t of
        Some (Atom _) \<Rightarrow> Inl (OtherError ''invalid keyPath'')
      | None \<Rightarrow>
          js_bind (update_in None n r f) (\<lambda>x.
            Inr (case x of None \<Rightarrow> t | Some v \<Rightarrow> Some (VMap (map_set Xe l v))))
      | Some (VMap m) \<Rightarrow>
          js_bind (map_get m l None) (\<lambda>c.
            js_bind (update_in c n r f) (\<lambda>x.
              Inr (if x = c then t
                   else case x of None \<Rightarrow> Some (VMap (map_remove m l)) | Some v \<Rightarrow> Some (VMap (map_set m l v))))))"

definition setIn :: "'a val \<Rightarrow> key list \<Rightarrow> 'a val \<Rightarrow> 'a val option js" where
  "setIn m e t = update_in (Some m) e None (\<lambda>_. Some t)"

definition deleteIn :: "'a val \<Rightarrow> key list \<Rightarrow> 'a val \<Rightarrow> 'a val option js" where
  "deleteIn m e undefined_value = update_in (Some m) e (Some undefined_value) (\<lambda>_. None)"

fun getIn :: "'a val \<Rightarrow> key list \<Rightarrow> 'a val option \<Rightarrow> 'a val option js" where
  "getIn r [] t = Inr (Some r)"
| "getIn r (i # o1) t =
     (case r of
        Atom _ \<Rightarrow> Inr t
      | VMap m \<Rightarrow> js_bind (map_get m i None) (\<lambda>x. case x of None \<Rightarrow> Inr t | Some v \<Rightarrow> getIn v o1 t))"

definition hasIn :: "'a val \<Rightarrow> key list \<Rightarrow> bool js" where
  "hasIn r e = map_sum id (\<lambda>x. x \<noteq> None) (getIn r e None)"

section \<open>Correctness of construction and merging\<close>

lemma Ue_correct:
  assumes "case s of Some (SMap m) \<Rightarrow> map_ok m | _ \<Rightarrow> True"
  shows "map_ok (Ue s) \<and> map_abs (Ue s) =
    (case s of None \<Rightarrow> Map.empty | Some (SMap m) \<Rightarrow> map_abs m | Some (SSeq es) \<Rightarrow> map_of (rev es))"
  using assms
  by (cases s rule: Ue.cases) (simp_all add: hamt.invar_empty hamt.abs_empty hamt.invar_fold_put hamt.abs_fold_put)

text \<open>What merging one entry does to the abstract map.\<close>

definition merge_entry :: "('v \<Rightarrow> 'v \<Rightarrow> key \<Rightarrow> 'v) option \<Rightarrow> 'v entry \<Rightarrow> (key \<rightharpoonup> 'v) \<Rightarrow> (key \<rightharpoonup> 'v)" where
  "merge_entry t en M =
     M(fst en \<mapsto> (case (t, M (fst en)) of (Some g, Some x) \<Rightarrow> g x (snd en) (fst en) | _ \<Rightarrow> snd en))"

lemma at_step_correct:
  assumes "map_ok m"
  shows "\<exists>m'. at_step t en m = Inr m' \<and> map_ok m' \<and> map_abs m' = merge_entry t en (map_abs m)"
  using assms
  by (auto simp: at_step_def merge_entry_def hamt.laws Let_def fun_eq_iff split: option.splits)

lemma js_fold_at_correct:
  "map_ok m \<Longrightarrow> \<exists>m'. js_fold (at_step t) es m = Inr m' \<and> map_ok m' \<and> map_abs m' = fold (merge_entry t) es (map_abs m)"
proof (induction es arbitrary: m)
  case (Cons e es)
  from at_step_correct [OF Cons.prems, of t e] obtain m' where
    "at_step t e m = Inr m'" "map_ok m'" "map_abs m' = merge_entry t e (map_abs m)" by blast
  with Cons.IH [of m'] show ?case by simp
qed simp

lemma fold_merge_absent:
  "distinct (map fst es) \<Longrightarrow> fst ` set es \<inter> dom M = {} \<Longrightarrow> fold (merge_entry t) es M = M ++ map_of es"
proof (induction es arbitrary: M)
  case (Cons e es)
  have "M (fst e) = None" using Cons.prems(2) by auto
  then have "merge_entry t e M = M(fst e \<mapsto> snd e)" by (auto simp: merge_entry_def split: option.split)
  moreover have "fst ` set es \<inter> dom (M(fst e \<mapsto> snd e)) = {}" using Cons.prems by auto
  ultimately have "fold (merge_entry t) (e # es) M = M(fst e \<mapsto> snd e) ++ map_of es"
    using Cons.IH [of "M(fst e \<mapsto> snd e)"] Cons.prems(1) by (simp del: fun_upd_apply)
  moreover have "fst e \<notin> dom (map_of es)" using Cons.prems(1) by (simp add: dom_map_of_conv_image_fst)
  ultimately show ?case by (cases e) (auto simp: map_add_def fun_eq_iff domIff split: option.split)
qed simp

section \<open>Correctness of the path operations\<close>

inductive val_ok :: "'a val \<Rightarrow> bool" where
  "val_ok (Atom a)"
| "map_ok m \<Longrightarrow> (\<And>k x. map_abs m k = Some x \<Longrightarrow> val_ok x) \<Longrightarrow> val_ok (VMap m)"

inductive_simps val_ok_VMap [simp]: "val_ok (VMap m)"

text \<open>The value at the end of a path, over the abstract maps.\<close>

fun path_get :: "'a val option \<Rightarrow> key list \<Rightarrow> 'a val option" where
  "path_get t [] = t"
| "path_get (Some (VMap m)) (k # ks) = path_get (map_abs m k) ks"
| "path_get _ (k # ks) = None"

lemma path_get_None [simp]: "path_get None p = None"
  by (cases p) auto

definition blocked :: "'a val option \<Rightarrow> key list \<Rightarrow> bool" where
  "blocked t p \<longleftrightarrow> (\<exists>q a. strict_prefix q p \<and> path_get t q = Some (Atom a))"

lemma blocked_simps [simp]:
  "\<not> blocked t []" "\<not> blocked None p" "blocked (Some (Atom a)) (k # ks)"
  "blocked (Some (VMap m)) (k # ks) \<longleftrightarrow> blocked (map_abs m k) ks"
proof -
  show "blocked (Some (Atom a)) (k # ks)"
    unfolding blocked_def by (intro exI [of _ "[]"] exI [of _ a]) simp
  show "blocked (Some (VMap m)) (k # ks) \<longleftrightarrow> blocked (map_abs m k) ks" (is "?l \<longleftrightarrow> ?r")
  proof
    assume ?l
    then obtain q a where q: "strict_prefix q (k # ks)" "path_get (Some (VMap m)) q = Some (Atom a)"
      by (auto simp: blocked_def)
    then show ?r by (cases q) (auto simp: blocked_def)
  next
    assume ?r
    then obtain q a where "strict_prefix q ks" "path_get (map_abs m k) q = Some (Atom a)"
      by (auto simp: blocked_def)
    then show ?l unfolding blocked_def by (intro exI [of _ "k # q"] exI [of _ a]) simp
  qed
qed (simp_all add: blocked_def)

lemma getIn_correct:
  "val_ok v \<Longrightarrow> getIn v p t = Inr (case path_get (Some v) p of None \<Rightarrow> t | Some x \<Rightarrow> Some x)"
proof (induction v p t rule: getIn.induct)
  case (2 r i p t)
  show ?case
  proof (cases r)
    case (VMap m)
    with 2 show ?thesis by (auto simp: hamt.get_abs split: option.split)
  qed simp
qed simp

lemma update_in_blocked:
  "pred_option val_ok t \<Longrightarrow> blocked t p \<Longrightarrow> update_in t p r f = Inl (OtherError ''invalid keyPath'')"
proof (induction t p r f rule: update_in.induct)
  case (2 t l p r f)
  show ?case
  proof (cases t)
    case (Some v)
    show ?thesis
    proof (cases v)
      case (VMap m)
      have g: "map_get m l None = Inr (map_abs m l)"
        using 2 Some VMap by (auto simp: hamt.get_abs split: option.split)
      have "pred_option val_ok (map_abs m l)" using 2 Some VMap by (cases "map_abs m l") auto
      then show ?thesis using 2(2) [OF Some VMap, of "map_abs m l"] 2(4) Some VMap g by simp
    qed (use Some in simp)
  qed (use 2 in simp)
qed simp

abbreviation opt_ok :: "'a val option \<Rightarrow> bool" where
  "opt_ok t \<equiv> pred_option val_ok t"

lemma update_in_correct:
  assumes "opt_ok t" "opt_ok r" "\<And>u. opt_ok u \<Longrightarrow> opt_ok (f u)" "\<not> blocked t p"
  shows "\<exists>x. update_in t p r f = Inr x \<and> opt_ok x \<and>
    path_get x p = (let c = path_get t p; u = (if c = None then r else c) in if f u = u then c else f u) \<and>
    (\<forall>q. \<not> prefix p q \<and> \<not> prefix q p \<longrightarrow> path_get x q = path_get t q)"
  using assms
proof (induction t p r f rule: update_in.induct)
  case (1 t r f)
  then show ?case by (auto simp: Let_def)
next
  case (2 t l p r f)
  show ?case
  proof (cases t)
    case None
    from 2(1) [OF None] 2(4-) obtain x where
      "update_in None p r f = Inr x" "opt_ok x"
      "path_get x p = (if f r = r then None else f r)"
      "\<forall>q. \<not> prefix p q \<and> \<not> prefix q p \<longrightarrow> path_get x q = None"
      by (auto simp: Let_def)
    note x = this
    define y where "y = (case x of None \<Rightarrow> None | Some v \<Rightarrow> Some (VMap (map_set Xe l v)))"
    have upd: "update_in t (l # p) r f = Inr y" using x None by (simp add: y_def)
    have y: "path_get y (k # q) = (if k = l then path_get x q else None)" for k q
      by (cases x) (simp_all add: y_def hamt.laws)
    have "opt_ok y" using x(2) by (cases x) (auto simp: y_def hamt.laws)
    moreover have "path_get y q = path_get t q" if "\<not> prefix (l # p) q \<and> \<not> prefix q (l # p)" for q
      using that x(4) None by (cases q) (auto simp: y)
    ultimately show ?thesis using upd x(3) None by (simp add: y Let_def)
  next
    case (Some v)
    then obtain m where v: "v = VMap m" using 2 by (cases v) auto
    have m: "map_ok m" and vals: "\<And>k x. map_abs m k = Some x \<Longrightarrow> val_ok x" using 2 Some v by auto
    define c where "c = map_abs m l"
    have g: "map_get m l None = Inr c" using m by (auto simp: hamt.get_abs c_def split: option.split)
    have "opt_ok c" using vals by (cases c) (auto simp: c_def)
    with 2(2) [OF Some v, of c] 2(4-) Some v obtain x where x:
      "update_in c p r f = Inr x" "opt_ok x"
      "path_get x p = (let d = path_get c p; u = (if d = None then r else d) in if f u = u then d else f u)"
      "\<forall>q. \<not> prefix p q \<and> \<not> prefix q p \<longrightarrow> path_get x q = path_get c q"
      by (auto simp: c_def)
    define m' where "m' = (if x = c then m else case x of None \<Rightarrow> map_remove m l | Some v \<Rightarrow> map_set m l v)"
    have upd: "update_in t (l # p) r f = Inr (Some (VMap m'))"
      using x(1) g Some v by (auto simp: m'_def split: option.split)
    have m': "map_ok m'" "map_abs m' = (map_abs m)(l := x)"
      using m by (auto simp: m'_def c_def hamt.laws split: option.split)
    have "opt_ok (Some (VMap m'))" using m' x(2) vals by (auto split: if_splits)
    moreover have "path_get (Some (VMap m')) q = path_get t q" if "\<not> prefix (l # p) q \<and> \<not> prefix q (l # p)" for q
      using that x(4) Some v m' by (cases q) (auto simp: c_def)
    ultimately show ?thesis using upd x(3) Some v m' by (simp add: c_def)
  qed
qed

section \<open>Properties of the map\<close>

lemma Qe_history:
  "map_ok (fold (\<lambda>(k, i) m. Qe m k i) ops Xe) \<and>
   map_abs (fold (\<lambda>(k, i) m. Qe m k i) ops Xe) = fold (\<lambda>(k, i) M. M(k := i)) ops Map.empty"
proof (induction ops rule: rev_induct)
  case (snoc x ops)
  then show ?case by (cases x) (simp add: Qe_correct)
qed (simp add: hamt.laws)

text \<open>
  C1: after any history of \<open>set\<close> and \<open>remove\<close> calls on the empty map, the hash trie is the partial
  function those calls describe: \<open>get\<close> returns the last value set for a key (or the default, and
  never fails), \<open>size\<close> counts the keys, and the stored entries are the graph of the function, each key
  once. This holds for every hash, collisions included.
\<close>

theorem map_history_refines:
  "let m = fold (\<lambda>(k, i) m. Qe m k i) ops Xe; M = fold (\<lambda>(k, i) M. M(k := i)) ops Map.empty
   in map_get m q d = Inr (case M q of None \<Rightarrow> d | Some x \<Rightarrow> Some x) \<and>
      map_size m = int (card (dom M)) \<and> map_of (map_entries m) = M \<and> distinct (map fst (map_entries m))"
  using Qe_history [of ops] map_get_correct map_size_card map_ok_distinct
  unfolding Let_def by (metis map_abs_def)

text \<open>
  C19: every update keeps the shape of the hash trie: packed nodes hold at most sixteen children, one
  for each set bit of the bitmap and under the five-bit field of their hashes, a node with a single
  child never holds a leaf, full nodes keep eight children or more and an exact count, collision
  nodes have two entries or more of one hash, and the root array has one to eight entries.
\<close>

theorem Qe_keeps_shape:
  assumes "map_ok m"
  shows "map_ok (Qe m k i)"
  using assms by (rule Qe_correct)

theorem Qe_keeps_shape_witness:
  "map_ok (Qe (Immap 1 (Some (Ve [(KNum 3, KNull)]))) (KStr (str ''a'')) (Some KNull))"
proof -
  have "map_ok (Immap 1 (Some (Ve [(KNum 3, KNull)])))"
    by (simp add: map_ok_def map_entries_def lt_max_def m_size_def)
  then show ?thesis by (rule Qe_keeps_shape)
qed



text \<open>
  C25: the iterator delivers every entry of the map once, in trie order or in reverse, and after that
  reports that it is done, however often it is called.
\<close>

theorem iterator_delivers_entries:
  "drain t (length (map_entries m) + n) (Ke m) =
     map Some (if t then rev (map_entries m) else map_entries m) @ replicate n None"
  by (simp add: drain_pending pending_Ke)

text \<open>
  \<open>__iterate\<close> with a callback that never stops visits the entries in the order of the iterator,
  and returns their number.
\<close>

theorem map_iterate_visits_all:
  "map_iterate (\<lambda>s v k. (f k v s, True)) t m s =
     (fold (\<lambda>(k, v). f k v) (if t then rev (map_entries m) else map_entries m) s, length (map_entries m))"
proof -
  have "iter (\<lambda>(s, r) en. let (s1, ok) = (f (fst en) (snd en) s, True) in ((s1, r + 1), ok)) es (s, n) =
      ((fold (\<lambda>(k, v). f k v) es s, n + length es), True)" for es s n
    by (induction es arbitrary: s n) auto
  then show ?thesis
    by (simp add: map_iterate_def map_entries_def root_iterate_entries split: option.split)
qed

text \<open>
  C26: \<open>merge\<close> and \<open>mergeWith\<close>, over maps and over sequences without repeated keys: the result is the
  map with each entry of each source put in turn, the merging function resolving conflicts; the short
  cuts for empty sources and for an empty map do not show.
\<close>

theorem merge_correct:
  assumes "map_ok e" "\<forall>s\<in>set n. case s of SMap m \<Rightarrow> map_ok m | SSeq es \<Rightarrow> distinct (map fst es)"
  shows "\<exists>m. at e t n = Inr m \<and> map_ok m \<and>
    map_abs m = fold (merge_entry t) (concat (map source_entries n)) (map_abs e)"
proof -
  let ?n = "filter (\<lambda>s. src_size s \<noteq> 0) n"
  have "source_entries s = []" if "s \<in> set n" "src_size s = 0" for s
  proof -
    have "case s of SMap m \<Rightarrow> map_ok m | SSeq es \<Rightarrow> distinct (map fst es)" using that assms(2) by blast
    with that(2) show ?thesis by (cases s) (auto simp: map_ok_def)
  qed
  then have c: "concat (map source_entries ?n) = concat (map source_entries n)"
    by (induction n) auto
  consider (none) "?n = []" | (fold) "?n \<noteq> []" "map_size e \<noteq> 0 \<or> length ?n \<noteq> 1"
    | (one) s where "?n = [s]" "map_size e = 0" by (auto simp: length_Suc_conv)
  then show ?thesis
  proof cases
    case none
    then show ?thesis using assms(1) unfolding c [symmetric] by (simp add: at_def Let_def)
  next
    case fold
    then show ?thesis using js_fold_at_correct [OF assms(1), of t "concat (map source_entries ?n)"] c
      by (simp add: at_def Let_def)
  next
    case one
    have "s \<in> set ?n" using one by simp
    then have s: "case s of SMap m \<Rightarrow> map_ok m | SSeq es \<Rightarrow> distinct (map fst es)" using assms(2) by auto
    have e: "map_abs e = Map.empty"
      using one(2) hamt.size_abs [OF assms(1)] by (auto simp: card_eq_0_iff)
    have d: "distinct (map fst (source_entries s))" using s by (cases s) (auto dest: map_ok_distinct)
    have "map_abs (Ue (Some s)) = map_of (source_entries s)" "map_ok (Ue (Some s))"
      using Ue_correct [of "Some s"] s map_of_eq_iff_set [of "rev (source_entries s)" "source_entries s"] d
      by (cases s; simp add: map_abs_def rev_map [symmetric])+
    then show ?thesis using one c fold_merge_absent [OF d, of "map_abs e" t] e
      by (simp add: at_def Let_def)
  qed
qed

theorem merge_correct_witness:
  "\<exists>m. at (Xe :: key immap) None [SSeq [(KNum 1, KNull)]] = Inr m \<and> map_ok m \<and>
    map_abs m = fold (merge_entry None) (concat (map source_entries [SSeq [(KNum 1, KNull)]])) (map_abs Xe)"
  by (rule merge_correct) (simp_all add: hamt.invar_empty)

text \<open>
  C23: a nested \<open>setIn\<close> fails exactly when the path runs through a value that is not a map;
  otherwise \<open>getIn\<close> finds the new value at the path and every path that leaves it elsewhere leads to
  the value it led to before.
\<close>

theorem setIn_getIn:
  assumes "val_ok m" "val_ok v"
  shows "if blocked (Some m) p then \<exists>e. setIn m p v = Inl e
    else \<exists>m'. setIn m p v = Inr (Some m') \<and> val_ok m' \<and> getIn m' p d = Inr (Some v) \<and>
      (\<forall>q. \<not> prefix p q \<and> \<not> prefix q p \<longrightarrow> getIn m' q d = getIn m q d)"
proof (cases "blocked (Some m) p")
  case True
  then show ?thesis using update_in_blocked [of "Some m" p] assms(1) by (simp add: setIn_def)
next
  case False
  from update_in_correct [of "Some m" None "\<lambda>_. Some v" p] assms False obtain x where
    x: "setIn m p v = Inr x" "opt_ok x" "path_get x p = Some v"
      "\<forall>q. \<not> prefix p q \<and> \<not> prefix q p \<longrightarrow> path_get x q = path_get (Some m) q"
    by (auto simp: setIn_def Let_def split: if_splits)
  then obtain m' where "x = Some m'" by (cases x) auto
  with x assms False show ?thesis by (simp add: getIn_correct)
qed

theorem setIn_getIn_witness:
  "if blocked (Some (VMap Xe :: bool val)) [KNum 1, KNull] then \<exists>e. setIn (VMap Xe) [KNum 1, KNull] (Atom True) = Inl e
    else \<exists>m'. setIn (VMap Xe) [KNum 1, KNull] (Atom True) = Inr (Some m') \<and> val_ok m' \<and>
      getIn m' [KNum 1, KNull] None = Inr (Some (Atom True)) \<and>
      (\<forall>q. \<not> prefix [KNum 1, KNull] q \<and> \<not> prefix q [KNum 1, KNull] \<longrightarrow> getIn m' q None = getIn (VMap Xe) q None)"
  by (rule setIn_getIn) (simp_all add: hamt.laws val_ok.intros)

text \<open>
  C27: after \<open>deleteIn\<close> along a path that meets only maps, nothing is left at the path and the other
  paths are as before.
\<close>

theorem deleteIn_removes:
  assumes "val_ok m" "val_ok u" "\<not> blocked (Some m) p" "p \<noteq> []"
  shows "\<exists>m'. deleteIn m p u = Inr (Some m') \<and> val_ok m' \<and> hasIn m' p = Inr False \<and>
      (\<forall>q. \<not> prefix p q \<and> \<not> prefix q p \<longrightarrow> getIn m' q d = getIn m q d)"
proof -
  from update_in_correct [of "Some m" "Some u" "\<lambda>_. None" p] assms obtain x where
    x: "deleteIn m p u = Inr x" "opt_ok x" "path_get x p = None"
      "\<forall>q. \<not> prefix p q \<and> \<not> prefix q p \<longrightarrow> path_get x q = path_get (Some m) q"
    by (auto simp: deleteIn_def Let_def split: if_splits)
  have "x \<noteq> None" using x(1) assms(3,4)
    by (cases p; cases m) (auto simp: deleteIn_def js_bind_eq_Inr split: option.splits if_splits)
  then obtain m' where "x = Some m'" by auto
  with x assms show ?thesis by (simp add: getIn_correct hasIn_def)
qed

theorem deleteIn_removes_witness:
  "\<exists>m'. deleteIn (VMap Xe) [KNum 1] (Atom False) = Inr (Some m') \<and> val_ok m' \<and> hasIn m' [KNum 1] = Inr False \<and>
      (\<forall>q. \<not> prefix [KNum 1] q \<and> \<not> prefix q [KNum 1] \<longrightarrow> getIn m' q None = getIn (VMap Xe) q None)"
  by (rule deleteIn_removes) (simp_all add: hamt.laws val_ok.intros)

end
