(* ===== verification/Imm_List.thy ===== *)
theory Imm_List
  imports Imm_Hash
begin

text \<open>
  The persistent list of the Immutable module: \<^verbatim>\<open>List\<close> (\<open>pt\<close>), a trie of arrays of at most 32
  items with a separate tail, over a window from \<open>_origin\<close> to \<open>_capacity\<close>.

  The array of a node (\<open>mt\<close>) holds items: a hole, a value, or a node below. A value \<open>undefined\<close> reads
  like a hole and is one here. Sizes stay below \<open>2 ^ 30\<close>, where the conversions to 32-bit integers
  in the code (\<open>|= 0\<close>, \<open><<\<close>) change nothing. As for the map, \<open>ownerID\<close> only decides between copying
  and writing in place.
\<close>

section \<open>Indices and windows\<close>

text \<open>Shared helpers: \<open>k\<close> resolves a negative index; \<open>O\<close>, \<open>P\<close>, \<open>T\<close> resolve the bounds of a slice.\<close>

definition wrap_index :: "int \<Rightarrow> int \<Rightarrow> int" where
  "wrap_index n t = (if t < 0 then n + t else t)"

definition whole_slice :: "int \<Rightarrow> int option \<Rightarrow> int \<Rightarrow> bool" where
  "whole_slice e t n \<longleftrightarrow> (e = 0 \<or> e \<le> - n) \<and> (case t of None \<Rightarrow> True | Some x \<Rightarrow> x \<ge> n)"

definition resolve_index :: "int option \<Rightarrow> int \<Rightarrow> int \<Rightarrow> int" where
  "resolve_index e t n =
     (case e of None \<Rightarrow> n | Some x \<Rightarrow> if x < 0 then max 0 (t + x) else min t x)"

definition resolve_begin :: "int option \<Rightarrow> int \<Rightarrow> int" where
  "resolve_begin e t = resolve_index e t 0"

definition resolve_end :: "int option \<Rightarrow> int \<Rightarrow> int" where
  "resolve_end e t = resolve_index e t t"

text \<open>\<open>x >>> n & g\<close>\<close>

definition digit :: "int \<Rightarrow> nat \<Rightarrow> nat" where
  "digit x n = nat (drop_bit n (take_bit 32 x) mod 32)"

text \<open>\<open>Ot\<close>: where the tail begins.\<close>

definition Ot :: "int \<Rightarrow> int" where
  "Ot e = (if e < 32 then 0 else (e - 1) div 32 * 32)"

section \<open>Nodes\<close>

datatype 'v item = Undef | Val 'v | Sub "'v item list"

type_synonym 'v vnode = "'v item list"

text \<open>Reading an array past its end gives a hole; writing there fills the gap with holes.\<close>

definition item_at :: "'v vnode \<Rightarrow> nat \<Rightarrow> 'v item" where
  "item_at xs i = (if i < length xs then xs ! i else Undef)"

definition item_set :: "'v vnode \<Rightarrow> nat \<Rightarrow> 'v item \<Rightarrow> 'v vnode" where
  "item_set xs i x = (if i < length xs then xs[i := x] else xs @ replicate (i - length xs) Undef @ [x])"

fun sub :: "'v item \<Rightarrow> 'v vnode option" where
  "sub (Sub x) = Some x"
| "sub _ = None"

fun of_sub :: "'v vnode option \<Rightarrow> 'v item" where
  "of_sub (Some x) = Sub x"
| "of_sub None = Undef"

lemma size_sub_less [termination_simp]: "sub (item_at xs i) = Some y \<Longrightarrow> size_list size y < size_list size xs"
proof -
  assume "sub (item_at xs i) = Some y"
  then have "Sub y \<in> set xs" by (cases "item_at xs i") (auto simp: item_at_def split: if_splits dest: nth_mem)
  then have "size (Sub y) \<le> size_list size xs" by (rule size_list_estimation') simp
  then show ?thesis by simp
qed

text \<open>\<open>St\<close>: a copy of a node, or a new one.\<close>

definition St :: "'v vnode option \<Rightarrow> 'v vnode" where
  "St e = (case e of None \<Rightarrow> [] | Some a \<Rightarrow> a)"

text \<open>\<open>xt\<close>: the node with the item at an index written, and whether anything was altered.\<close>

function xt :: "'v vnode option \<Rightarrow> nat \<Rightarrow> int \<Rightarrow> 'v item \<Rightarrow> 'v vnode option \<times> bool" where
  "xt e n r x =
     (let u = digit r n; s = (case e of None \<Rightarrow> False | Some a \<Rightarrow> u < length a)
      in if \<not> s \<and> x = Undef then (e, False)
         else if n > 0 then
           (let l = sub (item_at (St e) u); (c, i) = xt l (n - 5) r x
            in if c = l then (e, i) else (Some (item_set (St e) u (of_sub c)), i))
         else if s \<and> item_at (St e) u = x then (e, False)
         else (Some (if x = Undef \<and> u = length (St e) - 1 then butlast (St e) else item_set (St e) u x), True))"
  by pat_completeness auto
termination by (relation "measure (\<lambda>(e, n, r, x). n)") auto

declare xt.simps [simp del]

text \<open>\<open>removeBefore\<close> and \<open>removeAfter\<close>, with the conditions as the code parses them.\<close>

function removeBefore :: "'v vnode \<Rightarrow> nat \<Rightarrow> int \<Rightarrow> 'v vnode" where
  "removeBefore arr t n =
     (if (if n = int t then (1 :: int) * 2 ^ t \<noteq> 0 else arr = []) then arr
      else let r = digit n t
           in if r \<ge> length arr then []
              else let a = (if t > 0 then sub (arr ! r) else None);
                       x = (if t > 0 then map_option (\<lambda>y. removeBefore y (t - 5) n) a else None)
                   in if t > 0 \<and> x = a \<and> r = 0 then arr
                      else if r = 0 \<and> x = None then arr
                      else let u = replicate r Undef @ drop r arr
                           in case x of None \<Rightarrow> u | Some y \<Rightarrow> u[r := Sub y])"
  by pat_completeness auto
termination by (relation "measure (\<lambda>(arr, t, n). t)") auto

declare removeBefore.simps [simp del]

function removeAfter :: "'v vnode \<Rightarrow> nat \<Rightarrow> int \<Rightarrow> 'v vnode" where
  "removeAfter arr t n =
     (if n = (if t \<noteq> 0 then 2 ^ t else 0) \<or> arr = [] then arr
      else let k = digit (n - 1) t
           in if k \<ge> length arr then arr
              else let i = (if t > 0 then sub (arr ! k) else None);
                       r = (if t > 0 then map_option (\<lambda>y. removeAfter y (t - 5) n) i else None)
                   in if t > 0 \<and> r = i \<and> k = length arr - 1 then arr
                      else let a = take (k + 1) arr
                           in case r of None \<Rightarrow> a | Some y \<Rightarrow> a[k := Sub y])"
  by pat_completeness auto
termination by (relation "measure (\<lambda>(arr, t, n). t)") auto

declare removeAfter.simps [simp del]

section \<open>The list\<close>

record 'v imlist =
  origin :: int
  capacity :: int
  level :: nat
  list_root :: "'v vnode option"
  tail :: "'v vnode option"

definition list_size :: "'v imlist \<Rightarrow> int" where
  "list_size e = capacity e - origin e"

text \<open>\<open>wt\<close> makes a list, \<open>Et\<close> is the empty one.\<close>

definition wt :: "int \<Rightarrow> int \<Rightarrow> nat \<Rightarrow> 'v vnode option \<Rightarrow> 'v vnode option \<Rightarrow> 'v imlist" where
  "wt e t n r k = \<lparr>origin = e, capacity = t, level = n, list_root = r, tail = k\<rparr>"

definition Et :: "'v imlist" where
  "Et = wt 0 0 5 None None"

function leaf_for :: "'v vnode option \<Rightarrow> nat \<Rightarrow> int \<Rightarrow> 'v vnode option" where
  "leaf_for n r t =
     (case n of
        None \<Rightarrow> None
      | Some a \<Rightarrow> if r > 0 then leaf_for (sub (item_at a (digit t r))) (r - 5) t else n)"
  by pat_completeness auto
termination by (relation "measure (\<lambda>(n, r, t). r)") auto

declare leaf_for.simps [simp del]

text \<open>\<open>Ct\<close>: the leaf, or the tail, that holds an index.\<close>

definition Ct :: "'v imlist \<Rightarrow> int \<Rightarrow> 'v vnode option" where
  "Ct e t =
     (if t \<ge> Ot (capacity e) then tail e
      else if t < 2 ^ (level e + 5) then leaf_for (list_root e) (level e) t
      else None)"

definition list_get :: "'v imlist \<Rightarrow> int \<Rightarrow> 'v item \<Rightarrow> 'v item" where
  "list_get l e0 t =
     (let e = wrap_index (list_size l) e0
      in if e \<ge> 0 \<and> e < list_size l then
           (let e1 = e + origin l
            in case Ct l e1 of None \<Rightarrow> Undef | Some n \<Rightarrow> item_at n (digit e1 0))
         else t)"

definition list_clear :: "'v imlist \<Rightarrow> 'v imlist" where
  "list_clear l = (if list_size l = 0 then l else Et)"

text \<open>
  \<open>kt\<close>, the change of the window: raising the root until the new origin is not negative, then
  until the new tail is past the trie.
\<close>

definition wrap_right :: "'v vnode option \<Rightarrow> 'v vnode" where
  "wrap_right l = (case l of Some (x # xs) \<Rightarrow> [Undef, Sub (x # xs)] | _ \<Rightarrow> [])"

definition wrap_left :: "'v vnode option \<Rightarrow> 'v vnode" where
  "wrap_left l = (case l of Some (x # xs) \<Rightarrow> [Sub (x # xs)] | _ \<Rightarrow> [])"

function raise_right :: "int \<Rightarrow> int \<Rightarrow> nat \<Rightarrow> 'v vnode option \<Rightarrow> int \<times> nat \<times> 'v vnode option" where
  "raise_right a c s l =
     (if a + c < 0 then raise_right a (c + 2 ^ (s + 5)) (s + 5) (Some (wrap_right l)) else (c, s, l))"
  by pat_completeness auto
termination
  by (relation "measure (\<lambda>(a, c, s, l). nat (- (a + c)))") auto

lemma shift_bound: "(2::int) ^ (s + 5) \<le> p \<Longrightarrow> int s < p"
proof -
  assume p: "(2::int) ^ (s + 5) \<le> p"
  have "int s < (2 :: int) ^ s" using less_exp [of s] by (metis of_nat_less_iff of_nat_numeral of_nat_power)
  also have "(2::int) ^ s \<le> 2 ^ (s + 5)" by (rule power_increasing) simp_all
  finally show "int s < p" using p by linarith
qed

function raise_left :: "int \<Rightarrow> nat \<Rightarrow> 'v vnode option \<Rightarrow> nat \<times> 'v vnode option" where
  "raise_left p s l = (if p \<ge> 2 ^ (s + 5) then raise_left p (s + 5) (Some (wrap_left l)) else (s, l))"
  by pat_completeness auto
termination
  by (relation "measure (\<lambda>(p, s, l). nat (p - int s))") (auto dest: shift_bound)

declare raise_right.simps [simp del] raise_left.simps [simp del]

text \<open>The old tail becomes a leaf of the trie: \<open>y\<close> runs from the level of the root down to 5.\<close>

function push_tail :: "'v vnode option \<Rightarrow> nat \<Rightarrow> int \<Rightarrow> 'v vnode \<Rightarrow> 'v vnode" where
  "push_tail m y f d =
     (if y > 5 then item_set (St m) (digit f y) (Sub (push_tail (sub (item_at (St m) (digit f y))) (y - 5) f d))
      else item_set (St m) (digit f 5) (Sub d))"
  by pat_completeness auto
termination by (relation "measure (\<lambda>(m, y, f, d). y)") auto

declare push_tail.simps [simp del]

text \<open>Dropping levels above the window; the shift count is taken modulo 32, as \<open>>>>\<close> does.\<close>

function lower_root :: "int \<Rightarrow> int \<Rightarrow> int \<Rightarrow> int \<Rightarrow> 'v vnode option \<Rightarrow> int \<times> int \<times> 'v vnode option" where
  "lower_root a p c s l =
     (case l of
        None \<Rightarrow> (c, s, None)
      | Some arr \<Rightarrow>
          (let d = digit a (nat (s mod 32))
           in if d \<noteq> digit p (nat (s mod 32)) then (c, s, l)
              else lower_root a p (if d \<noteq> 0 then c + 2 ^ nat s * int d else c) (s - 5) (sub (item_at arr d))))"
  by pat_completeness auto
termination
  by (relation "measure (\<lambda>(a, p, c, s, l). case l of None \<Rightarrow> 0 | Some arr \<Rightarrow> Suc (size_list size arr))")
    (auto split: option.split intro: size_sub_less)

declare lower_root.simps [simp del]

definition kt :: "'v imlist \<Rightarrow> int \<Rightarrow> int option \<Rightarrow> 'v imlist" where
  "kt e t n =
     (let o0 = origin e; i0 = capacity e; a0 = o0 + t;
          u0 = (case n of None \<Rightarrow> i0 | Some x \<Rightarrow> if x < 0 then i0 + x else o0 + x)
      in if a0 = o0 \<and> u0 = i0 then e
         else if a0 \<ge> u0 then list_clear e
         else
           let (c, s1, l1) = raise_right a0 0 (level e) (list_root e);
               a = a0 + c; ori = o0 + c; u = u0 + c; i = i0 + c;
               f = Ot i; p = Ot u;
               (s2, l2) = raise_left p s1 l1;
               d = tail e;
               h = (if p < f then Ct e (u - 1) else if p > f then Some [] else d);
               l3 = (case d of
                       Some (x # xs) \<Rightarrow> if p > f \<and> a < i then Some (push_tail l2 s2 f (x # xs)) else l2
                     | _ \<Rightarrow> l2);
               h1 = (if u < i then map_option (\<lambda>y. removeAfter y 0 u) h else h)
           in if a \<ge> p then
                wt (a - p) (u - p) 5 None (map_option (\<lambda>y. removeBefore y 0 (a - p)) h1)
              else if a > ori \<or> p < f then
                (let (c1, s3, l4) = lower_root a p 0 (int s2) l3;
                     l5 = (if a > ori then map_option (\<lambda>y. removeBefore y (nat s3) (a - c1)) l4 else l4);
                     l6 = (if p < f then map_option (\<lambda>y. removeAfter y (nat s3) (p - c1)) l5 else l5)
                 in wt (a - c1) (u - c1) (nat s3) l6 h1)
              else wt a u s2 l3 h1)"

definition list_put :: "'v imlist \<Rightarrow> int \<Rightarrow> 'v item \<Rightarrow> 'v imlist" where
  "list_put e t n =
     (let t1 = t + origin e
      in if t1 \<ge> Ot (capacity e) then
           (let (r, i) = xt (tail e) 0 t1 n in if i then e\<lparr>tail := r\<rparr> else e)
         else
           (let (r, i) = xt (list_root e) (level e) t1 n in if i then e\<lparr>list_root := r\<rparr> else e))"

text \<open>\<open>set\<close>: an index outside the list moves the window first, and the inner call is in range.\<close>

definition list_set :: "'v imlist \<Rightarrow> int \<Rightarrow> 'v item \<Rightarrow> 'v imlist" where
  "list_set e t0 n =
     (let t = wrap_index (list_size e) t0
      in if t \<ge> list_size e then list_put (kt e 0 (Some (t + 1))) t n
         else if t < 0 then list_put (kt e t None) 0 n
         else list_put e t n)"

definition push :: "'v imlist \<Rightarrow> 'v item list \<Rightarrow> 'v imlist" where
  "push l e =
     (let t = list_size l
      in fold (\<lambda>r n. list_set n (t + int r) (e ! r)) [0..<length e] (kt l 0 (Some (t + int (length e)))))"

definition pop :: "'v imlist \<Rightarrow> 'v imlist" where
  "pop l = kt l 0 (Some (-1))"

definition unshift :: "'v imlist \<Rightarrow> 'v item list \<Rightarrow> 'v imlist" where
  "unshift l e = fold (\<lambda>r n. list_set n (int r) (e ! r)) [0..<length e] (kt l (- int (length e)) None)"

definition shift :: "'v imlist \<Rightarrow> 'v imlist" where
  "shift l = kt l 1 None"

definition setSize :: "'v imlist \<Rightarrow> int \<Rightarrow> 'v imlist" where
  "setSize l e = kt l 0 (Some e)"

definition list_slice :: "'v imlist \<Rightarrow> int \<Rightarrow> int option \<Rightarrow> 'v imlist" where
  "list_slice l e t =
     (let n = list_size l
      in if whole_slice e t n then l else kt l (resolve_begin (Some e) n) (Some (resolve_end t n)))"

text \<open>\<open>pt\<close>: a list from the values of an iterable.\<close>

definition pt :: "'v item list \<Rightarrow> 'v imlist" where
  "pt xs =
     (let r = length xs
      in if r = 0 then Et
         else if r < 32 then wt 0 (int r) 5 None (Some xs)
         else fold (\<lambda>n e. list_set e (int n) (xs ! n)) [0..<r] (setSize Et (int r)))"

section \<open>Iteration\<close>

text \<open>
  \<open>_t\<close>: the items in the order its closures deliver them, backwards if \<open>t\<close>. A closure counts one
  end of a range towards the other and stops when they are equal; if they have passed each other
  already it never does.
\<close>

definition in_order :: "bool \<Rightarrow> 'a list \<Rightarrow> 'a list" where
  "in_order t xs = (if t then rev xs else xs)"

function list_walk :: "'v imlist \<Rightarrow> bool \<Rightarrow> 'v vnode option \<Rightarrow> nat \<Rightarrow> int \<Rightarrow> 'v item list js" where
  "list_walk l t e u i =
     (if u = 0 then
        (let a = St (if i = Ot (capacity l) then tail l else e);
             s = (if i > origin l then 0 else origin l - i);
             k = min 32 (capacity l - i)
         in if s \<le> k then Inr (map (\<lambda>j. item_at a (nat j)) (in_order t [s..k - 1])) else Inl NeverReturns)
      else
        (let s = (if i > origin l then 0 else (origin l - i) div 2 ^ u);
             c = min 32 (1 + (capacity l - i) div 2 ^ u)
         in if s \<le> c then
              js_concat (map (\<lambda>n. list_walk l t (sub (item_at (St e) (nat n))) (u - 5) (i + n * 2 ^ u)) (in_order t [s..c - 1]))
            else Inl NeverReturns))"
  by pat_completeness auto
termination by (relation "measure (\<lambda>(l, t, e, u, i). u)") auto

declare list_walk.simps [simp del]

definition list_items :: "'v imlist \<Rightarrow> bool \<Rightarrow> 'v item list js" where
  "list_items l t = list_walk l t (list_root l) (level l) 0"

text \<open>\<open>__iterate\<close>: calls back with value and index until the callback returns \<open>false\<close>; the number of calls.\<close>

fun iter_index :: "('s \<Rightarrow> 'a \<Rightarrow> int \<Rightarrow> 's \<times> bool) \<Rightarrow> 'a list \<Rightarrow> 's \<Rightarrow> int \<Rightarrow> 's \<times> int" where
  "iter_index e [] s r = (s, r)"
| "iter_index e (n # xs) s r = (let (s1, ok) = e s n r in if ok then iter_index e xs s1 (r + 1) else (s1, r + 1))"

definition list_iterate :: "('s \<Rightarrow> 'v item \<Rightarrow> int \<Rightarrow> 's \<times> bool) \<Rightarrow> bool \<Rightarrow> 'v imlist \<Rightarrow> 's \<Rightarrow> ('s \<times> int) js" where
  "list_iterate e t l s = js_bind (list_items l t) (\<lambda>xs. Inr (iter_index e xs s 0))"

end
