(* ===== verification/Imm_List_Trie.thy ===== *)
theory Imm_List_Trie
  imports Imm_List
begin

text \<open>
  The list as a sequence of items: what the trie holds at an index, the invariant that the window
  relies on, and the correctness of reading and of writing inside the window.
\<close>

section \<open>Multiples of 32\<close>

lemma mod32_unique: "p mod 32 = q mod 32 \<Longrightarrow> \<bar>p - q\<bar> < 32 \<Longrightarrow> p = (q :: int)"
proof -
  assume "p mod 32 = q mod 32" and lt: "\<bar>p - q\<bar> < 32"
  then obtain k where k: "p - q = 32 * k" by (metis dvdE mod_eq_dvd_iff)
  then have "k < 1" "- 1 < k" using lt by linarith+
  then show "p = q" using k by simp
qed

lemma mod32_next: "a mod 32 = 0 \<Longrightarrow> b mod 32 = 0 \<Longrightarrow> a < b \<Longrightarrow> a + 32 \<le> (b :: int)"
proof -
  assume "a mod 32 = 0" "b mod 32 = 0" "a < b"
  moreover then obtain x y where "a = 32 * x" "b = 32 * y" by (metis mult_div_mod_eq add_0_right)
  ultimately show "a + 32 \<le> b" by simp
qed

lemma mod32_offset: "f mod 32 = 0 \<Longrightarrow> f \<le> q \<Longrightarrow> q < f + 32 \<Longrightarrow> q mod 32 = q - (f :: int)"
proof -
  assume "f mod 32 = 0" and q: "f \<le> q" "q < f + 32"
  then obtain x where x: "f = 32 * x" by (metis mult_div_mod_eq add_0_right)
  have "q mod 32 = (q - f + 32 * x) mod 32" by (simp add: x)
  also have "\<dots> = q - f" using q by (simp only: mod_mult_self2) (simp add: mod_pos_pos_trivial)
  finally show "q mod 32 = q - f" .
qed

section \<open>Digits\<close>

lemma digit_less [simp]: "digit x n < 32"
  by (simp add: digit_def nat_less_iff)

lemma bit_digit: "0 \<le> x \<Longrightarrow> x < 2 ^ 32 \<Longrightarrow> bit (digit x n) i \<longleftrightarrow> i < 5 \<and> bit x (n + i)"
proof -
  assume x: "0 \<le> x" "x < 2 ^ 32"
  have "drop_bit n (take_bit 32 x) mod 32 = take_bit 5 (drop_bit n x)"
    using x by (simp add: take_bit_eq_mod)
  then show ?thesis
    using x by (simp add: digit_def bit_nat_iff bit_take_bit_iff bit_drop_bit_eq)
qed

lemma digits_inj:
  assumes q: "0 \<le> q" "q < 2 ^ (5 * k + 5)" "q < 2 ^ 32" and r: "0 \<le> r" "r < 2 ^ (5 * k + 5)" "r < 2 ^ 32"
    and d: "\<And>j. j \<le> k \<Longrightarrow> digit q (5 * j) = digit r (5 * j)"
  shows "q = (r :: int)"
proof (rule bit_eqI)
  fix i :: nat
  show "bit q i = bit r i"
  proof (cases "i < 5 * k + 5")
    case True
    then have "i div 5 \<le> k" by (simp add: div_le_mono less_Suc_eq_le [symmetric] less_mult_imp_div_less)
    then have "bit (digit q (5 * (i div 5))) (i mod 5) = bit (digit r (5 * (i div 5))) (i mod 5)" using d by simp
    then show ?thesis using q r by (simp add: bit_digit)
  next
    case False
    have "\<not> bit x i" if "0 \<le> x" "x < 2 ^ (5 * k + 5)" for x :: int
    proof -
      have "(2::int) ^ (5 * k + 5) \<le> 2 ^ i" using False by (intro power_increasing) simp_all
      with that have "x < 2 ^ i" by linarith
      with that show ?thesis by (simp add: bit_iff_odd)
    qed
    then show ?thesis using q r by blast
  qed
qed

lemma digit_0: "0 \<le> x \<Longrightarrow> x < 2 ^ 32 \<Longrightarrow> int (digit x 0) = x mod 32"
  by (simp add: digit_def take_bit_eq_mod)

lemma digit_from:
  assumes "p mod 32 = 0" "0 \<le> p" "p \<le> q" "q < p + 32" "q < 2 ^ 32"
  shows "int (digit q 0) = q - p"
  using digit_0 [of q] mod32_offset [OF assms(1,3,4)] assms by simp

lemma digit_small: "0 \<le> x \<Longrightarrow> x < 2 ^ n \<Longrightarrow> x < 2 ^ 32 \<Longrightarrow> digit x n = 0"
  by (simp add: digit_def take_bit_eq_mod drop_bit_eq_div)

section \<open>Arrays of items\<close>

lemma item_at_set [simp]: "item_at (item_set xs i x) j = (if j = i then x else item_at xs j)"
  by (auto simp: item_at_def item_set_def nth_append nth_Cons' less_Suc_eq)

lemma item_at_Nil [simp]: "item_at [] j = Undef"
  by (simp add: item_at_def)

lemma item_at_beyond [simp]: "length xs \<le> j \<Longrightarrow> item_at xs j = Undef"
  by (simp add: item_at_def)

lemma item_at_butlast: "item_at (butlast xs) j = (if j = length xs - 1 then Undef else item_at xs j)"
  by (auto simp: item_at_def nth_butlast)

lemma sub_of_sub [simp]: "sub (of_sub c) = c"
  by (cases c) simp_all

section \<open>Reading the trie\<close>

definition vget :: "'v vnode option \<Rightarrow> nat \<Rightarrow> int \<Rightarrow> 'v item" where
  "vget n r t = (case leaf_for n r t of None \<Rightarrow> Undef | Some a \<Rightarrow> item_at a (digit t 0))"

lemma vget_0: "vget n 0 t = item_at (St n) (digit t 0)"
  by (cases n) (simp_all add: vget_def St_def leaf_for.simps)

lemma vget_None [simp]: "vget None r t = Undef"
  by (simp add: vget_def leaf_for.simps)

lemma vget_step: "0 < r \<Longrightarrow> vget n r t = vget (sub (item_at (St n) (digit t r))) (r - 5) t"
  by (cases n) (simp_all add: vget_def St_def leaf_for.simps [of "Some _"] leaf_for.simps [of None])

lemma vget_Suc: "vget n (5 * Suc k) t = vget (sub (item_at (St n) (digit t (5 * Suc k)))) (5 * k) t"
  using vget_step [of "5 * Suc k" n t] by simp

definition same_path :: "nat \<Rightarrow> int \<Rightarrow> int \<Rightarrow> bool" where
  "same_path k q r \<longleftrightarrow> (\<forall>j\<le>k. digit q (5 * j) = digit r (5 * j))"

lemma same_path_0: "same_path 0 q r \<longleftrightarrow> digit q 0 = digit r 0"
  by (simp add: same_path_def)

lemma same_path_Suc: "same_path (Suc k) q r \<longleftrightarrow> same_path k q r \<and> digit q (5 * Suc k) = digit r (5 * Suc k)"
  by (auto simp: same_path_def le_Suc_eq)

lemma same_path_eq:
  "0 \<le> q \<Longrightarrow> q < 2 ^ (5 * k + 5) \<Longrightarrow> q < 2 ^ 32 \<Longrightarrow> 0 \<le> r \<Longrightarrow> r < 2 ^ (5 * k + 5) \<Longrightarrow> r < 2 ^ 32 \<Longrightarrow> same_path k q r \<longleftrightarrow> q = r"
  using digits_inj [of q k r] by (auto simp: same_path_def)

lemma xt_correct:
  "(\<forall>q. vget (fst (xt e (5 * k) r x)) (5 * k) q = (if same_path k q r then x else vget e (5 * k) q)) \<and>
   (snd (xt e (5 * k) r x) \<longleftrightarrow> vget e (5 * k) r \<noteq> x)"
proof (induction k arbitrary: e)
  case 0
  let ?u = "digit r 0"
  define s where "s \<longleftrightarrow> (case e of None \<Rightarrow> False | Some a \<Rightarrow> ?u < length a)"
  have un: "\<not> s \<Longrightarrow> item_at (St e) ?u = Undef" by (auto simp: s_def St_def split: option.splits)
  have eq: "xt e 0 r x = (if \<not> s \<and> x = Undef then (e, False) else if s \<and> item_at (St e) ?u = x then (e, False)
      else (Some (if x = Undef \<and> ?u = length (St e) - 1 then butlast (St e) else item_set (St e) ?u x), True))"
    by (subst xt.simps) (simp add: s_def Let_def)
  show ?case using un by (auto simp: eq vget_0 same_path_0 item_at_butlast St_def [of "Some _"])
next
  case (Suc k)
  let ?u = "digit r (5 * Suc k)"
  let ?l = "sub (item_at (St e) ?u)"
  obtain c i where ci: "xt ?l (5 * k) r x = (c, i)" by fastforce
  have IH: "vget c (5 * k) q = (if same_path k q r then x else vget ?l (5 * k) q)"
    "i \<longleftrightarrow> vget ?l (5 * k) r \<noteq> x" for q
    using Suc [of ?l] ci by simp_all
  define s where "s \<longleftrightarrow> (case e of None \<Rightarrow> False | Some a \<Rightarrow> ?u < length a)"
  have un: "\<not> s \<Longrightarrow> item_at (St e) ?u = Undef" by (auto simp: s_def St_def split: option.splits)
  have eq: "xt e (5 * Suc k) r x = (if \<not> s \<and> x = Undef then (e, False)
      else if c = ?l then (e, i) else (Some (item_set (St e) ?u (of_sub c)), i))"
    using ci unfolding s_def by (subst xt.simps) (simp add: Let_def cong: option.case_cong)
  have "vget (fst (xt e (5 * Suc k) r x)) (5 * Suc k) q =
      (if same_path (Suc k) q r then x else vget e (5 * Suc k) q)" for q
  proof (cases "\<not> s \<and> x = Undef")
    case True
    then show ?thesis using un unfolding eq vget_Suc same_path_Suc by auto
  next
    case False
    then show ?thesis using IH(1) [of q] unfolding eq vget_Suc same_path_Suc
      by (auto simp: St_def [of "Some _"])
  qed
  moreover have "snd (xt e (5 * Suc k) r x) \<longleftrightarrow> vget e (5 * Suc k) r \<noteq> x"
    using IH(2) un unfolding eq vget_Suc by auto
  ultimately show ?case by blast
qed

section \<open>The invariant and the abstraction\<close>

lemma Ot_props:
  assumes "0 \<le> c"
  shows "0 \<le> Ot c" "Ot c \<le> c" "c \<le> Ot c + 32" "Ot c mod 32 = 0"
  using assms by (auto simp: Ot_def)

lemma Ot_mono: "0 \<le> c \<Longrightarrow> c \<le> d \<Longrightarrow> Ot c \<le> Ot d"
  by (auto simp: Ot_def zdiv_mono1)

text \<open>The item at an index of the trie and tail together.\<close>

definition elem :: "'v imlist \<Rightarrow> int \<Rightarrow> 'v item" where
  "elem l q = (if q \<ge> Ot (capacity l) then item_at (St (tail l)) (digit q 0) else vget (list_root l) (level l) q)"

definition list_abs :: "'v imlist \<Rightarrow> 'v item list" where
  "list_abs l = map (\<lambda>j. elem l (origin l + int j)) [0..<nat (list_size l)]"

definition list_ok :: "'v imlist \<Rightarrow> bool" where
  "list_ok l \<longleftrightarrow> 0 \<le> origin l \<and> origin l \<le> capacity l \<and> capacity l < 2 ^ 30 \<and>
     (\<exists>k. level l = 5 * Suc k) \<and> Ot (capacity l) < 2 ^ (level l + 5) \<and>
     (\<forall>q. Ot (capacity l) \<le> q \<longrightarrow> q < 2 ^ (level l + 5) \<longrightarrow> q < 2 ^ 32 \<longrightarrow> vget (list_root l) (level l) q = Undef) \<and>
     (\<forall>j. capacity l - Ot (capacity l) \<le> int j \<longrightarrow> j < 32 \<longrightarrow> item_at (St (tail l)) j = Undef)"

lemma list_ok_size: "list_ok l \<Longrightarrow> 0 \<le> list_size l"
  by (simp add: list_ok_def list_size_def)

lemma length_list_abs: "list_ok l \<Longrightarrow> int (length (list_abs l)) = list_size l"
  using list_ok_size [of l] by (simp add: list_abs_def)

lemma list_abs_nth: "0 \<le> j \<Longrightarrow> j < list_size l \<Longrightarrow> list_abs l ! nat j = elem l (origin l + j)"
  by (simp add: list_abs_def)

lemma list_abs_eqI:
  assumes "list_ok l" "int (length xs) = list_size l"
    "\<And>j. 0 \<le> j \<Longrightarrow> j < list_size l \<Longrightarrow> elem l (origin l + j) = xs ! nat j"
  shows "list_abs l = xs"
proof (rule nth_equalityI)
  show len: "length (list_abs l) = length xs" using assms(2) length_list_abs [OF assms(1)] by simp
  fix i assume "i < length (list_abs l)"
  then have "int i < list_size l" using length_list_abs [OF assms(1)] by simp
  then show "list_abs l ! i = xs ! i" using list_abs_nth [of "int i" l] assms(3) [of "int i"] by simp
qed

lemma list_get_correct:
  assumes "list_ok l"
  shows "list_get l e d = (let j = wrap_index (list_size l) e
    in if 0 \<le> j \<and> j < list_size l then list_abs l ! nat j else d)"
proof -
  have "(case Ct l q of None \<Rightarrow> Undef | Some n \<Rightarrow> item_at n (digit q 0)) = elem l q" if "q < capacity l" for q
    using assms that
    by (auto simp: Ct_def elem_def St_def vget_def list_ok_def split: option.split)
  then show ?thesis
    by (auto simp: list_get_def Let_def list_abs_nth list_size_def add.commute)
qed

lemma digit_of_small: "j < 32 \<Longrightarrow> digit (int j) 0 = j"
  using digit_0 [of "int j"] by simp

lemma xt_tail:
  assumes "j < 32"
  shows "item_at (St (if snd (xt e 0 r x) then fst (xt e 0 r x) else e)) j = (if j = digit r 0 then x else item_at (St e) j)"
  using xt_correct [of e 0 r x] digit_of_small [OF assms]
  by (auto simp: vget_0 same_path_0 dest: spec [of _ "int j"])

lemma xt_trie:
  "vget (if snd (xt e (5 * k) r x) then fst (xt e (5 * k) r x) else e) (5 * k) q = (if same_path k q r then x else vget e (5 * k) q)"
proof -
  have "vget e (5 * k) q = vget e (5 * k) r" if "same_path k q r"
    using that
  proof (induction k arbitrary: e)
    case (Suc k)
    then show ?case unfolding vget_Suc same_path_Suc by simp
  qed (simp add: vget_0 same_path_0)
  then show ?thesis using xt_correct [of e k r x] by auto
qed

lemma tail_digit_eq:
  assumes "0 \<le> c" "c < 2 ^ 30" "Ot c \<le> p" "p < c" "Ot c \<le> q" "q < c"
  shows "digit p 0 = digit q 0 \<longleftrightarrow> p = q"
proof
  have pq: "0 \<le> p" "p < 2 ^ 32" "0 \<le> q" "q < 2 ^ 32" using assms Ot_props [of c] by auto
  assume "digit p 0 = digit q 0"
  then have "p mod 32 = q mod 32" using digit_0 [OF pq(1,2)] digit_0 [OF pq(3,4)] by simp
  moreover have "\<bar>p - q\<bar> < 32" using assms Ot_props [of c] by linarith
  ultimately show "p = q" by (rule mod32_unique)
qed simp

lemma list_put_correct:
  assumes ok: "list_ok l" and t: "0 \<le> t" "t < list_size l"
  shows "list_ok (list_put l t x)" "list_abs (list_put l t x) = (list_abs l)[nat t := x]"
    "list_size (list_put l t x) = list_size l"
proof -
  let ?q = "t + origin l" and ?l = "list_put l t x" and ?f = "Ot (capacity l)"
  have b: "0 \<le> origin l" "capacity l < 2 ^ 30" "?f < 2 ^ (level l + 5)" "0 \<le> capacity l"
    using ok by (auto simp: list_ok_def)
  obtain k where k: "level l = 5 * Suc k" using ok by (auto simp: list_ok_def)
  have q: "0 \<le> ?q" "?q < capacity l" using t b by (auto simp: list_size_def)
  have s: "origin ?l = origin l" "capacity ?l = capacity l" "level ?l = level l"
    by (auto simp: list_put_def Let_def split: prod.split)
  have tl: "item_at (St (tail ?l)) j = (if ?q \<ge> ?f \<and> j = digit ?q 0 then x else item_at (St (tail l)) j)" if "j < 32" for j
    using xt_tail [OF that, of "tail l" ?q x] by (auto simp: list_put_def case_prod_unfold Let_def)
  have rt: "vget (list_root ?l) (level l) p = (if ?q < ?f \<and> same_path (Suc k) p ?q then x else vget (list_root l) (level l) p)" for p
    using xt_trie [of "list_root l" "Suc k" ?q x p] by (auto simp: list_put_def case_prod_unfold Let_def k)
  have sp: "same_path (Suc k) p ?q \<longleftrightarrow> p = ?q" if "0 \<le> p" "p < 2 ^ (level l + 5)" "p < 2 ^ 32" "?q < ?f" for p
    using that q b by (intro same_path_eq) (auto simp: k)
  have e: "elem ?l p = (if p = ?q then x else elem l p)" if p: "0 \<le> p" "p < capacity l" for p
    using tl [of "digit p 0"] rt [of p] sp [of p] p q b tail_digit_eq [OF b(4,2), of p ?q] by (auto simp: elem_def s)
  show sz: "list_size ?l = list_size l" using s by (simp add: list_size_def)
  have "vget (list_root ?l) (level l) p = Undef" if "?f \<le> p" "p < 2 ^ (level l + 5)" "p < 2 ^ 32" for p
    using rt [of p] sp [of p] that ok Ot_props(1) [OF b(4)] by (auto simp: list_ok_def)
  moreover have "item_at (St (tail ?l)) j = Undef" if "capacity l - ?f \<le> int j" "j < 32" for j
  proof -
    have "int (digit ?q 0) < capacity l - ?f" if "?q \<ge> ?f"
      using that q b digit_from [OF Ot_props(4,1) [OF b(4)], of ?q] Ot_props(3) [OF b(4)] by simp
    with tl [of j] that ok show ?thesis by (auto simp: list_ok_def)
  qed
  ultimately show ok': "list_ok ?l" using ok by (auto simp: list_ok_def s)
  show "list_abs ?l = (list_abs l)[nat t := x]"
  proof (rule list_abs_eqI [OF ok'])
    show "int (length ((list_abs l)[nat t := x])) = list_size ?l" using length_list_abs [OF ok] sz by simp
    fix j assume j: "0 \<le> j" "j < list_size ?l"
    then have "elem ?l (origin l + j) = (if j = t then x else elem l (origin l + j))"
      using e [of "origin l + j"] b sz by (auto simp: list_size_def)
    then show "elem ?l (origin ?l + j) = (list_abs l)[nat t := x] ! nat j"
      using j t sz length_list_abs [OF ok] by (simp add: s nth_list_update list_abs_nth) linarith
  qed
qed

end
