(* ===== verification/Imm_List_Grow.thy ===== *)
theory Imm_List_Grow
  imports Imm_List_Trie
begin

text \<open>
  Growing the list at its end: the root is raised, the full tail becomes a leaf, and a window that
  lies in the tail alone is rebased. With it, \<open>set\<close> past the end, \<open>push\<close>, \<open>setSize\<close> to a larger size
  and the constructor are correct.
\<close>

section \<open>The parts of a change of window\<close>

lemma vget_wrap_left:
  assumes "0 \<le> q" "q < 2 ^ 32" "q < 2 ^ (5 * Suc k + 10)"
  shows "vget (Some (wrap_left l)) (5 * Suc k + 5) q = (if q < 2 ^ (5 * Suc k + 5) then vget l (5 * Suc k) q else Undef)"
proof -
  let ?s = "5 * Suc k"
  have d: "digit q (?s + 5) = 0 \<longleftrightarrow> q < 2 ^ (?s + 5)"
  proof
    assume "digit q (?s + 5) = 0"
    then have "drop_bit (?s + 5) q mod 32 = 0"
      using assms by (simp add: digit_def take_bit_eq_mod drop_bit_eq_div nat_eq_iff)
    moreover have "drop_bit (?s + 5) q < 32"
    proof -
      have "2 ^ (?s + 5) * (q div 2 ^ (?s + 5)) \<le> q"
        using mult_div_mod_eq [of "2 ^ (?s + 5)" q] pos_mod_sign [of "2 ^ (?s + 5)" q, OF zero_less_power] by linarith
      also have "q < 2 ^ (?s + 5) * 32" using assms(3) by (simp add: power_add)
      finally show ?thesis by (simp add: drop_bit_eq_div)
    qed
    moreover have "0 \<le> drop_bit (?s + 5) q" using assms(1) by simp
    ultimately have "q div 2 ^ (?s + 5) = 0" by (simp add: drop_bit_eq_div)
    then show "q < 2 ^ (?s + 5)" using pos_imp_zdiv_pos_iff [of "2 ^ (?s + 5)" q] by simp
  qed (use assms in \<open>simp add: digit_small\<close>)
  have "vget (Some (wrap_left l)) (?s + 5) q = vget (sub (item_at (wrap_left l) (digit q (?s + 5)))) ?s q"
    using vget_step [of "?s + 5" "Some (wrap_left l)" q] by (simp add: St_def)
  also have "\<dots> = (if digit q (?s + 5) = 0 then vget l ?s q else Undef)"
    by (auto simp: wrap_left_def item_at_def vget_step St_def split: option.split list.split)
  finally show ?thesis using d by simp
qed

lemma raise_left_correct:
  assumes "raise_left p (5 * Suc k) l = (s', l')" "p < 2 ^ 32"
  shows "\<exists>k'. s' = 5 * Suc k' \<and> k \<le> k' \<and> p < 2 ^ (s' + 5) \<and>
    (\<forall>q. 0 \<le> q \<longrightarrow> q < 2 ^ (s' + 5) \<longrightarrow> q < 2 ^ 32 \<longrightarrow>
       vget l' s' q = (if q < 2 ^ (5 * Suc k + 5) then vget l (5 * Suc k) q else Undef))"
  using assms
proof (induction "nat (p - int (5 * Suc k))" arbitrary: k l rule: less_induct)
  case less
  show ?case
  proof (cases "p \<ge> 2 ^ (5 * Suc k + 5)")
    case True
    have e: "5 * Suc k + 5 = 5 * Suc (Suc k)" by simp
    have r: "raise_left p (5 * Suc (Suc k)) (Some (wrap_left l)) = (s', l')"
      using less.prems(1) True unfolding raise_left.simps [of p "5 * Suc k"] e by (simp del: mult_Suc mult_Suc_right)
    have "int (5 * Suc k) < p" using True by (rule shift_bound)
    then have "nat (p - int (5 * Suc (Suc k))) < nat (p - int (5 * Suc k))" by simp
    from less.hyps [OF this r less.prems(2)] obtain k' where k': "s' = 5 * Suc k'" "Suc k \<le> k'" "p < 2 ^ (s' + 5)"
      "\<forall>q. 0 \<le> q \<longrightarrow> q < 2 ^ (s' + 5) \<longrightarrow> q < 2 ^ 32 \<longrightarrow>
       vget l' s' q = (if q < 2 ^ (5 * Suc (Suc k) + 5) then vget (Some (wrap_left l)) (5 * Suc (Suc k)) q else Undef)"
      by blast
    have "vget l' s' q = (if q < 2 ^ (5 * Suc k + 5) then vget l (5 * Suc k) q else Undef)"
      if q: "0 \<le> q" "q < 2 ^ (s' + 5)" "q < 2 ^ 32" for q
    proof -
      have le: "(2::int) ^ (5 * Suc k + 5) \<le> 2 ^ (5 * Suc (Suc k) + 5)" by (rule power_increasing) simp_all
      show ?thesis
      proof (cases "q < 2 ^ (5 * Suc (Suc k) + 5)")
        case True
        then show ?thesis using k'(4) q vget_wrap_left [of q k l] by (simp add: ac_simps)
      next
        case False
        then have "\<not> q < 2 ^ (5 * Suc k + 5)" using le by linarith
        with False show ?thesis using k'(4) q by simp
      qed
    qed
    with k' show ?thesis by (intro exI [of _ k']) auto
  next
    case False
    then have "s' = 5 * Suc k" "l' = l" using less.prems(1)
      unfolding raise_left.simps [of p "5 * Suc k"] by auto
    with False show ?thesis by (intro exI [of _ k]) auto
  qed
qed

lemma digit_add_low:
  assumes "0 \<le> f" "f mod 32 = 0" "f + 32 \<le> 2 ^ 32" "0 \<le> r" "r < 32" "1 \<le> j"
  shows "digit (f + r) (5 * j) = digit f (5 * j)"
proof -
  obtain i where j: "j = Suc i" using assms(6) by (cases j) auto
  obtain x where "f = 32 * x" using assms(2) by (metis mult_div_mod_eq add_0_right)
  then have "(f + r) div 32 = f div 32" using assms(4,5) by simp
  then have "(f + r) div 32 div 2 ^ (5 * i) = f div 32 div 2 ^ (5 * i)" by simp
  then have "(f + r) div 2 ^ (5 * j) = f div 2 ^ (5 * j)"
    by (simp add: j power_add zdiv_zmult2_eq)
  then show ?thesis using assms by (simp add: digit_def take_bit_eq_mod drop_bit_eq_div)
qed

lemma push_tail_correct:
  "vget (Some (push_tail m (5 * Suc k) f d)) (5 * Suc k) q =
     (if \<forall>j. 1 \<le> j \<and> j \<le> Suc k \<longrightarrow> digit q (5 * j) = digit f (5 * j) then item_at d (digit q 0) else vget m (5 * Suc k) q)"
proof (induction k arbitrary: m)
  case 0
  have "vget (Some (push_tail m 5 f d)) 5 q =
      (if digit q 5 = digit f 5 then item_at d (digit q 0) else vget m 5 q)"
    by (simp add: push_tail.simps [of _ 5] vget_step [of 5] St_def [of "Some _"] vget_0)
  moreover have "(\<forall>j. 1 \<le> j \<and> j \<le> Suc 0 \<longrightarrow> digit q (5 * j) = digit f (5 * j)) \<longleftrightarrow> digit q 5 = digit f 5"
    by (auto simp: le_Suc_eq)
  ultimately show ?case by simp
next
  case (Suc k)
  let ?y = "5 * Suc (Suc k)"
  let ?c = "sub (item_at (St m) (digit f ?y))"
  have "push_tail m ?y f d = item_set (St m) (digit f ?y) (Sub (push_tail ?c (5 * Suc k) f d))"
    by (subst push_tail.simps) simp
  then have "vget (Some (push_tail m ?y f d)) ?y q =
      (if digit q ?y = digit f ?y then vget (Some (push_tail ?c (5 * Suc k) f d)) (5 * Suc k) q else vget m ?y q)"
    unfolding vget_Suc by (simp add: St_def [of "Some _"])
  moreover have "vget m ?y q = vget ?c (5 * Suc k) q" if "digit q ?y = digit f ?y"
    unfolding vget_Suc using that by simp
  moreover have "(\<forall>j. 1 \<le> j \<and> j \<le> Suc (Suc k) \<longrightarrow> digit q (5 * j) = digit f (5 * j)) \<longleftrightarrow>
      (\<forall>j. 1 \<le> j \<and> j \<le> Suc k \<longrightarrow> digit q (5 * j) = digit f (5 * j)) \<and> digit q ?y = digit f ?y"
    by (auto simp: le_Suc_eq)
  ultimately show ?case using Suc.IH [of ?c] by (auto split: if_splits simp del: mult_Suc mult_Suc_right)
qed

lemma push_tail_range:
  assumes f: "0 \<le> f" "f mod 32 = 0" "f < 2 ^ (5 * Suc k + 5)" "f + 32 \<le> 2 ^ 32"
    and q: "0 \<le> q" "q < 2 ^ (5 * Suc k + 5)" "q < 2 ^ 32"
  shows "vget (Some (push_tail m (5 * Suc k) f d)) (5 * Suc k) q =
     (if f \<le> q \<and> q < f + 32 then item_at d (digit q 0) else vget m (5 * Suc k) q)"
proof -
  have m: "0 \<le> q mod 32" "q mod 32 < 32" by simp_all
  have "(\<forall>j. 1 \<le> j \<and> j \<le> Suc k \<longrightarrow> digit q (5 * j) = digit f (5 * j)) \<longleftrightarrow> same_path (Suc k) q (f + q mod 32)"
  proof -
    have "(f + q mod 32) mod 32 = q mod 32" using f(2) by (metis add_0 mod_add_left_eq mod_mod_trivial)
    moreover have "0 \<le> f + q mod 32" "f + q mod 32 < 2 ^ 32" using f m by linarith+
    ultimately have "digit (f + q mod 32) 0 = digit q 0"
      using digit_0 [of "f + q mod 32"] digit_0 [OF q(1,3)] by simp
    then show ?thesis using digit_add_low [OF f(1,2,4) m]
      by (auto simp: same_path_def) (metis One_nat_def Suc_leI gr0I mult_0_right)
  qed
  also have "\<dots> \<longleftrightarrow> q = f + q mod 32"
  proof (rule same_path_eq)
    have "(2::int) ^ (5 * Suc k + 5) mod 32 = 0" by (simp add: power_add)
    with f(2) have "f + 32 \<le> 2 ^ (5 * Suc k + 5)" using f(3) by (rule mod32_next)
    then show "f + q mod 32 < 2 ^ (5 * Suc k + 5)" using m by linarith
  qed (use f q m in auto)
  also have "\<dots> \<longleftrightarrow> f \<le> q \<and> q < f + 32" using mod32_offset [OF f(2), of q] m by linarith
  finally show ?thesis by (simp only: push_tail_correct)
qed

lemma removeBefore_leaf:
  assumes "0 \<le> n" "n < 32"
  shows "item_at (removeBefore arr 0 n) j = (if int j < n then Undef else item_at arr j)"
proof -
  have d: "digit n 0 = nat n" using digit_0 [of n] assms by simp
  then show ?thesis using assms
    by (auto simp: removeBefore.simps [of arr 0 n] Let_def item_at_def nth_append)
qed

section \<open>Growing\<close>

lemma kt_grow_eq:
  assumes ok: "list_ok e" and n: "list_size e < n"
  shows "kt e 0 (Some n) =
    (let o0 = origin e; i = capacity e; u = o0 + n; f = Ot i; p = Ot u;
         (s2, l2) = raise_left p (level e) (list_root e); d = tail e;
         h = (if p > f then Some [] else d);
         l3 = (case d of Some (x # xs) \<Rightarrow> if p > f \<and> o0 < i then Some (push_tail l2 s2 f (x # xs)) else l2 | _ \<Rightarrow> l2)
     in if o0 \<ge> p then wt (o0 - p) (u - p) 5 None (map_option (\<lambda>y. removeBefore y 0 (o0 - p)) h)
        else wt o0 u s2 l3 h)"
proof -
  have b: "0 \<le> origin e" "origin e \<le> capacity e" using ok by (auto simp: list_ok_def)
  have i: "capacity e < origin e + n" using n by (simp add: list_size_def)
  have np: "0 < n" using n list_ok_size [OF ok] by simp
  have pf: "\<not> Ot (origin e + n) < Ot (capacity e)" using Ot_mono [of "capacity e" "origin e + n"] b i by auto
  have rr: "raise_right (origin e) 0 (level e) (list_root e) = (0, level e, list_root e)"
    using b by (simp add: raise_right.simps)
  obtain s2 l2 where rl: "raise_left (Ot (origin e + n)) (level e) (list_root e) = (s2, l2)" by fastforce
  show ?thesis using b i np pf
    by (simp add: kt_def Let_def rr rl not_less split: option.split list.split)
qed

lemma kt_grow:
  assumes ok: "list_ok e" and n: "list_size e < n" "origin e + n < 2 ^ 30"
  shows "list_ok (kt e 0 (Some n)) \<and> list_size (kt e 0 (Some n)) = n \<and>
    list_abs (kt e 0 (Some n)) = list_abs e @ replicate (nat (n - list_size e)) Undef"
proof -
  define o0 i u f p d where d: "o0 = origin e" "i = capacity e" "u = o0 + n" "f = Ot i" "p = Ot u" "d = tail e"
  obtain s2 l2 where r: "raise_left p (level e) (list_root e) = (s2, l2)" by fastforce
  define h where "h = (if p > f then Some [] else d)"
  define l3 where "l3 = (case d of Some (x # xs) \<Rightarrow> if p > f \<and> o0 < i then Some (push_tail l2 s2 f (x # xs)) else l2 | _ \<Rightarrow> l2)"
  define R where "R = kt e 0 (Some n)"
  have R: "R = (if o0 \<ge> p then wt (o0 - p) (u - p) 5 None (map_option (\<lambda>y. removeBefore y 0 (o0 - p)) h) else wt o0 u s2 l3 h)"
    unfolding R_def kt_grow_eq [OF ok n(1)] by (simp add: Let_def d [symmetric] r h_def l3_def split: option.split list.split)
  have b: "0 \<le> o0" "o0 \<le> i" "i < u" "u < 2 ^ 30" "0 \<le> i" "0 \<le> u" and nn: "0 < n"
    using ok n list_ok_size [OF ok] by (auto simp: list_ok_def d list_size_def)
  note Of = Ot_props [OF b(5), folded d(4)] and Op = Ot_props [OF b(6), folded d(5)]
  have fp: "f \<le> p" using Ot_mono [of i u] b by (simp add: d)
  have step: "f < p \<Longrightarrow> i \<le> p" using Of(3) mod32_next [OF Of(4) Op(4)] by linarith
  obtain k where k: "level e = 5 * Suc k" using ok by (auto simp: list_ok_def)
  have p32: "p < 2 ^ 32" using Op(2) b(4) by simp
  obtain k' where s2: "s2 = 5 * Suc k'" "p < 2 ^ (s2 + 5)" and l2: "\<And>q. 0 \<le> q \<Longrightarrow> q < 2 ^ (s2 + 5) \<Longrightarrow> q < 2 ^ 32 \<Longrightarrow>
       vget l2 s2 q = (if q < 2 ^ (level e + 5) then vget (list_root e) (level e) q else Undef)"
    using raise_left_correct [OF r [unfolded k] p32] unfolding k by blast
  have root: "\<And>q. f \<le> q \<Longrightarrow> q < 2 ^ (level e + 5) \<Longrightarrow> q < 2 ^ 32 \<Longrightarrow> vget (list_root e) (level e) q = Undef"
    and fl: "f < 2 ^ (level e + 5)"
    and tl: "\<And>j. i - f \<le> int j \<Longrightarrow> j < 32 \<Longrightarrow> item_at (St d) j = Undef"
    using ok by (auto simp: list_ok_def d)
  have l2': "vget l2 s2 q = Undef" if "f \<le> q" "q < 2 ^ (s2 + 5)" "q < 2 ^ 32" for q
    using that l2 [of q] root [of q] Of(1) by auto
  have dig: "int (digit q 0) = q - f" if "f \<le> q" "q < f + 32" for q
    using that Of(1,2) b by (intro digit_from [OF Of(4)]) auto
  have E: "elem e q = (if f \<le> q then item_at (St d) (digit q 0) else vget (list_root e) (level e) q)" for q
    by (simp add: elem_def d)
  define G where "G q = (if q < i then elem e q else Undef)" for q
  have Gtail: "item_at (St d) (digit q 0) = G q" if "f \<le> q" "q < f + 32" for q
    using that tl [of "digit q 0"] dig [OF that] by (auto simp: G_def E)
  have h: "item_at (St h) (digit q 0) = G q" if "p \<le> q" "q < u" for q
  proof (cases "p > f")
    case True
    then show ?thesis using step that by (simp add: h_def G_def St_def)
  next
    case False
    then have "p = f" using fp by simp
    then show ?thesis using Gtail [of q] that Op(3) by (simp add: h_def)
  qed
  have moved: "vget l3 s2 q = (if p > f \<and> o0 < i \<and> f \<le> q \<and> q < f + 32 then item_at (St d) (digit q 0) else vget l2 s2 q)"
    if "0 \<le> q" "q < 2 ^ (s2 + 5)" "q < 2 ^ 32" for q
  proof -
    have "vget (Some (push_tail l2 s2 f x)) s2 q = (if f \<le> q \<and> q < f + 32 then item_at x (digit q 0) else vget l2 s2 q)" for x
      using push_tail_range [of f k' q l2 x] that Of fp s2 b by simp
    then show ?thesis using that l2' [of q] by (auto simp: l3_def St_def split: option.split list.split)
  qed
  have q2: "0 \<le> q \<and> q < 2 ^ (s2 + 5) \<and> q < 2 ^ 32" if "o0 \<le> q" "q < p" for q using that b s2 p32 by auto
  have l3: "vget l3 s2 q = G q" if q: "o0 \<le> q" "q < p" for q
  proof (cases "q < f")
    case True
    then show ?thesis using moved [of q] l2 [of q] q2 [OF q] fl Of(2) by (simp add: G_def E)
  next
    case False
    have "G q = Undef" if "\<not> (f < p \<and> o0 < i \<and> f \<le> q \<and> q < f + 32)"
      using that False q Of(3) by (auto simp: G_def)
    then show ?thesis using moved [of q] l2' [of q] q2 [OF q] Gtail [of q] False by auto
  qed
  have l3u: "vget l3 s2 q = Undef" if "p \<le> q" "q < 2 ^ (s2 + 5)" "q < 2 ^ 32" for q
  proof -
    have "f < p \<Longrightarrow> f + 32 \<le> p" by (rule mod32_next [OF Of(4) Op(4)])
    then show ?thesis using moved [of q] l2' [of q] that fp Of(1) by auto
  qed
  have hu: "item_at (St h) j = Undef" if "u - p \<le> int j" "j < 32" for j
    using that tl [of j] fp b(3) by (auto simp: h_def St_def)
  have "list_ok R \<and> list_size R = n \<and> (\<forall>j. 0 \<le> j \<longrightarrow> j < n \<longrightarrow> elem R (origin R + j) = G (o0 + j))"
  proof (cases "o0 \<ge> p")
    case True
    define T where "T = map_option (\<lambda>y. removeBefore y 0 (o0 - p)) h"
    have RT: "R = wt (o0 - p) (u - p) 5 None T" using True R by (simp add: T_def)
    have o32: "o0 - p < 32" and up: "u - p \<le> 32" using Op(3) b by auto
    have Ot0: "Ot (u - p) = 0" using up Op(2) by (simp add: Ot_def)
    have T: "item_at (St T) j = (if int j < o0 - p then Undef else item_at (St h) j)" for j
      using removeBefore_leaf [of "o0 - p" _ j] True o32 by (cases h) (auto simp: T_def St_def)
    have "elem R (origin R + j) = G (o0 + j)" if j: "0 \<le> j" "j < n" for j
    proof -
      have q: "0 \<le> o0 - p + j" "o0 - p + j < 32" using j True up d(3) by auto
      have "int (digit (o0 + j) 0) = o0 - p + j" using digit_from [OF Op(4,1), of "o0 + j"] b j q d(3) by simp
      moreover have "int (digit (o0 - p + j) 0) = o0 - p + j" using digit_0 [of "o0 - p + j"] q by simp
      ultimately have "digit (o0 - p + j) 0 = digit (o0 + j) 0" "\<not> int (digit (o0 + j) 0) < o0 - p" using j by simp_all
      moreover have "item_at (St h) (digit (o0 + j) 0) = G (o0 + j)" using h [of "o0 + j"] True j d(3) by simp
      ultimately show ?thesis using T q(1) unfolding RT elem_def wt_def by (simp add: Ot0)
    qed
    moreover have "list_ok R" using True b Ot0 up o32 hu T Op(2) by (auto simp: RT list_ok_def wt_def)
    ultimately show ?thesis using d(3) by (simp add: RT list_size_def wt_def)
  next
    case False
    then have RT: "R = wt o0 u s2 l3 h" using R by simp
    have "elem R (origin R + j) = G (o0 + j)" if "0 \<le> j" "j < n" for j
    proof -
      have "o0 + j < u" using that d(3) by simp
      then show ?thesis using that l3 [of "o0 + j"] h [of "o0 + j"] unfolding RT elem_def wt_def
        by (simp add: d(5) [symmetric])
    qed
    moreover have "list_ok R" using b s2 l3u hu by (auto simp: RT list_ok_def wt_def d(5) [symmetric])
    ultimately show ?thesis using d(3) by (simp add: RT list_size_def wt_def)
  qed
  moreover have "list_abs e @ replicate (nat (n - list_size e)) Undef = map (\<lambda>j. G (o0 + int j)) [0..<nat n]"
    using n(1) list_ok_size [OF ok]
    by (intro nth_equalityI) (auto simp: list_abs_def nth_append G_def d list_size_def)
  ultimately show ?thesis using nn unfolding R_def [symmetric]
    by (auto intro!: list_abs_eqI)
qed

section \<open>The operations\<close>

lemma list_set_correct:
  assumes ok: "list_ok e" and t: "0 \<le> t" "origin e + t + 1 < 2 ^ 30"
  shows "list_ok (list_set e t x) \<and>
    list_abs (list_set e t x) = (if t < list_size e then (list_abs e)[nat t := x]
      else list_abs e @ replicate (nat (t - list_size e)) Undef @ [x])"
proof (cases "t < list_size e")
  case True
  then show ?thesis using list_put_correct [OF ok t(1) True] t(1)
    by (simp add: list_set_def wrap_index_def)
next
  case False
  let ?g = "kt e 0 (Some (t + 1))"
  have g: "list_ok ?g" "list_size ?g = t + 1"
    "list_abs ?g = list_abs e @ replicate (nat (t + 1 - list_size e)) Undef"
    using kt_grow [OF ok, of "t + 1"] False t by auto
  have r: "list_set e t x = list_put ?g t x" using False t(1) by (simp add: list_set_def wrap_index_def)
  have n: "nat (t + 1 - list_size e) = Suc (nat (t - list_size e))" using False by simp
  have len: "length (list_abs e) + nat (t - list_size e) = nat t"
    using length_list_abs [OF ok] False t(1) by linarith
  have "list_abs ?g = (list_abs e @ replicate (nat (t - list_size e)) Undef) @ [Undef]"
    unfolding g(3) n by (simp add: replicate_append_same [symmetric])
  moreover have "nat t = length (list_abs e @ replicate (nat (t - list_size e)) Undef)" using len by simp
  ultimately have "(list_abs ?g)[nat t := x] = (list_abs e @ replicate (nat (t - list_size e)) Undef) @ [x]"
    by (simp only: list_update_length)
  then show ?thesis using list_put_correct [OF g(1) t(1), of x] g(2) False by (simp add: r)
qed

text \<open>Setting a run of indices, as \<open>push\<close> and the constructor do after growing.\<close>

lemma origin_list_put [simp]: "origin (list_put l t x) = origin l" "capacity (list_put l t x) = capacity l"
  by (auto simp: list_put_def Let_def split: prod.split)

lemma set_run:
  assumes ok: "list_ok l" and b: "list_size l = int (a + length xs)" and le: "m \<le> length xs"
  shows "list_ok (fold (\<lambda>r n. list_set n (int (a + r)) (xs ! r)) [0..<m] l) \<and>
    list_size (fold (\<lambda>r n. list_set n (int (a + r)) (xs ! r)) [0..<m] l) = list_size l \<and>
    list_abs (fold (\<lambda>r n. list_set n (int (a + r)) (xs ! r)) [0..<m] l) =
       take a (list_abs l) @ take m xs @ drop (a + m) (list_abs l)"
  using le
proof (induction m)
  case 0
  then show ?case using ok by simp
next
  case (Suc m)
  let ?F = "fold (\<lambda>r n. list_set n (int (a + r)) (xs ! r)) [0..<m] l"
  have IH: "list_ok ?F" "list_size ?F = list_size l" "list_abs ?F = take a (list_abs l) @ take m xs @ drop (a + m) (list_abs l)"
    using Suc by auto
  have lt: "int (a + m) < list_size ?F" using IH(2) b Suc.prems by simp
  have set: "list_set ?F (int (a + m)) (xs ! m) = list_put ?F (int (a + m)) (xs ! m)"
    using lt by (simp add: list_set_def wrap_index_def)
  have len: "length (list_abs l) = a + length xs" using length_list_abs [OF ok] b by simp
  have m: "m < length xs" "m < length (list_abs l) - a" using Suc.prems len by simp_all
  have "drop (a + m) (list_abs l) = list_abs l ! (a + m) # drop (Suc (a + m)) (list_abs l)"
    using m by (intro Cons_nth_drop_Suc [symmetric]) simp
  then have "(list_abs ?F)[a + m := xs ! m] = take a (list_abs l) @ take (Suc m) xs @ drop (a + Suc m) (list_abs l)"
    using IH(3) m len by (simp add: list_update_append take_Suc_conv_app_nth)
  moreover have "list_ok (list_put ?F (int (a + m)) (xs ! m)) \<and> list_size (list_put ?F (int (a + m)) (xs ! m)) = list_size ?F \<and>
     list_abs (list_put ?F (int (a + m)) (xs ! m)) = (list_abs ?F)[a + m := xs ! m]"
    using list_put_correct [OF IH(1), of "int (a + m)" "xs ! m"] lt by (simp add: nat_int_add)
  ultimately show ?case using set IH(2) by simp
qed

lemma push_correct:
  assumes ok: "list_ok l" and b: "capacity l + int (length xs) < 2 ^ 30"
  shows "list_ok (push l xs) \<and> list_abs (push l xs) = list_abs l @ xs"
proof (cases "xs = []")
  case True
  then show ?thesis using ok list_ok_size [OF ok] by (simp add: push_def Let_def kt_def list_size_def)
next
  case False
  let ?g = "kt l 0 (Some (list_size l + int (length xs)))"
  have g: "list_ok ?g" "list_size ?g = list_size l + int (length xs)" "list_abs ?g = list_abs l @ replicate (length xs) Undef"
    using kt_grow [OF ok, of "list_size l + int (length xs)"] False b by (auto simp: list_size_def)
  have a: "list_size l = int (nat (list_size l))" using list_ok_size [OF ok] by simp
  have len: "length (list_abs l) = nat (list_size l)" using length_list_abs [OF ok] by simp
  have "push l xs = fold (\<lambda>r n. list_set n (int (nat (list_size l) + r)) (xs ! r)) [0..<length xs] ?g"
    using a by (simp add: push_def Let_def)
  then show ?thesis using set_run [OF g(1), of "nat (list_size l)" xs "length xs"] g(2,3) a len by simp
qed

lemma list_ok_Et: "list_ok Et" and list_abs_Et: "list_abs Et = []" and list_size_Et: "list_size Et = 0"
  by (auto simp: list_ok_def Et_def wt_def Ot_def list_abs_def list_size_def St_def)

lemma origin_Et: "origin Et = 0" "capacity Et = 0"
  by (simp_all add: Et_def wt_def)

lemma pt_correct:
  fixes xs :: "'a item list"
  assumes "int (length xs) < 2 ^ 30"
  shows "list_ok (pt xs) \<and> list_abs (pt xs) = xs"
proof -
  consider "xs = []" | "xs \<noteq> []" "length xs < 32" | "32 \<le> length xs" by fastforce
  then show ?thesis
  proof cases
    case 1
    then show ?thesis by (simp add: pt_def list_ok_Et list_abs_Et)
  next
    case 2
    let ?l = "wt 0 (int (length xs)) 5 None (Some xs)"
    have ok: "list_ok ?l" using 2 by (auto simp: list_ok_def wt_def Ot_def St_def intro: exI [of _ 0])
    have "list_abs ?l = xs"
    proof (rule list_abs_eqI [OF ok])
      fix j assume j: "0 \<le> j" "j < list_size ?l"
      then have "digit j 0 = nat j" "nat j < length xs" using digit_0 [of j] 2 by (simp_all add: list_size_def wt_def)
      then show "elem ?l (origin ?l + j) = xs ! nat j" using j 2
        by (simp add: elem_def wt_def Ot_def St_def list_size_def item_at_def)
    qed (simp add: list_size_def wt_def)
    with ok 2 show ?thesis by (simp add: pt_def)
  next
    case 3
    let ?g = "setSize Et (int (length xs))"
    have "list_ok (?g :: 'a imlist) \<and> list_size (?g :: 'a imlist) = int (length xs) \<and>
        list_abs ?g = list_abs (Et :: 'a imlist) @ replicate (nat (int (length xs) - list_size (Et :: 'a imlist))) Undef"
      unfolding setSize_def using 3 assms
      by (intro kt_grow) (auto simp: list_size_Et list_ok_Et origin_Et)
    then have g: "list_ok (?g :: 'a imlist)" "list_size (?g :: 'a imlist) = int (length xs)"
        "length (list_abs (?g :: 'a imlist)) = length xs"
      by (auto simp: list_size_Et list_abs_Et)
    have "pt xs = fold (\<lambda>n e. list_set e (int (0 + n)) (xs ! n)) [0..<length xs] ?g"
      using 3 by (cases xs) (simp_all add: pt_def Let_def del: upt_Suc)
    then show ?thesis using set_run [OF g(1), of 0 xs "length xs"] g(2,3) by simp
  qed
qed

end
