(* ===== verification/Imm_List_Props.thy ===== *)
theory Imm_List_Props
  imports Imm_List_Grow
begin

text \<open>
  The contract of an indexed list, its interpretation on \<open>List\<close>, removing the last element, the
  properties of the list, and two inputs on which the code shows elements that had been removed.
\<close>

section \<open>Removing the last element\<close>

lemma removeAfter_leaf:
  assumes "0 < n" "n < 2 ^ 32" "j < 32"
  shows "item_at (removeAfter arr 0 n) j = (if int j \<le> (n - 1) mod 32 then item_at arr j else Undef)"
proof -
  have d: "int (digit (n - 1) 0) = (n - 1) mod 32" using digit_0 [of "n - 1"] assms by simp
  have "int j \<le> (n - 1) mod 32 \<longleftrightarrow> j \<le> digit (n - 1) 0" unfolding d [symmetric] by simp
  then show ?thesis using assms
    by (auto simp: removeAfter.simps [of arr 0 n] Let_def item_at_def)
qed

text \<open>As long as the tail keeps an element, only the tail changes (and the window is rebased when it lies in the tail).\<close>

lemma pop_in_tail:
  assumes ok: "list_ok l" and sz: "2 \<le> list_size l" and t: "Ot (capacity l) < capacity l - 1"
  shows "pop l = (let f = Ot (capacity l); u = capacity l - 1; h = map_option (\<lambda>y. removeAfter y 0 u) (tail l)
    in if origin l < f then wt (origin l) u (level l) (list_root l) h
       else wt (origin l - f) (u - f) 5 None (map_option (\<lambda>y. removeBefore y 0 (origin l - f)) h))"
proof -
  have b: "0 \<le> origin l" "origin l \<le> capacity l" using ok by (auto simp: list_ok_def)
  have p: "Ot (capacity l - 1) = Ot (capacity l)" using t b by (auto simp: Ot_def)
  have rr: "raise_right (origin l) 0 (level l) (list_root l) = (0, level l, list_root l)"
    using b by (simp add: raise_right.simps)
  have rl: "raise_left (Ot (capacity l)) (level l) (list_root l) = (level l, list_root l)"
    using ok by (simp add: raise_left.simps list_ok_def)
  show ?thesis using sz b p
    by (auto simp: pop_def kt_def Let_def rr rl p list_size_def split: option.split list.split)
qed

lemma pop_correct:
  assumes ok: "list_ok l" and c: "list_size l \<le> 1 \<or> Ot (capacity l) < capacity l - 1"
  shows "list_ok (pop l) \<and> list_abs (pop l) = butlast (list_abs l) \<and> capacity (pop l) \<le> capacity l"
proof (cases "list_size l \<le> 1")
  case True
  have b: "0 \<le> origin l" "origin l \<le> capacity l" using ok by (auto simp: list_ok_def)
  have "pop l = (if list_size l = 0 then l else Et)"
    using True b by (auto simp: pop_def kt_def Let_def list_clear_def list_size_def)
  moreover have "length (list_abs l) \<le> 1" using length_list_abs [OF ok] True by simp
  then have "butlast (list_abs l) = []" by (cases "list_abs l") auto
  moreover have "list_size l = 0 \<Longrightarrow> list_abs l = []" using length_list_abs [OF ok] by simp
  ultimately show ?thesis using ok b by (auto simp: list_ok_Et list_abs_Et origin_Et)
next
  case False
  let ?c = "capacity l" and ?f = "Ot (capacity l)" and ?l = "pop l"
  have sz: "2 \<le> list_size l" and t: "?f < ?c - 1" using False c by auto
  have b: "0 \<le> origin l" "origin l \<le> ?c" "?c < 2 ^ 30" "0 \<le> ?c" using ok by (auto simp: list_ok_def)
  have p: "Ot (?c - 1) = ?f" using t b by (auto simp: Ot_def)
  note F = Ot_props [OF b(4)]
  define h where "h = map_option (\<lambda>y. removeAfter y 0 (?c - 1)) (tail l)"
  note eq = pop_in_tail [OF ok sz t, unfolded Let_def, folded h_def]
  have m: "(?c - 2) mod 32 = ?c - 2 - ?f" using F(3) t by (intro mod32_offset [OF F(4)]) auto
  have T: "item_at (St h) j = (if int j \<le> ?c - 2 - ?f then item_at (St (tail l)) j else Undef)" if "j < 32" for j
    using removeAfter_leaf [of "?c - 1" j] that t F(1) b m by (cases "tail l") (auto simp: h_def St_def)
  have dig: "int (digit q 0) = q - ?f" if "?f \<le> q" "q < ?c" for q
    using that F b by (intro digit_from) auto
  have "list_ok ?l \<and> list_size ?l = list_size l - 1 \<and> capacity ?l \<le> ?c \<and>
    (\<forall>j. 0 \<le> j \<longrightarrow> j < list_size l - 1 \<longrightarrow> elem ?l (origin ?l + j) = elem l (origin l + j))"
  proof (cases "origin l < ?f")
    case True
    then have l: "?l = wt (origin l) (?c - 1) (level l) (list_root l) h" using eq by simp
    have "elem ?l (origin l + j) = elem l (origin l + j)" if "0 \<le> j" "j < list_size l - 1" for j
      using T [of "digit (origin l + j) 0"] dig [of "origin l + j"] that
      by (simp add: l wt_def elem_def p list_size_def)
    moreover have "list_ok ?l" using ok T F t True by (auto simp: l wt_def list_ok_def p)
    ultimately show ?thesis by (simp add: l wt_def list_size_def)
  next
    case False
    let ?o = "origin l - ?f"
    define T' where "T' = map_option (\<lambda>y. removeBefore y 0 ?o) h"
    have l: "?l = wt ?o (?c - 1 - ?f) 5 None T'" using eq False by (simp add: T'_def)
    have o: "0 \<le> ?o" "?o < 32" using False sz F(3) by (auto simp: list_size_def)
    have T2: "item_at (St T') j = (if int j < ?o then Undef else item_at (St h) j)" for j
      by (cases h) (simp_all add: T'_def St_def removeBefore_leaf [OF o] item_at_def [of "[]"])
    have O: "Ot (?c - 1 - ?f) = 0" using F(3) t by (simp add: Ot_def)
    have "elem ?l (?o + j) = elem l (origin l + j)" if j: "0 \<le> j" "j < list_size l - 1" for j
    proof -
      have q: "?f \<le> origin l + j" "origin l + j < ?c" using j False by (auto simp: list_size_def)
      have d: "int (digit (?o + j) 0) = ?o + j"
        using digit_from [of 0 "?o + j"] o j q F(3) by simp
      then have "digit (?o + j) 0 = digit (origin l + j) 0" using dig [OF q] by linarith
      then show ?thesis using T [of "digit (?o + j) 0"] T2 [of "digit (?o + j) 0"] d j q
        by (simp add: l wt_def elem_def O list_size_def)
    qed
    moreover have "list_ok ?l" using T T2 F(3) t sz o b by (auto simp: l wt_def list_ok_def O list_size_def)
    ultimately show ?thesis using F(1) by (simp add: l wt_def list_size_def)
  qed
  then show ?thesis using length_list_abs [OF ok] sz
    by (intro conjI list_abs_eqI) (auto simp: nth_butlast list_abs_nth)
qed

section \<open>The contract of an indexed list\<close>

locale indexed_list =
  fixes get :: "'l \<Rightarrow> int \<Rightarrow> 'e \<Rightarrow> 'e"
    and put :: "'l \<Rightarrow> int \<Rightarrow> 'e \<Rightarrow> 'l"
    and size :: "'l \<Rightarrow> int"
    and room :: "'l \<Rightarrow> int"
    and invar :: "'l \<Rightarrow> bool"
    and abs :: "'l \<Rightarrow> 'e list"
  assumes size_abs: "invar l \<Longrightarrow> size l = int (length (abs l))"
    and get_abs: "invar l \<Longrightarrow> 0 \<le> i \<Longrightarrow> i < size l \<Longrightarrow> get l i d = abs l ! nat i"
    and get_end: "invar l \<Longrightarrow> size l \<le> i \<Longrightarrow> get l i d = d"
    and invar_put: "invar l \<Longrightarrow> 0 \<le> i \<Longrightarrow> i \<le> size l \<Longrightarrow> 1 < room l \<Longrightarrow> invar (put l i x)"
    and abs_put: "invar l \<Longrightarrow> 0 \<le> i \<Longrightarrow> i \<le> size l \<Longrightarrow> 1 < room l \<Longrightarrow>
      abs (put l i x) = (if i < size l then (abs l)[nat i := x] else abs l @ [x])"
    and room_put: "invar l \<Longrightarrow> 0 \<le> i \<Longrightarrow> i \<le> size l \<Longrightarrow> 1 < room l \<Longrightarrow>
      room l - 1 \<le> room (put l i x)"
begin

lemma get_put:
  assumes "invar l" "0 \<le> i" "i \<le> size l" "1 < room l" "0 \<le> j" "j < size l"
  shows "get (put l i x) j d = (if j = i then x else get l j d)"
proof -
  have "size (put l i x) = (if i < size l then size l else size l + 1)"
    using size_abs [OF invar_put [OF assms(1-4)], of x] size_abs [OF assms(1)] abs_put [OF assms(1-4), of x] by simp
  then show ?thesis using assms get_abs [OF invar_put [OF assms(1-4)], of j x d] get_abs [OF assms(1,5,6)]
    by (auto simp: abs_put size_abs nth_append nth_list_update)
qed

lemma append_run:
  "invar l \<Longrightarrow> int (length xs) < room l \<Longrightarrow>
   invar (fold (\<lambda>x l. put l (size l) x) xs l) \<and> abs (fold (\<lambda>x l. put l (size l) x) xs l) = abs l @ xs"
proof (induction xs arbitrary: l)
  case (Cons x xs)
  have s: "0 \<le> size l" using Cons.prems(1) by (simp add: size_abs)
  have r: "1 < room l" using Cons.prems(2) by simp
  have "invar (put l (size l) x)" "abs (put l (size l) x) = abs l @ [x]" "room l - 1 \<le> room (put l (size l) x)"
    using Cons.prems(1) s r by (simp_all add: invar_put abs_put room_put)
  then show ?case using Cons.IH [of "put l (size l) x"] Cons.prems(2) by simp
qed simp

end

definition list_room :: "'v imlist \<Rightarrow> int" where
  "list_room l = 2 ^ 30 - capacity l"

lemma list_set_bounds:
  assumes "list_ok l" "0 \<le> i" "i \<le> list_size l" "capacity l + 1 < 2 ^ 30"
  shows "capacity (list_set l i x) \<le> capacity l + 1"
proof -
  have b: "0 \<le> origin l" "origin l \<le> capacity l" using assms(1) by (auto simp: list_ok_def)
  have "capacity (kt l 0 (Some n)) \<le> origin l + n" if "list_size l < n" for n
  proof -
    have "0 \<le> Ot (origin l + n)" using Ot_props(1) [of "origin l + n"] b that by (simp add: list_size_def)
    then show ?thesis unfolding kt_grow_eq [OF assms(1) that]
      by (simp add: Let_def case_prod_unfold wt_def)
  qed
  from this [of "i + 1"] show ?thesis using assms by (auto simp: list_set_def wrap_index_def list_size_def)
qed

interpretation trie_list: indexed_list list_get list_set list_size list_room list_ok list_abs
proof unfold_locales
  fix l :: "'a imlist" and i :: int and x d :: "'a item"
  assume ok: "list_ok l"
  show "list_size l = int (length (list_abs l))" using length_list_abs [OF ok] by simp
  show "0 \<le> i \<Longrightarrow> i < list_size l \<Longrightarrow> list_get l i d = list_abs l ! nat i"
    by (simp add: list_get_correct [OF ok] wrap_index_def Let_def)
  show "list_size l \<le> i \<Longrightarrow> list_get l i d = d"
    using list_ok_size [OF ok] by (simp add: list_get_correct [OF ok] wrap_index_def Let_def)
  assume i: "0 \<le> i" "i \<le> list_size l" and r: "1 < list_room l"
  have b: "origin l + i + 1 < 2 ^ 30" using i(2) r by (simp add: list_size_def list_room_def)
  show "list_ok (list_set l i x)" using list_set_correct [OF ok i(1) b] by blast
  show "list_abs (list_set l i x) = (if i < list_size l then (list_abs l)[nat i := x] else list_abs l @ [x])"
    using list_set_correct [OF ok i(1) b, of x] i(2) by simp
  show "list_room l - 1 \<le> list_room (list_set l i x)"
    using list_set_bounds [OF ok i, of x] r by (simp add: list_room_def)
qed

section \<open>Properties of the list\<close>

text \<open>
  C33: a list made from the values of an iterable has its length and gives each value back at its
  index, counted from the front or, with a negative index, from the back; past the end it gives the
  default.
\<close>

theorem pt_roundtrip:
  assumes "int (length xs) < 2 ^ 30"
  shows "list_size (pt xs) = int (length xs) \<and>
    (\<forall>i. list_get (pt xs) i d = (let j = wrap_index (int (length xs)) i
       in if 0 \<le> j \<and> j < int (length xs) then xs ! nat j else d))"
proof -
  have ok: "list_ok (pt xs)" "list_abs (pt xs) = xs" using pt_correct [OF assms] by auto
  then have "list_size (pt xs) = int (length xs)" using length_list_abs [OF ok(1)] by simp
  then show ?thesis using list_get_correct [OF ok(1)] ok(2) by (simp add: Let_def)
qed

theorem pt_roundtrip_witness:
  "list_size (pt (replicate 40 (Val True))) = 40 \<and> list_get (pt (replicate 40 (Val True))) (- 3) Undef = Val True"
  using pt_roundtrip [of "replicate 40 (Val True)" Undef] by (simp add: wrap_index_def)

text \<open>
  C3: \<open>push\<close> puts its arguments after the elements of the list, whatever the levels of the trie, the
  fill of the tail and the origin of the window; the invariant of the list is kept.
\<close>

theorem push_appends:
  assumes "list_ok l" "capacity l + int (length xs) < 2 ^ 30"
  shows "list_ok (push l xs) \<and> list_abs (push l xs) = list_abs l @ xs"
  using assms by (rule push_correct)

theorem push_appends_witness:
  "list_ok (push Et (replicate 70 (Val True))) \<and>
   list_abs (push Et (replicate 70 (Val True))) = list_abs Et @ replicate 70 (Val True)"
proof (rule push_appends)
  show "list_ok (Et :: bool imlist)" by (rule list_ok_Et)
  show "capacity Et + int (length (replicate 70 (Val True))) < 2 ^ 30" by (simp add: Et_def wt_def)
qed

text \<open>
  C34: \<open>set\<close> at an index of the list replaces that element only, and at an index past the end fills the gap
  with \<open>undefined\<close>; the invariant of the list is kept.
\<close>

theorem list_set_updates:
  assumes "list_ok e" "0 \<le> t" "origin e + t + 1 < 2 ^ 30"
  shows "list_ok (list_set e t x) \<and>
    list_abs (list_set e t x) = (if t < list_size e then (list_abs e)[nat t := x]
      else list_abs e @ replicate (nat (t - list_size e)) Undef @ [x])"
  using assms by (rule list_set_correct)

theorem list_set_updates_witness:
  "list_abs (list_set Et 3 (Val True)) = [Undef, Undef, Undef, Val True]"
proof -
  have "list_ok (Et :: bool imlist)" by (rule list_ok_Et)
  moreover have "origin (Et :: bool imlist) + 3 + 1 < 2 ^ 30" by (simp add: origin_Et)
  ultimately have "list_abs (list_set Et 3 (Val True)) = (if 3 < list_size (Et :: bool imlist) then (list_abs Et)[nat 3 := Val True]
      else list_abs Et @ replicate (nat (3 - list_size (Et :: bool imlist))) Undef @ [Val True])"
    using list_set_updates [of Et 3 "Val True"] by auto
  then show ?thesis by (simp add: list_size_Et list_abs_Et numeral_eq_Suc)
qed

section \<open>Removed elements that show again\<close>

text \<open>
  \<open>removeAfter\<close> returns a node unchanged when the new size is \<open>1 << level\<close>, although its later
  children hold elements past the new end. Shrinking a list of 97 elements to 40 leaves the elements
  64 to 95 in the trie, and growing it again shows them where \<open>undefined\<close> belongs.
\<close>

lemma setSize_shows_removed:
  "list_get (setSize (setSize (pt (replicate 97 (Val True))) 40) 97) 64 Undef = Val True"
  by code_simp

text \<open>
  The first test of \<open>removeBefore\<close> is parsed as \<open>index === level ? 1 << level : 0 || ...\<close>, so at
  level 5 the removal of the first five elements removes nothing. A later \<open>set\<close> before the start
  of the list shows them again.
\<close>

lemma slice_shows_removed:
  "list_get (list_set (list_slice (pt (replicate 40 (Val True))) 5 None) (- 40) (Val False)) 1 Undef = Val True"
  by code_simp

end
