(* ===== verification/Imm_List_Iter.thy ===== *)
theory Imm_List_Iter
  imports Imm_List_Trie
begin

text \<open>
  The iterator of \<open>List\<close> delivers the elements of the list in order, forwards or backwards, and ends.
\<close>

section \<open>Windows cut into blocks\<close>

lemma upto_cut: "s \<le> m \<Longrightarrow> m \<le> e + 1 \<Longrightarrow> [s..e] = [s..m - 1] @ [m..e]"
  for s m e :: int
proof (cases "m \<le> e")
  case False
  assume "m \<le> e + 1"
  with False have "m = e + 1" by simp
  then show ?thesis by simp
qed (rule upto_split1)

lemma upto_blocks:
  fixes lo hi i B s c :: int
  assumes "0 < B" "s \<le> c" "i + c * B \<le> hi + B"
  shows "concat (map (\<lambda>n. [max lo (i + n * B)..min hi (i + n * B + B) - 1]) [s..c - 1]) =
    [max lo (i + s * B)..min hi (i + c * B) - 1]"
  using assms(2,3)
proof (induction c rule: int_ge_induct)
  case base
  then show ?case by simp
next
  case (step c)
  let ?m = "i + c * B"
  have b: "i + s * B \<le> ?m" "?m \<le> hi" using step assms(1) by (simp_all add: algebra_simps)
  have "[max lo (i + s * B)..min hi (?m + B) - 1] =
    [max lo (i + s * B)..?m - 1] @ [max lo ?m..min hi (?m + B) - 1]"
  proof (cases "lo \<le> ?m")
    case True
    then show ?thesis using b assms(1) upto_cut [of "max lo (i + s * B)" ?m "min hi (?m + B) - 1"] by (simp add: max_def)
  next
    case False
    then show ?thesis using b by (simp add: max_def)
  qed
  moreover have "[s..c] = [s..c - 1] @ [c]" using step.hyps by (simp add: upto_rec2)
  moreover have "i + (c + 1) * B = ?m + B" by (simp add: algebra_simps)
  ultimately show ?case using step b assms(1) by (simp add: min_absorb2 add.assoc)
qed

lemma in_order_map: "in_order t (map f xs) = map f (in_order t xs)"
  by (simp add: in_order_def rev_map)

lemma in_order_concat: "concat (map (\<lambda>n. in_order t (f n)) (in_order t xs)) = in_order t (concat (map f xs))"
  by (simp add: in_order_def rev_concat rev_map comp_def)

lemma set_in_order [simp]: "set (in_order t xs) = set xs"
  by (simp add: in_order_def)

lemma map_upto_shift: "map (\<lambda>j. f (i + j)) [s..e] = map f [i + s..i + e]" for i s e :: int
proof -
  have "map (\<lambda>j. i + j) [s..e] = [i + s..i + e]"
    by (induction s e rule: upto.induct) (simp add: upto.simps [of _ j for j] add.assoc)
  then show ?thesis by (metis (no_types, lifting) comp_apply list.map_comp map_eq_conv)
qed

section \<open>The walk over the trie\<close>

lemma leaf_walk:
  assumes l: "0 \<le> origin l" "origin l \<le> capacity l" "capacity l < 2 ^ 30"
    and i: "0 \<le> i" "i \<le> capacity l" "i mod 32 = 0" "origin l \<le> i + 32"
    and e: "\<And>q. i \<le> q \<Longrightarrow> q < i + 32 \<Longrightarrow> q < Ot (capacity l) \<Longrightarrow> item_at (St e) (nat (q - i)) = elem l q"
  shows "list_walk l t e 0 i = Inr (in_order t (map (elem l) [max (origin l) i..min (capacity l) (i + 32) - 1]))"
proof -
  let ?o = "Ot (capacity l)" and ?a = "St (if i = Ot (capacity l) then tail l else e)"
  have c: "0 \<le> capacity l" using l by simp
  note F = Ot_props [OF c]
  define s where "s = (if i > origin l then 0 else origin l - i)"
  define k where "k = min 32 (capacity l - i)"
  have "item_at ?a (nat j) = elem l (i + j)" if "0 \<le> j" "j \<le> k - 1" for j
  proof (cases "i = ?o")
    case True
    have "int (digit (i + j) 0) = j" using digit_from [of i "i + j"] that i l by (simp add: k_def)
    then have "digit (i + j) 0 = nat j" by linarith
    then show ?thesis using True that by (simp add: elem_def)
  next
    case False
    have "i < ?o" using False mod32_next [OF F(4) i(3)] F(3) that by (force simp: k_def)
    then have "i + j < ?o" using mod32_next [OF i(3) F(4)] that by (simp add: k_def)
    then show ?thesis using e [of "i + j"] False that by (simp add: k_def)
  qed
  then have "map (\<lambda>j. item_at ?a (nat j)) [s..k - 1] = map (\<lambda>j. elem l (i + j)) [s..k - 1]"
    by (simp add: s_def)
  also have "\<dots> = map (elem l) [max (origin l) i..min (capacity l) (i + 32) - 1]"
  proof -
    have "i + s = max (origin l) i" "i + (k - 1) = min (capacity l) (i + 32) - 1" by (simp_all add: s_def k_def)
    then show ?thesis by (simp only: map_upto_shift)
  qed
  finally have eq: "map (\<lambda>j. item_at ?a (nat j)) [s..k - 1] = map (elem l) [max (origin l) i..min (capacity l) (i + 32) - 1]" .
  have "s \<le> k" using i l by (simp add: s_def k_def)
  then show ?thesis
    using eq by (simp add: list_walk.simps Let_def s_def [symmetric] k_def [symmetric] in_order_map [symmetric])
qed

lemma digit_block:
  fixes n q i :: int
  assumes "i mod 2 ^ (m + 5) = 0" "0 \<le> i" "0 \<le> n" "n < 32" "i + n * 2 ^ m \<le> q" "q < i + n * 2 ^ m + 2 ^ m" "q < 2 ^ 32"
  shows "digit q m = nat n"
proof -
  obtain x where x: "i = 2 ^ (m + 5) * x" using assms(1) by (metis mult_div_mod_eq add_0_right)
  have i: "i = (32 * x) * 2 ^ m" by (simp add: x power_add)
  have "q = (q - i - n * 2 ^ m) + (32 * x + n) * 2 ^ m" by (simp add: i algebra_simps)
  then have "q div 2 ^ m = 32 * x + n + (q - i - n * 2 ^ m) div 2 ^ m" by (metis div_mult_self1 add.commute power_not_zero zero_neq_numeral)
  also have "(q - i - n * 2 ^ m) div 2 ^ m = 0" using assms by simp
  finally have "(q div 2 ^ m) mod 32 = n" using assms by simp
  moreover have "0 \<le> q" using assms by (meson order_trans add_nonneg_nonneg mult_nonneg_nonneg zero_le_power zero_le_numeral)
  ultimately show ?thesis using assms(7) by (simp add: digit_def drop_bit_eq_div take_bit_eq_mod)
qed

lemma walk_correct:
  assumes l: "0 \<le> origin l" "origin l \<le> capacity l" "capacity l < 2 ^ 30"
    and i: "0 \<le> i" "i \<le> capacity l" "i mod 2 ^ (5 * k + 5) = 0" "origin l \<le> i + 2 ^ (5 * k + 5)"
    and e: "\<And>q. i \<le> q \<Longrightarrow> q < i + 2 ^ (5 * k + 5) \<Longrightarrow> q < Ot (capacity l) \<Longrightarrow> vget e (5 * k) q = elem l q"
  shows "list_walk l t e (5 * k) i =
    Inr (in_order t (map (elem l) [max (origin l) i..min (capacity l) (i + 2 ^ (5 * k + 5)) - 1]))"
  using i e
proof (induction k arbitrary: i e)
  case 0
  have "item_at (St e) (nat (q - i)) = elem l q" if "i \<le> q" "q < i + 32" "q < Ot (capacity l)" for q
  proof -
    have "Ot (capacity l) \<le> capacity l" using l by (intro Ot_props) simp
    then have "int (digit q 0) = q - i" using digit_from [of i q] that 0 l by simp
    then have "digit q 0 = nat (q - i)" by linarith
    then show ?thesis using 0(5) [of q] that by (simp add: vget_0)
  qed
  then show ?case using leaf_walk [OF l, of i e t] 0 by simp
next
  case (Suc k)
  define m where "m = 5 * k + 5"
  let ?B = "2 ^ m :: int"
  have B: "0 < ?B" "2 ^ (m + 5) = 32 * ?B" by (simp_all add: power_add)
  define s where "s = (if i > origin l then 0 else (origin l - i) div ?B)"
  define c where "c = min 32 (1 + (capacity l - i) div ?B)"
  have s: "0 \<le> s" "s \<le> 32" "max (origin l) (i + s * ?B) = max (origin l) i" "origin l \<le> i + s * ?B + ?B"
  proof -
    let ?d = "origin l - i"
    have d: "?d = ?d div ?B * ?B + ?d mod ?B" "0 \<le> ?d mod ?B" "?d mod ?B < ?B"
      by (simp_all only: div_mult_mod_eq B(1) pos_mod_bound pos_mod_sign)
    show "0 \<le> s" using B(1) by (simp add: s_def pos_imp_zdiv_nonneg_iff)
    have "?d div ?B \<le> 32" if "\<not> i > origin l"
      using Suc.prems(4) B zdiv_mono1 [of ?d "32 * ?B" ?B] by (simp add: m_def)
    then show "s \<le> 32" by (simp add: s_def)
    have "i + ?d div ?B * ?B \<le> origin l" "origin l \<le> i + ?d div ?B * ?B + ?B" using d by linarith+
    then show "origin l \<le> i + s * ?B + ?B" "max (origin l) (i + s * ?B) = max (origin l) i"
      using B(1) by (auto simp: s_def)
  qed
  have c: "s \<le> c" "c \<le> 32" "i + c * ?B \<le> capacity l + ?B"
    "min (capacity l) (i + c * ?B) = min (capacity l) (i + 2 ^ (m + 5))"
  proof -
    let ?d = "capacity l - i"
    have d: "?d = ?d div ?B * ?B + ?d mod ?B" "0 \<le> ?d mod ?B" "?d mod ?B < ?B"
      by (simp_all only: div_mult_mod_eq B(1) pos_mod_bound pos_mod_sign)
    have "(origin l - i) div ?B \<le> ?d div ?B" using l B(1) by (intro zdiv_mono1) auto
    moreover have "0 \<le> ?d div ?B" using Suc.prems(2) by (simp add: pos_imp_zdiv_nonneg_iff)
    ultimately show "s \<le> c" using s(2) by (auto simp: s_def c_def)
    show "c \<le> 32" by (simp add: c_def)
    have e: "(1 + ?d div ?B) * ?B = ?B + ?d div ?B * ?B" by (simp add: distrib_right)
    have "c * ?B \<le> (1 + ?d div ?B) * ?B" using B(1) by (intro mult_right_mono) (auto simp: c_def)
    then show "i + c * ?B \<le> capacity l + ?B" using d e by linarith
    show "min (capacity l) (i + c * ?B) = min (capacity l) (i + 2 ^ (m + 5))"
    proof (cases "32 \<le> 1 + ?d div ?B")
      case True
      then show ?thesis using B(2) by (simp add: c_def)
    next
      case False
      then have "c * ?B = (1 + ?d div ?B) * ?B" by (simp add: c_def)
      then have "capacity l \<le> i + c * ?B" using d e by linarith
      moreover have "(1 + ?d div ?B) * ?B \<le> 32 * ?B" using False B(1) by (intro mult_right_mono) auto
      then have "capacity l \<le> i + 2 ^ (m + 5)" using d B(2) e by linarith
      ultimately show ?thesis by (simp add: min_absorb1)
    qed
  qed
  have step: "list_walk l t (sub (item_at (St e) (nat n))) (5 * k) (i + n * ?B) =
      Inr (in_order t (map (elem l) [max (origin l) (i + n * ?B)..min (capacity l) (i + n * ?B + ?B) - 1]))"
    if n: "s \<le> n" "n < c" for n
    unfolding m_def
  proof (rule Suc.IH; unfold m_def [symmetric])
    have "s * ?B \<le> n * ?B" "(n + 1) * ?B \<le> c * ?B" "0 \<le> n * ?B"
      using n s(1) B(1) by (auto intro!: mult_right_mono)
    moreover have "(n + 1) * ?B = n * ?B + ?B" by (simp add: distrib_right)
    ultimately show "i + n * ?B \<le> capacity l" "origin l \<le> i + n * ?B + ?B" "0 \<le> i + n * ?B"
      using c(3) s(4) Suc.prems(1) by linarith+
    have "?B dvd i" using Suc.prems(3) by (metis m_def mod_0_imp_dvd dvd_trans le_imp_power_dvd le_add1 mult_Suc_right add.commute)
    then show "(i + n * ?B) mod ?B = 0" by simp
  next
    fix q assume q: "i + n * ?B \<le> q" "q < i + n * ?B + ?B" "q < Ot (capacity l)"
    have "0 \<le> n * ?B" "(n + 1) * ?B \<le> 32 * ?B" using n s(1) c(2) B(1) by (auto intro!: mult_right_mono)
    moreover have "(n + 1) * ?B = n * ?B + ?B" by (simp add: distrib_right)
    ultimately have "i \<le> q" "q < i + 2 ^ (m + 5)" using q B(2) by linarith+
    then have r: "i \<le> q" "q < i + 2 ^ (5 * Suc k + 5)" by (simp_all add: m_def)
    have "Ot (capacity l) \<le> capacity l" using l by (intro Ot_props) simp
    then have "digit q (5 * Suc k) = nat n"
      using digit_block [of i m n q] n s(1) c(2) Suc.prems(1,3) q l(3) by (simp add: m_def add.commute)
    then show "vget (sub (item_at (St e) (nat n))) (5 * k) q = elem l q"
      using Suc.prems(5) [OF r q(3)] by (simp only: vget_Suc)
  qed
  have m: "5 * Suc k = m" "m - 5 = 5 * k" "m \<noteq> 0" by (simp_all add: m_def)
  have "list_walk l t e (5 * Suc k) i =
    js_concat (map (\<lambda>n. list_walk l t (sub (item_at (St e) (nat n))) (5 * k) (i + n * ?B)) (in_order t [s..c - 1]))"
    using c(1) unfolding m(1) list_walk.simps [of l t e m] Let_def s_def [symmetric] c_def [symmetric] by (simp add: m)
  also have "\<dots> = Inr (concat (map (\<lambda>n. in_order t (map (elem l) [max (origin l) (i + n * ?B)..min (capacity l) (i + n * ?B + ?B) - 1]))
      (in_order t [s..c - 1])))"
    using step by (intro js_concat_map) simp
  also have "\<dots> = Inr (in_order t (map (elem l) [max (origin l) i..min (capacity l) (i + 2 ^ (m + 5)) - 1]))"
    using upto_blocks [OF B(1) c(1,3), of "origin l", unfolded s(3) c(4), symmetric]
    by (simp only: in_order_concat map_concat map_map comp_def)
  finally show ?case by (simp add: m_def add.commute)
qed

lemma list_items_correct:
  assumes "list_ok l"
  shows "list_items l t = Inr (in_order t (list_abs l))"
proof -
  have l: "0 \<le> origin l" "origin l \<le> capacity l" "capacity l < 2 ^ 30" and o: "Ot (capacity l) < 2 ^ (level l + 5)"
    using assms by (auto simp: list_ok_def)
  obtain k where k: "level l = 5 * Suc k" using assms by (auto simp: list_ok_def)
  have c: "0 \<le> capacity l" using l by simp
  have "(2::int) ^ (level l + 5) mod 32 = 0" by (simp add: power_add)
  then have w: "capacity l \<le> 2 ^ (level l + 5)"
    using mod32_next [OF Ot_props(4) [OF c] _ o] Ot_props(3) [OF c] by linarith
  have "list_walk l t (list_root l) (5 * Suc k) 0 =
      Inr (in_order t (map (elem l) [max (origin l) 0..min (capacity l) (0 + 2 ^ (5 * Suc k + 5)) - 1]))"
    using l w k by (intro walk_correct) (auto simp: elem_def)
  also have "[max (origin l) 0..min (capacity l) (0 + 2 ^ (5 * Suc k + 5)) - 1] = [origin l..capacity l - 1]"
    using l w k by simp
  also have "\<dots> = map (\<lambda>j. origin l + int j) [0..<nat (list_size l)]"
    using l by (intro nth_equalityI) (simp_all add: list_size_def)
  finally show ?thesis by (simp add: list_items_def list_abs_def k comp_def)
qed

lemma iter_index_all: "(\<And>s x n. snd (e s x n)) \<Longrightarrow> snd (iter_index e xs s r) = r + int (length xs)"
  by (induction xs arbitrary: s r) (auto simp: case_prod_unfold Let_def)

section \<open>Property\<close>

text \<open>
  C35: iterating over a list ends: the callback is called with the elements of the list in order, or
  backwards, until it returns \<open>false\<close>, and as often as the list has elements if it never does.
\<close>

theorem list_iterate_ends:
  assumes "list_ok l"
  shows "list_iterate e t l s = Inr (iter_index e (in_order t (list_abs l)) s 0) \<and>
    ((\<forall>s x n. snd (e s x n)) \<longrightarrow> map_sum id snd (list_iterate e t l s) = Inr (list_size l))"
proof -
  have "length (in_order t (list_abs l)) = length (list_abs l)" by (simp add: in_order_def)
  then show ?thesis using list_items_correct [OF assms, of t] iter_index_all [of e "in_order t (list_abs l)" s 0]
      length_list_abs [OF assms] by (simp add: list_iterate_def)
qed

theorem list_iterate_ends_witness:
  "map_sum id snd (list_iterate (\<lambda>s x n. (s, True)) True (wt 0 1 5 None (Some [Val True])) ()) = Inr 1"
proof -
  have "list_ok (wt 0 1 5 None (Some [Val True]))"
    by (auto simp: list_ok_def wt_def Ot_def St_def item_at_def)
  from conjunct2 [OF list_iterate_ends [OF this, of "\<lambda>s x n. (s, True)" True "()"]] show ?thesis
    by (simp add: list_size_def wt_def)
qed

end
