(* ===== verification/Imm_OrderedMap.thy ===== *)
theory Imm_OrderedMap
  imports Imm_Map_Ops Imm_List_Props Imm_List_Iter
begin

text \<open>
  \<^verbatim>\<open>OrderedMap\<close> (\<open>Pt\<close>) of the Immutable module: a map from keys to indices and a list of entries in
  order of insertion. A removed entry leaves a hole in the list; when the list has 32 elements or more
  and at least half of them are holes it is rebuilt.
\<close>

section \<open>The ordered map\<close>

record 'v omap =
  om_map :: "int immap"
  om_list :: "'v entry imlist"

definition om_size :: "'v omap \<Rightarrow> int" where
  "om_size e = map_size (om_map e)"

text \<open>\<open>Mt\<close> makes an ordered map, \<open>It\<close> is the empty one.\<close>

definition Mt :: "int immap \<Rightarrow> 'v entry imlist \<Rightarrow> 'v omap" where
  "Mt e t = \<lparr>om_map = e, om_list = t\<rparr>"

definition It :: "'v omap" where
  "It = Mt Xe Et"

definition om_get :: "'v omap \<Rightarrow> key \<Rightarrow> 'v option \<Rightarrow> 'v option js" where
  "om_get e k t =
     js_bind (map_get (om_map e) k None) (\<lambda>n.
       case n of
         None \<Rightarrow> Inr t
       | Some i \<Rightarrow> (case list_get (om_list e) i Undef of Val en \<Rightarrow> Inr (Some (snd en)) | _ \<Rightarrow> Inl TypeError))"

text \<open>The values of a list, holes left out: what \<open>__iterate\<close> shows of an ordered map.\<close>

fun vals :: "'a item list \<Rightarrow> 'a list" where
  "vals [] = []"
| "vals (Val x # xs) = x # vals xs"
| "vals (_ # xs) = vals xs"

definition om_entries :: "'v omap \<Rightarrow> 'v entry list" where
  "om_entries e = vals (list_abs (om_list e))"

text \<open>The rebuilt list without holes and without index \<open>u\<close>, and the map of its indices.\<close>

definition compact :: "'v entry imlist \<Rightarrow> int \<Rightarrow> 'v entry list js" where
  "compact a u =
     js_bind (list_items a False) (\<lambda>xs. Inr (vals (map (\<lambda>t. if u \<noteq> int t then xs ! t else Undef) [0..<length xs])))"

definition index_map :: "'v entry list \<Rightarrow> int immap" where
  "index_map o1 = Ue (Some (SSeq (map (\<lambda>i. (fst (o1 ! i), int i)) [0..<length o1])))"

definition jt :: "'v omap \<Rightarrow> key \<Rightarrow> 'v option \<Rightarrow> 'v omap js" where
  "jt e t n =
     js_bind (map_get (om_map e) t None) (\<lambda>u0.
       let i = om_map e; a = om_list e
       in case n of
            None \<Rightarrow>
              (case u0 of
                 None \<Rightarrow> Inr e
               | Some u \<Rightarrow>
                   if list_size a \<ge> 32 \<and> list_size a \<ge> 2 * map_size i then
                     js_bind (compact a u) (\<lambda>o1. Inr (Mt (index_map o1) (pt (map Val o1))))
                   else Inr (Mt (map_remove i t) (if u = list_size a - 1 then pop a else list_set a u Undef)))
          | Some x \<Rightarrow>
              (case u0 of
                 Some u \<Rightarrow>
                   (case list_get a u Undef of
                      Val en \<Rightarrow> if x = snd en then Inr e else Inr (Mt i (list_set a u (Val (t, x))))
                    | _ \<Rightarrow> Inl TypeError)
               | None \<Rightarrow> Inr (Mt (map_set i t (list_size a)) (list_set a (list_size a) (Val (t, x))))))"

definition om_set :: "'v omap \<Rightarrow> key \<Rightarrow> 'v \<Rightarrow> 'v omap js" where
  "om_set e k x = jt e k (Some x)"

definition om_remove :: "'v omap \<Rightarrow> key \<Rightarrow> 'v omap js" where
  "om_remove e k = jt e k None"

definition om_clear :: "'v omap \<Rightarrow> 'v omap" where
  "om_clear e = (if om_size e = 0 then e else It)"

definition om_iterate :: "('s \<Rightarrow> 'v \<Rightarrow> key \<Rightarrow> 's \<times> bool) \<Rightarrow> bool \<Rightarrow> 'v omap \<Rightarrow> 's \<Rightarrow> ('s \<times> int) js" where
  "om_iterate e t m s =
     list_iterate (\<lambda>s x n. case x of Val en \<Rightarrow> e s (snd en) (fst en) | _ \<Rightarrow> (s, True)) t (om_list m) s"

definition Pt :: "'v entry list \<Rightarrow> 'v omap js" where
  "Pt es = js_fold (\<lambda>(n, x) t. om_set t n x) es It"

section \<open>The invariant\<close>

text \<open>The map holds, for each key, the index of its entry in the list, and nothing else.\<close>

definition om_ok :: "'v omap \<Rightarrow> bool" where
  "om_ok e \<longleftrightarrow> map_ok (om_map e) \<and> list_ok (om_list e) \<and>
     (\<forall>k i. map_abs (om_map e) k = Some i \<longleftrightarrow>
        0 \<le> i \<and> i < list_size (om_list e) \<and> (\<exists>v. list_abs (om_list e) ! nat i = Val (k, v)))"

lemma vals_append [simp]: "vals (xs @ ys) = vals xs @ vals ys"
  by (induction xs rule: vals.induct) auto

lemma set_vals: "x \<in> set (vals xs) \<longleftrightarrow> (\<exists>i<length xs. xs ! i = Val x)"
proof -
  have "x \<in> set (vals xs) \<longleftrightarrow> Val x \<in> set xs" by (induction xs rule: vals.induct) auto
  then show ?thesis by (auto simp: in_set_conv_nth)
qed

lemma length_vals: "length (vals xs) \<le> length xs"
  by (induction xs rule: vals.induct) auto

lemma vals_map_Val [simp]: "vals (map Val xs) = xs"
  by (induction xs) auto

lemma om_ok_It: "om_ok It" "om_entries It = []"
  by (auto simp: om_ok_def It_def Mt_def hamt.laws list_ok_Et list_abs_Et list_size_Et om_entries_def)

text \<open>The specification of \<open>set\<close>: a known key keeps its place, a new one goes to the end.\<close>

definition assoc_set :: "key \<Rightarrow> 'v \<Rightarrow> 'v entry list \<Rightarrow> 'v entry list" where
  "assoc_set k x es = (if k \<in> fst ` set es then map (\<lambda>e. if fst e = k then (k, x) else e) es else es @ [(k, x)])"

lemma map_of_assoc_set: "map_of (assoc_set k x es) = (map_of es)(k \<mapsto> x)"
proof (cases "k \<in> fst ` set es")
  case True
  then have "map_of es k \<noteq> None" by (simp add: map_of_eq_None_iff)
  moreover have "map_of (map (\<lambda>e. if fst e = k then (k, x) else e) es) q =
      (if q = k then map_option (\<lambda>_. x) (map_of es k) else map_of es q)" for q
    by (induction es) auto
  ultimately show ?thesis using True by (auto simp: assoc_set_def fun_eq_iff)
next
  case False
  then have "map_of es k = None" by (simp add: map_of_eq_None_iff)
  then have "map_of (es @ [(k, x)]) q = ((map_of es)(k \<mapsto> x)) q" for q
    by (cases "q = k"; cases "map_of es q") (simp_all add: map_add_def)
  then show ?thesis using False unfolding assoc_set_def by (simp add: fun_eq_iff)
qed

lemma om_keys: "om_ok e \<Longrightarrow> k \<in> fst ` set (om_entries e) \<longleftrightarrow> map_abs (om_map e) k \<noteq> None"
proof -
  assume ok: "om_ok e"
  then have l: "list_ok (om_list e)" by (simp add: om_ok_def)
  have "k \<in> fst ` set (om_entries e) \<longleftrightarrow> (\<exists>i<length (list_abs (om_list e)). \<exists>v. list_abs (om_list e) ! i = Val (k, v))"
    by (force simp: om_entries_def set_vals image_iff)
  also have "\<dots> \<longleftrightarrow> (\<exists>i. map_abs (om_map e) k = Some i)"
    using ok length_list_abs [OF l] unfolding om_ok_def
    by (metis int_nat_eq nat_int of_nat_0_le_iff of_nat_less_iff)
  finally show ?thesis by auto
qed

lemma vals_update_fst:
  assumes "\<forall>i j. i < length xs \<longrightarrow> j < length xs \<longrightarrow> (\<exists>v w. xs ! i = Val (k, v) \<and> xs ! j = Val (k, w)) \<longrightarrow> i = j"
    "n < length xs" "xs ! n = Val (k, v)"
  shows "vals (xs[n := Val (k, x)]) = map (\<lambda>e. if fst e = k then (k, x) else e) (vals xs)"
  using assms
proof (induction xs arbitrary: n)
  case (Cons y ys)
  show ?case
  proof (cases n)
    case 0
    then have y: "y = Val (k, v)" using Cons.prems(3) by simp
    have "fst e \<noteq> k" if "e \<in> set (vals ys)" for e
    proof
      assume "fst e = k"
      with that obtain i where "i < length ys" "ys ! i = Val (k, snd e)" by (auto simp: set_vals)
      with Cons.prems(1) y have "Suc i = 0" by (metis Suc_less_eq length_Cons nth_Cons_0 nth_Cons_Suc zero_less_Suc)
      then show False by simp
    qed
    then have "map (\<lambda>e. if fst e = k then (k, x) else e) (vals ys) = vals ys" by (simp add: map_idI)
    then show ?thesis using 0 y by simp
  next
    case (Suc m)
    have "\<forall>i j. i < length ys \<longrightarrow> j < length ys \<longrightarrow> (\<exists>v w. ys ! i = Val (k, v) \<and> ys ! j = Val (k, w)) \<longrightarrow> i = j"
    proof (intro allI impI)
      fix i j assume "i < length ys" "j < length ys" "\<exists>v w. ys ! i = Val (k, v) \<and> ys ! j = Val (k, w)"
      then have "Suc i = Suc j" using Cons.prems(1) [rule_format, of "Suc i" "Suc j"] by simp
      then show "i = j" by simp
    qed
    moreover have "y \<noteq> Val (k, w)" for w
      using Cons.prems Suc by (metis Zero_not_Suc length_Cons nth_Cons_0 zero_less_Suc)
    ultimately show ?thesis using Cons.IH [of m] Cons.prems Suc by (cases y) (auto simp: prod_eq_iff)
  qed
qed simp

section \<open>Correctness\<close>

lemma om_index:
  assumes "om_ok e" "map_abs (om_map e) k = Some i"
  shows "0 \<le> i" "i < list_size (om_list e)" "\<exists>v. list_abs (om_list e) ! nat i = Val (k, v)" "nat i < length (list_abs (om_list e))"
  using assms trie_list.size_abs [of "om_list e"] by (auto simp: om_ok_def)

lemma om_unique:
  assumes "om_ok e" "i < length (list_abs (om_list e))" "j < length (list_abs (om_list e))"
    "list_abs (om_list e) ! i = Val (k, v)" "list_abs (om_list e) ! j = Val (k, w)"
  shows "i = j"
proof -
  have "list_size (om_list e) = int (length (list_abs (om_list e)))"
    using assms(1) trie_list.size_abs by (auto simp: om_ok_def)
  then have "map_abs (om_map e) k = Some (int i)" "map_abs (om_map e) k = Some (int j)"
    using assms by (auto simp: om_ok_def)
  then show "i = j" by simp
qed

lemma om_get_correct:
  assumes "om_ok e"
  shows "om_get e k d = Inr (case map_of (om_entries e) k of None \<Rightarrow> d | Some x \<Rightarrow> Some x)"
proof -
  have m: "map_ok (om_map e)" and l: "list_ok (om_list e)" using assms by (auto simp: om_ok_def)
  have g: "map_get (om_map e) k None = Inr (map_abs (om_map e) k)"
    by (auto simp: hamt.get_abs [OF m] split: option.split)
  show ?thesis
  proof (cases "map_abs (om_map e) k")
    case None
    then have "map_of (om_entries e) k = None" using om_keys [OF assms, of k] by (simp add: map_of_eq_None_iff)
    then show ?thesis using None g by (simp add: om_get_def)
  next
    case (Some i)
    note i = om_index [OF assms Some]
    then obtain v where v: "list_abs (om_list e) ! nat i = Val (k, v)" by blast
    have "map_of (om_entries e) k \<noteq> None" using om_keys [OF assms, of k] Some by (simp add: map_of_eq_None_iff)
    then obtain w where w: "map_of (om_entries e) k = Some w" by blast
    then obtain j where "j < length (list_abs (om_list e))" "list_abs (om_list e) ! j = Val (k, w)"
      using map_of_SomeD [OF w] by (auto simp: om_entries_def set_vals)
    then have "w = v" using om_unique [OF assms _ i(4) _ v] v by fastforce
    then show ?thesis using Some g w v trie_list.get_abs [OF l i(1,2)] by (simp add: om_get_def)
  qed
qed

lemma om_set_correct:
  assumes ok: "om_ok e" and room: "1 < list_room (om_list e)"
  shows "\<exists>e'. om_set e k x = Inr e' \<and> om_ok e' \<and> om_entries e' = assoc_set k x (om_entries e) \<and>
    list_room (om_list e) - 1 \<le> list_room (om_list e')"
proof -
  let ?a = "om_list e" and ?L = "list_abs (om_list e)"
  have m: "map_ok (om_map e)" and l: "list_ok ?a" using ok by (auto simp: om_ok_def)
  have sz: "list_size ?a = int (length ?L)" using trie_list.size_abs [OF l] .
  have g: "map_get (om_map e) k None = Inr (map_abs (om_map e) k)"
    by (auto simp: hamt.get_abs [OF m] split: option.split)
  show ?thesis
  proof (cases "map_abs (om_map e) k")
    case None
    then have new: "k \<notin> fst ` set (om_entries e)" using om_keys [OF ok] by auto
    let ?e = "Mt (map_set (om_map e) k (list_size ?a)) (list_set ?a (list_size ?a) (Val (k, x)))"
    have set: "om_set e k x = Inr ?e" using None g by (simp add: om_set_def jt_def Let_def)
    note put = trie_list.invar_put [OF l _ order.refl room] trie_list.abs_put [OF l _ order.refl room] trie_list.room_put [OF l _ order.refl room]
    have L': "list_ok (om_list ?e)" "list_abs (om_list ?e) = ?L @ [Val (k, x)]" "list_room ?a - 1 \<le> list_room (om_list ?e)"
      using put sz by (auto simp: Mt_def)
    have "list_size (om_list ?e) = list_size ?a + 1" using trie_list.size_abs [OF L'(1)] L'(2) sz by simp
    moreover have "\<not> (\<exists>v. ?L ! nat i = Val (k, v))" if "0 \<le> i" "i < list_size ?a" for i
      using ok None that unfolding om_ok_def by (metis option.distinct(1))
    ultimately have "om_ok ?e" using ok L'(1,2) m sz unfolding om_ok_def
      by (auto simp: Mt_def hamt.laws nth_append)
    moreover have "om_entries ?e = assoc_set k x (om_entries e)"
      using new L'(2) by (simp add: om_entries_def assoc_set_def)
    ultimately show ?thesis using set L'(3) by blast
  next
    case (Some i)
    note i = om_index [OF ok Some]
    then obtain v where v: "?L ! nat i = Val (k, v)" by blast
    have old: "k \<in> fst ` set (om_entries e)" using om_keys [OF ok] Some by auto
    have U: "vals (?L[nat i := Val (k, x)]) = assoc_set k x (om_entries e)"
      using vals_update_fst [of ?L k "nat i" v x] om_unique [OF ok] i(4) v old
      unfolding om_entries_def assoc_set_def by simp blast
    have get: "list_get ?a i Undef = Val (k, v)" using trie_list.get_abs [OF l i(1,2)] v by simp
    show ?thesis
    proof (cases "x = v")
      case True
      then have "om_set e k x = Inr e" using Some g get by (simp add: om_set_def jt_def Let_def)
      moreover have "?L[nat i := Val (k, x)] = ?L" using v True by (metis list_update_id)
      ultimately show ?thesis using ok U by (simp add: om_entries_def)
    next
      case False
      let ?e = "Mt (om_map e) (list_set ?a i (Val (k, x)))"
      have set: "om_set e k x = Inr ?e" using Some g get False by (simp add: om_set_def jt_def Let_def)
      have L': "list_ok (om_list ?e)" "list_abs (om_list ?e) = ?L[nat i := Val (k, x)]" "list_room ?a - 1 \<le> list_room (om_list ?e)"
        using trie_list.invar_put [OF l i(1) _ room] trie_list.abs_put [OF l i(1) _ room] trie_list.room_put [OF l i(1) _ room] i(2)
        by (auto simp: Mt_def)
      have "list_size (om_list ?e) = list_size ?a" using trie_list.size_abs [OF L'(1)] L'(2) sz by simp
      then have "om_ok ?e" using ok L'(1,2) m sz i v unfolding om_ok_def
        by (auto simp: Mt_def nth_list_update)
      then show ?thesis using set L' U by (auto simp: om_entries_def)
    qed
  qed
qed

text \<open>Removing an entry: a hole, a shorter list, or a list without holes.\<close>

lemma vals_hole: "i < length xs \<Longrightarrow> xs ! i = Val x \<Longrightarrow> vals (xs[i := Undef]) = vals (take i xs) @ vals (drop (Suc i) xs)"
  by (simp add: upd_conv_take_nth_drop)

lemma om_entries_without:
  assumes ok: "om_ok e" and k: "map_abs (om_map e) k = Some i"
  shows "vals ((list_abs (om_list e))[nat i := Undef]) = filter (\<lambda>en. fst en \<noteq> k) (om_entries e)"
proof -
  let ?L = "list_abs (om_list e)"
  note i = om_index [OF ok k]
  then obtain v where v: "?L ! nat i = Val (k, v)" by blast
  have L: "?L = take (nat i) ?L @ Val (k, v) # drop (Suc (nat i)) ?L" using id_take_nth_drop [OF i(4)] v by simp
  have other: "fst en \<noteq> k" if "j < length ?L" "j \<noteq> nat i" "?L ! j = Val en" for j en
    using om_unique [OF ok that(1) i(4) _ v, of "snd en"] that by auto
  have "fst en \<noteq> k" if en: "en \<in> set (vals (take (nat i) ?L))" for en
  proof -
    obtain j where "j < nat i" "j < length ?L" "?L ! j = Val en" using en by (auto simp: set_vals)
    then show ?thesis using other [of j en] by simp
  qed
  moreover have "fst en \<noteq> k" if en: "en \<in> set (vals (drop (Suc (nat i)) ?L))" for en
  proof -
    obtain j where "j < length ?L - Suc (nat i)" "?L ! (Suc (nat i) + j) = Val en" using en by (auto simp: set_vals)
    then show ?thesis using other [of "Suc (nat i) + j" en] by simp
  qed
  ultimately have "filter (\<lambda>en. fst en \<noteq> k) (vals (take (nat i) ?L)) = vals (take (nat i) ?L)"
    "filter (\<lambda>en. fst en \<noteq> k) (vals (drop (Suc (nat i)) ?L)) = vals (drop (Suc (nat i)) ?L)"
    by (simp_all add: filter_id_conv)
  then show ?thesis unfolding om_entries_def
    by (subst (2) L) (simp add: vals_hole [OF i(4) v])
qed

lemma distinct_vals:
  "(\<And>i j k v w. i < length xs \<Longrightarrow> j < length xs \<Longrightarrow> xs ! i = Val (k, v) \<Longrightarrow> xs ! j = Val (k, w) \<Longrightarrow> i = j) \<Longrightarrow>
   distinct (map fst (vals xs))"
proof (induction xs)
  case (Cons y ys)
  have d: "distinct (map fst (vals ys))"
  proof (rule Cons.IH)
    fix i j k v w assume "i < length ys" "j < length ys" "ys ! i = Val (k, v)" "ys ! j = Val (k, w)"
    then show "i = j" using Cons.prems [of "Suc i" "Suc j" k v w] by simp
  qed
  show ?case
  proof (cases y)
    case (Val en)
    have "fst en \<notin> fst ` set (vals ys)"
    proof
      assume "fst en \<in> fst ` set (vals ys)"
      then obtain j w where "j < length ys" "ys ! j = Val (fst en, w)" by (auto simp: set_vals)
      then show False using Cons.prems [of 0 "Suc j" "fst en" "snd en" w] Val by simp
    qed
    then show ?thesis using d Val by simp
  qed (use d in simp_all)
qed simp

lemma om_entries_distinct: "om_ok e \<Longrightarrow> distinct (map fst (om_entries e))"
  unfolding om_entries_def by (rule distinct_vals) (rule om_unique)

lemma map_of_index:
  "distinct (map fst es) \<Longrightarrow>
   map_of (rev (map (\<lambda>i. (fst (es ! i), int i)) [0..<length es])) k = Some i \<longleftrightarrow>
   0 \<le> i \<and> i < int (length es) \<and> fst (es ! nat i) = k"
proof -
  assume d: "distinct (map fst es)"
  let ?xs = "map (\<lambda>i. (fst (es ! i), int i)) [0..<length es]"
  have "map fst ?xs = map fst es" by (intro nth_equalityI) simp_all
  then have "distinct (map fst (rev ?xs))" using d by (simp add: rev_map [symmetric] del: map_map)
  then have "map_of (rev ?xs) k = Some i \<longleftrightarrow> (k, i) \<in> set ?xs" by (simp add: map_of_eq_Some_iff)
  also have "\<dots> \<longleftrightarrow> 0 \<le> i \<and> i < int (length es) \<and> fst (es ! nat i) = k" by (auto simp: image_iff)
  finally show ?thesis .
qed

lemma om_compact:
  assumes "distinct (map fst es)" "int (length es) < 2 ^ 30"
  shows "om_ok (Mt (index_map es) (pt (map Val es)))" "om_entries (Mt (index_map es) (pt (map Val es))) = es"
proof -
  have l: "list_ok (pt (map Val es))" "list_abs (pt (map Val es)) = map Val es" using pt_correct [of "map Val es"] assms(2) by auto
  show "om_entries (Mt (index_map es) (pt (map Val es))) = es" using l(2) by (simp add: om_entries_def Mt_def)
  have m: "map_ok (index_map es)" "map_abs (index_map es) = map_of (rev (map (\<lambda>i. (fst (es ! i), int i)) [0..<length es]))"
    by (simp_all add: index_map_def hamt.invar_fold_put hamt.abs_fold_put hamt.laws)
  show "om_ok (Mt (index_map es) (pt (map Val es)))"
    using l m(1) trie_list.size_abs [OF l(1)] unfolding om_ok_def
    by (auto simp: Mt_def m(2) map_of_index [OF assms(1)] prod_eq_iff)
qed

lemma om_remove_correct:
  assumes ok: "om_ok e" and room: "1 < list_room (om_list e)"
    and pop: "list_size (om_list e) \<le> 1 \<or> Ot (capacity (om_list e)) < capacity (om_list e) - 1"
  shows "\<exists>e'. om_remove e k = Inr e' \<and> om_ok e' \<and> om_entries e' = filter (\<lambda>en. fst en \<noteq> k) (om_entries e)"
proof -
  let ?a = "om_list e" and ?L = "list_abs (om_list e)" and ?E = "filter (\<lambda>en. fst en \<noteq> k) (om_entries e)"
  have m: "map_ok (om_map e)" and l: "list_ok ?a" using ok by (auto simp: om_ok_def)
  have sz: "list_size ?a = int (length ?L)" using trie_list.size_abs [OF l] .
  have g: "map_get (om_map e) k None = Inr (map_abs (om_map e) k)"
    by (auto simp: hamt.get_abs [OF m] split: option.split)
  show ?thesis
  proof (cases "map_abs (om_map e) k")
    case None
    then have "?E = om_entries e" using om_keys [OF ok, of k] by (force simp: filter_id_conv)
    then show ?thesis using None g ok by (auto simp: om_remove_def jt_def Let_def)
  next
    case (Some i)
    note i = om_index [OF ok Some]
    then obtain v where v: "?L ! nat i = Val (k, v)" by blast
    note E = om_entries_without [OF ok Some]
    have HOLE: "om_ok (Mt (map_remove (om_map e) k) a') \<and> om_entries (Mt (map_remove (om_map e) k) a') = ?E"
      if a': "list_ok a'" "vals (list_abs a') = vals (?L[nat i := Undef])"
        "\<And>k j v. 0 \<le> j \<and> j < list_size a' \<and> list_abs a' ! nat j = Val (k, v) \<longleftrightarrow>
          0 \<le> j \<and> j < list_size ?a \<and> j \<noteq> i \<and> ?L ! nat j = Val (k, v)" for a'
    proof
      show "om_entries (Mt (map_remove (om_map e) k) a') = ?E" using a'(2) E by (simp add: om_entries_def Mt_def)
      have "((map_abs (om_map e))(k := None)) q = Some j \<longleftrightarrow>
        (\<exists>v. 0 \<le> j \<and> j < list_size ?a \<and> j \<noteq> i \<and> ?L ! nat j = Val (q, v))" for q j
        using ok Some v unfolding om_ok_def by (auto simp: fun_upd_def) (metis option.inject)
      then show "om_ok (Mt (map_remove (om_map e) k) a')" using m a'(1) unfolding om_ok_def a'(3) [symmetric]
        by (auto simp: Mt_def hamt.laws)
    qed
    consider (compact) "list_size ?a \<ge> 32 \<and> list_size ?a \<ge> 2 * map_size (om_map e)"
      | (pop) "\<not> (list_size ?a \<ge> 32 \<and> list_size ?a \<ge> 2 * map_size (om_map e))" "i = list_size ?a - 1"
      | (hole) "\<not> (list_size ?a \<ge> 32 \<and> list_size ?a \<ge> 2 * map_size (om_map e))" "i \<noteq> list_size ?a - 1" by blast
    then show ?thesis
    proof cases
      case compact
      have "map (\<lambda>t. if i \<noteq> int t then ?L ! t else Undef) [0..<length ?L] = ?L[nat i := Undef]"
        using i(1) by (intro nth_equalityI) (auto simp: nth_list_update)
      then have "om_remove e k = Inr (Mt (index_map ?E) (pt (map Val ?E)))"
        using Some g compact E list_items_correct [OF l, of False]
        by (simp add: om_remove_def jt_def Let_def compact_def in_order_def)
      moreover have "distinct (map fst ?E)" using om_entries_distinct [OF ok] by (simp add: distinct_map_filter)
      moreover have "length ?E \<le> length ?L"
        unfolding om_entries_def by (rule order.trans [OF length_filter_le length_vals])
      then have "int (length ?E) < 2 ^ 30" using l sz by (simp add: list_ok_def list_size_def)
      ultimately show ?thesis using om_compact [of ?E] by blast
    next
      case pop
      have "om_remove e k = Inr (Mt (map_remove (om_map e) k) (Imm_List.pop ?a))"
        using Some g pop unfolding om_remove_def jt_def Let_def by auto
      moreover note p = pop_correct [OF l assms(3)]
      have s: "list_size (Imm_List.pop ?a) = list_size ?a - 1"
        using trie_list.size_abs [of "Imm_List.pop ?a"] p sz i(4) by simp
      have "?L[nat i := Undef] = butlast ?L @ [Undef]" using i(4) pop(2) sz
        by (intro nth_equalityI) (auto simp: nth_list_update nth_append nth_butlast)
      then have "vals (list_abs (Imm_List.pop ?a)) = vals (?L[nat i := Undef])" using p by simp
      then have "om_ok (Mt (map_remove (om_map e) k) (Imm_List.pop ?a)) \<and> om_entries (Mt (map_remove (om_map e) k) (Imm_List.pop ?a)) = ?E"
        using p s sz pop(2) by (intro HOLE) (auto simp: nth_butlast)
      ultimately show ?thesis by blast
    next
      case hole
      have "om_remove e k = Inr (Mt (map_remove (om_map e) k) (list_set ?a i Undef))"
        using Some g hole unfolding om_remove_def jt_def Let_def by auto
      moreover have a: "list_ok (list_set ?a i Undef)" "list_abs (list_set ?a i Undef) = ?L[nat i := Undef]"
        using trie_list.invar_put [OF l i(1) _ room] trie_list.abs_put [OF l i(1) _ room] i(2) by auto
      have "list_size (list_set ?a i Undef) = list_size ?a" using trie_list.size_abs [OF a(1)] a(2) sz by simp
      then have "om_ok (Mt (map_remove (om_map e) k) (list_set ?a i Undef)) \<and> om_entries (Mt (map_remove (om_map e) k) (list_set ?a i Undef)) = ?E"
        using a i sz by (intro HOLE) (auto simp: nth_list_update)
      ultimately show ?thesis by blast
    qed
  qed
qed

lemma Pt_run:
  assumes "om_ok e" "int (length es) < list_room (om_list e)"
  shows "\<exists>e'. js_fold (\<lambda>(n, x) t. om_set t n x) es e = Inr e' \<and> om_ok e' \<and>
    om_entries e' = fold (\<lambda>(k, x). assoc_set k x) es (om_entries e)"
  using assms
proof (induction es arbitrary: e)
  case (Cons en es)
  obtain k x where en: "en = (k, x)" by (cases en)
  obtain e' where e': "om_set e k x = Inr e'" "om_ok e'" "om_entries e' = assoc_set k x (om_entries e)"
    "list_room (om_list e) - 1 \<le> list_room (om_list e')"
    using om_set_correct [OF Cons.prems(1), of k x] Cons.prems(2) by auto
  then show ?case using Cons.IH [OF e'(2)] Cons.prems(2) by (simp add: en)
qed simp

lemma room_It: "list_room (om_list It) = 2 ^ 30" "list_size (om_list It) = 0"
  by (simp_all add: It_def Mt_def list_size_Et list_room_def origin_Et)

section \<open>Properties of the ordered map\<close>

text \<open>
  C10: an ordered map made from entries shows every key once, in the order in which the keys first
  occurred and each with its last value, and looks every key up; setting a key never fails.
\<close>

theorem Pt_insertion_order:
  assumes "int (length es) < 2 ^ 30"
  shows "\<exists>m. Pt es = Inr m \<and> om_ok m \<and> om_entries m = fold (\<lambda>(k, x). assoc_set k x) es [] \<and>
    (\<forall>k. om_get m k None = Inr (map_of (rev es) k))"
proof -
  obtain m where m: "Pt es = Inr m" "om_ok m" "om_entries m = fold (\<lambda>(k, x). assoc_set k x) es []"
    using Pt_run [OF om_ok_It(1), of es] assms by (auto simp: Pt_def om_ok_It(2) room_It)
  have "map_of (fold (\<lambda>(k, x). assoc_set k x) es xs) k = (map_of xs ++ map_of (rev es)) k" for xs k
    by (induction es arbitrary: xs) (auto simp: map_of_assoc_set map_add_def split: option.splits)
  then have "map_of (om_entries m) k = map_of (rev es) k" for k by (simp add: m(3))
  moreover have "om_get m k None = Inr (map_of (om_entries m) k)" for k
    using om_get_correct [OF m(2), of k None] by (cases "map_of (om_entries m) k") simp_all
  ultimately show ?thesis using m by auto
qed

theorem Pt_insertion_order_witness:
  "\<exists>m. Pt [(KNum 2, True), (KNum 1, False), (KNum 2, False)] = Inr m \<and>
    om_entries m = [(KNum 2, False), (KNum 1, False)]"
  using Pt_insertion_order [of "[(KNum 2, True), (KNum 1, False), (KNum 2, False)]"]
  by (auto simp: assoc_set_def)



end
