(* ===== verification/Imm_Set.thy ===== *)
theory Imm_Set
  imports Imm_Map_Ops
begin

text \<open>
  \<^verbatim>\<open>Set\<close> (\<open>sn\<close>) of the Immutable module: a map from the elements to \<open>true\<close>. The contract of a set
  holds for every persistent map, and is interpreted on the code's definitions.
\<close>

section \<open>The set\<close>

type_synonym imset = "bool immap"

definition vn :: imset where
  "vn = Xe"

definition set_size :: "imset \<Rightarrow> int" where
  "set_size e = map_size e"

text \<open>\<open>dn\<close>: the set over an updated map; the same set when the map is the same.\<close>

definition dn :: "imset \<Rightarrow> imset \<Rightarrow> imset" where
  "dn e t = (if t = e then e else if map_size t = 0 then vn else t)"

definition set_has :: "imset \<Rightarrow> key \<Rightarrow> bool js" where
  "set_has s e = map_has s e"

definition set_add :: "imset \<Rightarrow> key \<Rightarrow> imset" where
  "set_add s e = dn s (map_set s e True)"

definition set_remove :: "imset \<Rightarrow> key \<Rightarrow> imset" where
  "set_remove s e = dn s (map_remove s e)"

definition set_clear :: "imset \<Rightarrow> imset" where
  "set_clear s = dn s (map_clear s)"

text \<open>A source of elements: a set, or the values of an iterable in order.\<close>

datatype esource = ESet imset | ESeq "key list"

fun esource_elems :: "esource \<Rightarrow> key list" where
  "esource_elems (ESet s) = map fst (map_entries s)"
| "esource_elems (ESeq es) = es"

fun esource_size :: "esource \<Rightarrow> int" where
  "esource_size (ESet s) = set_size s"
| "esource_size (ESeq es) = int (length es)"

fun sn :: "esource option \<Rightarrow> imset" where
  "sn None = vn"
| "sn (Some (ESet s)) = s"
| "sn (Some (ESeq es)) = fold (\<lambda>e t. set_add t e) es vn"

definition union_sets :: "imset \<Rightarrow> esource list \<Rightarrow> imset" where
  "union_sets s t0 =
     (let t = filter (\<lambda>e. esource_size e \<noteq> 0) t0
      in if t = [] then s
         else if set_size s \<noteq> 0 \<or> length t \<noteq> 1 then fold (\<lambda>e s. set_add s e) (concat (map esource_elems t)) s
         else sn (Some (hd t)))"

text \<open>\<open>includes\<close>: a linear search with \<open>is\<close>.\<close>

definition includes_elem :: "esource \<Rightarrow> key \<Rightarrow> bool" where
  "includes_elem e n = list_ex (\<lambda>t. he t n) (esource_elems e)"

definition intersect :: "imset \<Rightarrow> esource list \<Rightarrow> imset" where
  "intersect s t =
     (if t = [] then s
      else fold (\<lambda>n e. if list_all (\<lambda>x. includes_elem x n) t then e else set_remove e n) (map fst (map_entries s)) s)"

definition subtract :: "imset \<Rightarrow> esource list \<Rightarrow> imset" where
  "subtract s t =
     (if t = [] then s
      else fold (\<lambda>n e. if list_ex (\<lambda>x. includes_elem x n) t then set_remove e n else e) (map fst (map_entries s)) s)"

definition isSubset :: "imset \<Rightarrow> esource \<Rightarrow> bool" where
  "isSubset s e = list_all (\<lambda>t. includes_elem e t) (map fst (map_entries s))"

definition set_iterate :: "('s \<Rightarrow> key \<Rightarrow> 's \<times> bool) \<Rightarrow> bool \<Rightarrow> imset \<Rightarrow> 's \<Rightarrow> 's \<times> nat" where
  "set_iterate e t s x = map_iterate (\<lambda>x v r. e x r) t s x"

section \<open>The contract of a set\<close>

locale key_set =
  fixes empty :: 's
    and has :: "'s \<Rightarrow> 'k \<Rightarrow> bool js"
    and add :: "'s \<Rightarrow> 'k \<Rightarrow> 's"
    and remove :: "'s \<Rightarrow> 'k \<Rightarrow> 's"
    and size :: "'s \<Rightarrow> int"
    and invar :: "'s \<Rightarrow> bool"
    and elems :: "'s \<Rightarrow> 'k set"
  assumes invar_empty: "invar empty" and elems_empty: "elems empty = {}"
    and has_elems: "invar s \<Longrightarrow> has s k = Inr (k \<in> elems s)"
    and invar_add: "invar s \<Longrightarrow> invar (add s k)" and elems_add: "invar s \<Longrightarrow> elems (add s k) = insert k (elems s)"
    and invar_remove: "invar s \<Longrightarrow> invar (remove s k)" and elems_remove: "invar s \<Longrightarrow> elems (remove s k) = elems s - {k}"
    and size_elems: "invar s \<Longrightarrow> finite (elems s) \<and> size s = int (card (elems s))"
begin

lemmas set_laws = invar_empty elems_empty has_elems invar_add elems_add invar_remove elems_remove

lemma add_all: "invar s \<Longrightarrow> invar (fold (\<lambda>k s. add s k) ks s) \<and> elems (fold (\<lambda>k s. add s k) ks s) = elems s \<union> set ks"
  by (induction ks arbitrary: s) (auto simp: set_laws)

lemma remove_all:
  "invar s \<Longrightarrow> invar (fold (\<lambda>k s. if P k then s else remove s k) ks s) \<and>
     elems (fold (\<lambda>k s. if P k then s else remove s k) ks s) = elems s - {k \<in> set ks. \<not> P k}"
  by (induction ks arbitrary: s) (auto simp: set_laws)

end

section \<open>Correctness\<close>

text \<open>A set is well formed when its map is and holds nothing but \<open>true\<close>.\<close>

definition set_ok :: "imset \<Rightarrow> bool" where
  "set_ok s \<longleftrightarrow> map_ok s \<and> ran (map_abs s) \<subseteq> {True}"

definition set_elems :: "imset \<Rightarrow> key set" where
  "set_elems s = dom (map_abs s)"

lemma dn_correct:
  assumes "map_ok t"
  shows "map_ok (dn e t) \<and> map_abs (dn e t) = map_abs t"
proof -
  have "map_abs t = Map.empty" if "map_size t = 0"
    using that hamt.size_abs [OF assms] by (simp add: card_eq_0_iff)
  then show ?thesis using assms by (auto simp: dn_def vn_def hamt.laws)
qed

interpretation hash_set: key_set vn set_has set_add set_remove set_size set_ok set_elems
proof unfold_locales
  show "set_ok vn" "set_elems vn = {}" by (simp_all add: set_ok_def set_elems_def vn_def hamt.laws)
next
  fix s :: imset and k
  assume s: "set_ok s"
  then have m: "map_ok s" and t: "ran (map_abs s) \<subseteq> {True}" by (auto simp: set_ok_def)
  show "set_has s k = Inr (k \<in> set_elems s)"
    by (auto simp: set_has_def map_has_def hamt.get_abs [OF m] set_elems_def split: option.split)
  show "set_ok (set_add s k)" "set_elems (set_add s k) = insert k (set_elems s)"
    using dn_correct [OF hamt.invar_put [OF m], of s k True] m t
    by (auto simp: set_add_def set_ok_def set_elems_def hamt.laws ran_def split: if_splits)
  show "set_ok (set_remove s k)" "set_elems (set_remove s k) = set_elems s - {k}"
    using dn_correct [OF hamt.invar_remove [OF m], of s k] m t
    by (auto simp: set_remove_def set_ok_def set_elems_def hamt.laws ran_def split: if_splits)
  show "finite (set_elems s) \<and> set_size s = int (card (set_elems s))"
    using hamt.size_abs [OF m] by (simp add: set_elems_def set_size_def)
qed

lemma entries_elems: "set_ok s \<Longrightarrow> fst ` set (map_entries s) = set_elems s"
  by (simp add: set_elems_def map_abs_def dom_map_of_conv_image_fst)

fun esource_ok :: "esource \<Rightarrow> bool" where
  "esource_ok (ESet s) = set_ok s"
| "esource_ok (ESeq es) = True"

lemma includes_elem_iff: "includes_elem e n \<longleftrightarrow> n \<in> set (esource_elems e)"
  by (auto simp: includes_elem_def list_ex_iff)

lemma sn_correct: "esource_ok t \<Longrightarrow> set_ok (sn (Some t)) \<and> set_elems (sn (Some t)) = set (esource_elems t)"
  using hash_set.add_all [OF hash_set.invar_empty]
  by (cases t) (simp_all add: entries_elems hash_set.elems_empty)

lemma union_correct:
  assumes s: "set_ok s" and t: "\<forall>e\<in>set t. esource_ok e"
  shows "set_ok (union_sets s t) \<and> set_elems (union_sets s t) = set_elems s \<union> (\<Union>e\<in>set t. set (esource_elems e))"
proof -
  let ?t = "filter (\<lambda>e. esource_size e \<noteq> 0) t"
  have nil: "esource_elems e = []" if "e \<in> set t" "esource_size e = 0" for e
  proof (cases e)
    case (ESet x)
    have ok: "set_ok x" using t that(1) ESet by auto
    then have "map_ok x" by (simp add: set_ok_def)
    then show ?thesis using that(2) ESet by (simp add: set_size_def map_ok_def)
  qed (use that(2) in simp)
  then have U: "(\<Union>e\<in>set ?t. set (esource_elems e)) = (\<Union>e\<in>set t. set (esource_elems e))"
    by (fastforce dest: nil)
  consider "?t = []" | "?t \<noteq> []" "set_size s \<noteq> 0 \<or> length ?t \<noteq> 1" | e where "?t = [e]" "set_size s = 0"
    by (auto simp: length_Suc_conv)
  then show ?thesis
  proof cases
    case 1
    then show ?thesis using s U by (simp add: union_sets_def Let_def)
  next
    case 2
    then show ?thesis using hash_set.add_all [OF s, of "concat (map esource_elems ?t)"] U
      by (simp add: union_sets_def Let_def)
  next
    case 3
    have "e \<in> set ?t" using 3 by simp
    then have "esource_ok e" using t by simp
    moreover have "set_elems s = {}" using 3(2) hash_set.size_elems [OF s] by (simp add: card_eq_0_iff)
    moreover have "(\<Union>e\<in>set t. set (esource_elems e)) = set (esource_elems e)" using U 3 by simp
    moreover have "union_sets s t = sn (Some e)" using 3 by (simp add: union_sets_def Let_def)
    ultimately show ?thesis using sn_correct [of e] by simp
  qed
qed

lemma intersect_correct:
  assumes s: "set_ok s"
  shows "set_ok (intersect s t) \<and> set_elems (intersect s t) = {x \<in> set_elems s. \<forall>e\<in>set t. x \<in> set (esource_elems e)}"
  using hash_set.remove_all [OF s, of "\<lambda>n. list_all (\<lambda>x. includes_elem x n) t" "map fst (map_entries s)"] s
  by (auto simp: intersect_def entries_elems list_all_iff includes_elem_iff)

lemma subtract_correct:
  assumes s: "set_ok s"
  shows "set_ok (subtract s t) \<and> set_elems (subtract s t) = {x \<in> set_elems s. \<forall>e\<in>set t. x \<notin> set (esource_elems e)}"
proof -
  have "subtract s t = (if t = [] then s else
      fold (\<lambda>n e. if list_all (\<lambda>x. \<not> includes_elem x n) t then e else set_remove e n) (map fst (map_entries s)) s)"
    by (simp add: subtract_def list_all_iff list_ex_iff cong: if_cong)
      (intro impI fold_cong; auto)
  then show ?thesis
    using hash_set.remove_all [OF s, of "\<lambda>n. list_all (\<lambda>x. \<not> includes_elem x n) t" "map fst (map_entries s)"] s
    by (auto simp: entries_elems list_all_iff includes_elem_iff)
qed



end
