(* ===== verification/Imm_Stack.thy ===== *)
theory Imm_Stack
  imports Imm_List
begin

text \<open>
  \<^verbatim>\<open>Stack\<close> (\<open>En\<close>) of the Immutable module: a linked list with its size. Pushing several arguments
  leaves the first of them on top; \<open>slice\<close> drops cells while the end stays, and otherwise rebuilds the
  stack from the slice of its values.
\<close>

section \<open>The stack\<close>

datatype 'v cell = Cell (cell_value: 'v) (cell_next: "'v cell option")

record 'v stack =
  stack_size :: int
  head :: "'v cell option"

definition An :: "int \<Rightarrow> 'v cell option \<Rightarrow> 'v stack" where
  "An e t = \<lparr>stack_size = e, head = t\<rparr>"

definition On :: "'v stack" where
  "On = An 0 None"

text \<open>Following \<open>next\<close> while there is a cell and the count has not run out.\<close>

fun walk :: "nat \<Rightarrow> 'v cell option \<Rightarrow> 'v cell option" where
  "walk n None = None"
| "walk 0 (Some c) = Some c"
| "walk (Suc n) (Some c) = walk n (cell_next c)"

text \<open>
  The count is decremented and tested for zero, so a negative index (below \<open>- size\<close>) runs off the
  end of the list.
\<close>

definition stack_get :: "'v stack \<Rightarrow> int \<Rightarrow> 'v \<Rightarrow> 'v" where
  "stack_get s e0 t =
     (let e = wrap_index (stack_size s) e0
      in if e < 0 then t
         else case walk (nat e) (head s) of None \<Rightarrow> t | Some n \<Rightarrow> cell_value n)"

definition peek :: "'v stack \<Rightarrow> 'v option" where
  "peek s = map_option cell_value (head s)"

definition stack_push :: "'v stack \<Rightarrow> 'v list \<Rightarrow> 'v stack" where
  "stack_push s args =
     (if args = [] then s
      else An (stack_size s + int (length args))
             (foldr (\<lambda>a t. Some (Cell a t)) args (head s)))"

definition pushAll :: "'v stack \<Rightarrow> 'v list \<Rightarrow> 'v stack" where
  "pushAll s e =
     (if e = [] then s
      else let (t, n) = fold (\<lambda>x (t, n). (t + 1, Some (Cell x n))) (rev e) (stack_size s, head s) in An t n)"

lemma cell_next_less: "cell_next r = Some c \<Longrightarrow> size c < size r"
  by (cases r) auto

text \<open>\<open>__iterate\<close>: the values from the top until the callback stops.\<close>

function stack_iterate :: "('s \<Rightarrow> 'v \<Rightarrow> nat \<Rightarrow> 's \<times> bool) \<Rightarrow> 'v cell option \<Rightarrow> nat \<Rightarrow> 's \<Rightarrow> 's \<times> nat" where
  "stack_iterate e None n s = (s, n)"
| "stack_iterate e (Some r) n s =
     (let (s1, ok) = e s (cell_value r) n in if ok then stack_iterate e (cell_next r) (Suc n) s1 else (s1, Suc n))"
  by pat_completeness auto
termination
  by (relation "measure (\<lambda>(_, c, _). case c of None \<Rightarrow> 0 | Some x \<Rightarrow> Suc (size x))")
    (use cell_next_less in \<open>auto split: option.splits\<close>)

function cells :: "'v cell option \<Rightarrow> 'v list" where
  "cells None = []"
| "cells (Some c) = cell_value c # cells (cell_next c)"
  by pat_completeness auto
termination
  by (relation "measure (\<lambda>c. case c of None \<Rightarrow> 0 | Some x \<Rightarrow> Suc (size x))")
    (use cell_next_less in \<open>auto split: option.splits\<close>)

text \<open>\<open>slice\<close>; the general slice of an indexed iterable takes the values between the bounds.\<close>

definition slice_values :: "'v list \<Rightarrow> int \<Rightarrow> int option \<Rightarrow> 'v list" where
  "slice_values xs e t =
     (let n = int (length xs); b = resolve_begin (Some e) n; f = resolve_end t n
      in take (nat (f - b)) (drop (nat b) xs))"

definition stack_slice :: "'v stack \<Rightarrow> int \<Rightarrow> int option \<Rightarrow> 'v stack" where
  "stack_slice s e t =
     (if whole_slice e t (stack_size s) then s
      else let n = resolve_begin (Some e) (stack_size s)
           in if resolve_end t (stack_size s) \<noteq> stack_size s
              then pushAll On (slice_values (cells (head s)) e t)
              else An (stack_size s - n) (walk (nat n) (head s)))"

definition stack_pop :: "'v stack \<Rightarrow> 'v stack" where
  "stack_pop s = stack_slice s 1 None"

definition stack_clear :: "'v stack \<Rightarrow> 'v stack" where
  "stack_clear s = (if stack_size s = 0 then s else On)"

section \<open>Correctness\<close>

definition stack_abs :: "'v stack \<Rightarrow> 'v list" where
  "stack_abs s = cells (head s)"

definition stack_ok :: "'v stack \<Rightarrow> bool" where
  "stack_ok s \<longleftrightarrow> stack_size s = int (length (stack_abs s))"

lemma cells_walk: "cells (walk n c) = drop n (cells c)"
  by (induction n c rule: walk.induct) auto

lemma walk_None: "length (cells c) \<le> n \<Longrightarrow> walk n c = None"
  using cells_walk [of n c] by (cases "walk n c") auto

lemma walk_value: "n < length (cells c) \<Longrightarrow> \<exists>x. walk n c = Some x \<and> cell_value x = cells c ! n"
proof -
  assume n: "n < length (cells c)"
  then have "cells (walk n c) = cells c ! n # drop (Suc n) (cells c)"
    by (simp add: cells_walk Cons_nth_drop_Suc)
  then show ?thesis by (cases "walk n c") auto
qed

lemma cells_foldr: "cells (foldr (\<lambda>a t. Some (Cell a t)) xs c) = xs @ cells c"
  by (induction xs) auto

lemma push_loop: "fold (\<lambda>x (t, n). (t + 1, Some (Cell x n))) xs (t, c) = (t + int (length xs), fold (\<lambda>x n. Some (Cell x n)) xs c)"
  by (induction xs arbitrary: t c) auto

lemma cells_fold: "cells (fold (\<lambda>x n. Some (Cell x n)) xs c) = rev xs @ cells c"
  by (induction xs arbitrary: c) auto

lemma pushAll_correct: "stack_ok s \<Longrightarrow> stack_ok (pushAll s e) \<and> stack_abs (pushAll s e) = e @ stack_abs s"
  by (auto simp: pushAll_def push_loop An_def stack_ok_def stack_abs_def cells_fold)

lemma On_correct: "stack_ok On" "stack_abs On = []"
  by (simp_all add: On_def An_def stack_ok_def stack_abs_def)

lemma resolve_bounds:
  "0 \<le> n \<Longrightarrow> 0 \<le> resolve_begin e n \<and> resolve_begin e n \<le> n"
  "0 \<le> n \<Longrightarrow> 0 \<le> resolve_end e n \<and> resolve_end e n \<le> n \<or> (\<exists>x<0. e = Some x)"
  by (auto simp: resolve_begin_def resolve_end_def resolve_index_def split: option.split)

lemma stack_slice_correct:
  assumes "stack_ok s"
  shows "stack_ok (stack_slice s e t) \<and> stack_abs (stack_slice s e t) = slice_values (stack_abs s) e t"
proof -
  let ?n = "stack_size s"
  have n: "?n = int (length (stack_abs s))" using assms by (simp add: stack_ok_def)
  consider (whole) "whole_slice e t ?n" | (rebuild) "\<not> whole_slice e t ?n" "resolve_end t ?n \<noteq> ?n"
    | (walk) "\<not> whole_slice e t ?n" "resolve_end t ?n = ?n" by blast
  then show ?thesis
  proof cases
    case whole
    then have "resolve_begin (Some e) ?n = 0" "resolve_end t ?n = ?n"
      using n by (auto simp: whole_slice_def resolve_begin_def resolve_end_def resolve_index_def simp flip: length_0_conv split: option.splits)
    then show ?thesis using whole assms n by (simp add: stack_slice_def slice_values_def)
  next
    case rebuild
    then have "stack_slice s e t = pushAll On (slice_values (cells (head s)) e t)" by (simp add: stack_slice_def Let_def)
    then show ?thesis using pushAll_correct [OF On_correct(1), of "slice_values (cells (head s)) e t"]
      by (simp add: On_correct stack_abs_def [of s])
  next
    case walk
    let ?b = "resolve_begin (Some e) ?n"
    have b: "0 \<le> ?b" "?b \<le> ?n" using resolve_bounds(1) [of ?n "Some e"] n by auto
    have "stack_slice s e t = An (?n - ?b) (walk (nat ?b) (head s))" using walk by (simp add: stack_slice_def Let_def)
    moreover have "stack_abs (An (?n - ?b) (walk (nat ?b) (head s))) = drop (nat ?b) (stack_abs s)"
      by (simp add: stack_abs_def An_def cells_walk)
    moreover have "slice_values (stack_abs s) e t = drop (nat ?b) (stack_abs s)"
      using walk(2) b n by (simp add: slice_values_def Let_def)
    ultimately show ?thesis using b n by (simp add: stack_ok_def An_def)
  qed
qed



end
