(* ===== verification/Buf_Bytes.thy ===== *)
theory Buf_Bytes
  imports JS_Prelude
begin

text \<open>
  The bytes of a \<^verbatim>\<open>Buffer\<close> (the browser's version of the module of Node.js): reading and storing a
  byte, and the numbers that a sequence of bytes stands for, in either order.

  A buffer is the list of its bytes; a method that writes returns the new list. A read outside the
  buffer is \<open>undefined\<close> and a store there is ignored, as for the \<open>Uint8Array\<close> below a buffer.
\<close>

named_theorems buf_ops \<open>unfolding rules of the reads and stores of a buffer\<close>

type_synonym buf = "u8 list"

definition blen :: "buf \<Rightarrow> int" where
  [buf_ops]: "blen b = int (length b)"

definition byte_at :: "buf \<Rightarrow> int \<Rightarrow> int option" where
  "byte_at b i = (if 0 \<le> i \<and> i < blen b then Some (uint (b ! nat i)) else None)"

definition store :: "buf \<Rightarrow> int \<Rightarrow> int \<Rightarrow> buf" where
  "store b i v = (if 0 \<le> i \<and> i < blen b then b[nat i := word_of_int v] else b)"

text \<open>An operand of a bitwise operator: \<open>undefined\<close> counts as 0.\<close>

definition bits_of :: "int option \<Rightarrow> int32" where
  [buf_ops]: "bits_of x = (case x of None \<Rightarrow> 0 | Some v \<Rightarrow> ToInt32 v)"

text \<open>\<open>e |= 0\<close>, \<open>255 & e\<close> and \<open>e >>> n\<close> on an integer.\<close>

definition to32 :: "int \<Rightarrow> int" where
  [buf_ops]: "to32 e = sint (ToInt32 e)"

definition and255 :: "int \<Rightarrow> int" where
  [buf_ops]: "and255 e = uint (255 AND ToInt32 e)"

definition shr :: "int \<Rightarrow> nat \<Rightarrow> int" where
  [buf_ops]: "shr e n = uint (ushr (ToInt32 e) n)"

lemma length_store [simp]: "length (store b i v) = length b" "blen (store b i v) = blen b"
  by (simp_all add: store_def blen_def)

lemma byte_at_store:
  "byte_at (store b i v) j = (if i = j \<and> 0 \<le> i \<and> i < blen b then Some (v mod 256) else byte_at b j)"
  by (auto simp: byte_at_def store_def blen_def uint_word_of_int nth_list_update nat_eq_iff)

lemma byte_at_range: "byte_at b i = Some v \<Longrightarrow> 0 \<le> v \<and> v < 256 \<and> 0 \<le> i \<and> i < blen b"
  using uint_lt2p [of "b ! nat i"] by (auto simp: byte_at_def split: if_splits)

lemma byte_at_None: "byte_at b i = None \<longleftrightarrow> i < 0 \<or> blen b \<le> i"
  by (auto simp: byte_at_def)

lemma u8_range: "0 \<le> uint (x :: u8)" "uint (x :: u8) < 256"
  using uint_lt2p [of x] by simp_all

lemma uint_u8 [simp]: "uint (word_of_int v :: u8) = v mod 256"
  by (simp add: uint_word_of_int)

lemma buf_eqI: "length a = length b \<Longrightarrow> (\<And>i. 0 \<le> i \<Longrightarrow> i < blen b \<Longrightarrow> byte_at a i = byte_at b i) \<Longrightarrow> a = b"
proof (rule nth_equalityI)
  fix i assume l: "length a = length b" and e: "\<And>i. 0 \<le> i \<Longrightarrow> i < blen b \<Longrightarrow> byte_at a i = byte_at b i" and i: "i < length a"
  then have "uint (a ! i) = uint (b ! i)" using e [of "int i"] by (simp add: byte_at_def blen_def)
  then show "a ! i = b ! i" by (simp add: word_uint_eq_iff)
qed

lemma to32_id: "- (2 ^ 31) \<le> e \<Longrightarrow> e < 2 ^ 31 \<Longrightarrow> to32 e = e"
  by (simp add: to32_def ToInt32_def int_word_sint)

lemma and255_mod: "and255 e = e mod 256"
proof -
  have "255 AND ToInt32 e = take_bit 8 (ToInt32 e)"
    by (simp add: take_bit_eq_mask mask_eq_exp_minus_1 and.commute)
  then have "and255 e = take_bit 8 (take_bit 32 e)"
    by (simp add: and255_def ToInt32_def uint_word_of_int_eq unsigned_take_bit_eq)
  then show ?thesis by (simp add: take_bit_eq_mod mod_mod_cancel)
qed

lemma shr_mod: "n \<le> 24 \<Longrightarrow> shr e n mod 256 = (e div 2 ^ n) mod 256"
proof -
  assume n: "n \<le> 24"
  have "take_bit 8 (drop_bit n (take_bit 32 e)) = take_bit 8 (drop_bit n e)"
    using n by (intro bit_eqI) (auto simp: bit_simps)
  moreover have "shr e n = drop_bit n (take_bit 32 e)"
    using n by (simp add: shr_def ushr_def ToInt32_def uint_word_of_int_eq unsigned_drop_bit_eq)
  ultimately show ?thesis by (simp add: take_bit_eq_mod drop_bit_eq_div)
qed

section \<open>Numbers as sequences of bytes\<close>

fun val_le :: "u8 list \<Rightarrow> int" where
  "val_le [] = 0"
| "val_le (x # xs) = uint x + 256 * val_le xs"

fun bytes_le :: "nat \<Rightarrow> int \<Rightarrow> u8 list" where
  "bytes_le 0 v = []"
| "bytes_le (Suc n) v = word_of_int v # bytes_le n (v div 256)"

definition twos :: "nat \<Rightarrow> int \<Rightarrow> int" where
  "twos n v = (if v < 2 ^ (8 * n - 1) then v else v - 2 ^ (8 * n))"

lemma length_bytes_le [simp]: "length (bytes_le n v) = n"
  by (induction n v rule: bytes_le.induct) simp_all

lemma val_le_bounds: "0 \<le> val_le xs \<and> val_le xs < 256 ^ length xs"
proof (induction xs)
  case (Cons x xs)
  have "0 \<le> uint x" "uint x < 256" using uint_lt2p [of x] by simp_all
  then show ?case using Cons by simp
qed simp

lemma val_le_bytes_le: "val_le (bytes_le n v) = v mod 256 ^ n"
proof (induction n v rule: bytes_le.induct)
  case (2 n v)
  have "v mod (256 * 256 ^ n) = 256 * (v div 256 mod 256 ^ n) + v mod 256" by (rule zmod_zmult2_eq) simp
  then show ?case using 2 by simp
qed simp

lemma bytes_le_val_le: "bytes_le (length xs) (val_le xs) = xs"
proof (induction xs)
  case (Cons x xs)
  have "0 \<le> uint x" "uint x < 256" using uint_lt2p [of x] by simp_all
  then have "(uint x + 256 * val_le xs) div 256 = val_le xs" by simp
  moreover have "(word_of_int (uint x + 256 * val_le xs) :: u8) = x"
    using \<open>uint x < 256\<close> unfolding word_uint_eq_iff uint_u8 by simp
  ultimately show ?case using Cons by simp
qed simp

lemma bytes_le_nth: "i < n \<Longrightarrow> uint (bytes_le n v ! i) = (v div 256 ^ i) mod 256"
proof (induction n v arbitrary: i rule: bytes_le.induct)
  case (2 n v)
  show ?case
  proof (cases i)
    case (Suc k)
    then show ?thesis using 2 by (simp add: zdiv_zmult2_eq)
  qed simp
qed simp

lemma twos_mod: "0 < n \<Longrightarrow> - (2 ^ (8 * n - 1)) \<le> v \<Longrightarrow> v < 2 ^ (8 * n - 1) \<Longrightarrow> twos n (v mod 256 ^ n) = v"
proof -
  assume n: "0 < n" and v: "- (2 ^ (8 * n - 1)) \<le> v" "v < 2 ^ (8 * n - 1)"
  have p: "(256::int) ^ n = 2 ^ (8 * n)" by (simp add: power_mult)
  have q: "(2::int) ^ (8 * n) = 2 * 2 ^ (8 * n - 1)" using n by (simp add: power_eq_if)
  show ?thesis
  proof (cases "0 \<le> v")
    case True
    then have "v mod 256 ^ n = v" using v p q by simp
    then show ?thesis using v by (simp add: twos_def)
  next
    case False
    have "v mod 256 ^ n = (v + 256 ^ n) mod 256 ^ n" by simp
    also have "\<dots> = v + 256 ^ n" using False v p q by (intro mod_pos_pos_trivial) auto
    finally show ?thesis using False v p q by (simp add: twos_def)
  qed
qed

section \<open>Windows of a buffer\<close>

definition window :: "buf \<Rightarrow> int \<Rightarrow> nat \<Rightarrow> u8 list" where
  "window b t n = take n (drop (nat t) b)"

definition overwrite :: "buf \<Rightarrow> int \<Rightarrow> u8 list \<Rightarrow> buf" where
  "overwrite b t bs = take (nat t) b @ bs @ drop (nat t + length bs) b"

lemma length_window: "0 \<le> t \<Longrightarrow> t + int n \<le> blen b \<Longrightarrow> length (window b t n) = n"
  by (simp add: window_def blen_def)

lemma length_overwrite [simp]: "0 \<le> t \<Longrightarrow> t + int (length bs) \<le> blen b \<Longrightarrow> length (overwrite b t bs) = length b"
  by (simp add: overwrite_def blen_def)

lemma window_overwrite: "0 \<le> t \<Longrightarrow> t + int (length bs) \<le> blen b \<Longrightarrow> window (overwrite b t bs) t (length bs) = bs"
  by (simp add: window_def overwrite_def blen_def)

lemma byte_at_window: "0 \<le> t \<Longrightarrow> t + int n \<le> blen b \<Longrightarrow> i < n \<Longrightarrow> byte_at b (t + int i) = Some (uint (window b t n ! i))"
  by (simp add: byte_at_def window_def blen_def nat_add_distrib)

lemma byte_at_overwrite:
  assumes "0 \<le> t" "t + int (length bs) \<le> blen b"
  shows "byte_at (overwrite b t bs) i = (if t \<le> i \<and> i < t + int (length bs) then Some (uint (bs ! nat (i - t))) else byte_at b i)"
proof (cases "0 \<le> i \<and> i < blen b")
  case True
  have "overwrite b t bs ! nat i = (if t \<le> i \<and> i < t + int (length bs) then bs ! nat (i - t) else b ! nat i)"
  proof -
    consider "i < t" | "t \<le> i" "i < t + int (length bs)" | "t + int (length bs) \<le> i" by linarith
    then show ?thesis
    proof cases
      case 1
      then show ?thesis using True assms by (simp add: overwrite_def blen_def nth_append)
    next
      case 2
      then have "\<not> nat i < nat t" "nat i - nat t = nat (i - t)" "nat (i - t) < length bs" "min (length b) (nat t) = nat t"
        using True assms by (auto simp: blen_def nat_diff_distrib)
      then show ?thesis using 2 by (simp add: overwrite_def nth_append)
    next
      case 3
      then have "\<not> nat i < nat t" "\<not> nat i - nat t < length bs" "min (length b) (nat t) = nat t"
        "nat t + length bs + (nat i - nat t - length bs) = nat i" "nat t + length bs \<le> length b"
        using True assms by (auto simp: blen_def)
      then show ?thesis using 3 True assms by (simp add: overwrite_def nth_append blen_def)
    qed
  qed
  then show ?thesis using True assms by (simp add: byte_at_def blen_def)
qed (use assms in \<open>auto simp: byte_at_def blen_def\<close>)

end
