(* ===== verification/Buf_Numbers.thy ===== *)
theory Buf_Numbers
  imports Buf_Bytes
begin

text \<open>
  The methods of \<open>Buffer\<close> that read and write integers. A reader gives \<open>None\<close> where the code gives
  \<open>undefined\<close> or \<open>NaN\<close>, which happens only past the end of the buffer with the checks turned off by
  the last argument. A writer returns the new bytes and the offset after the number. The first
  argument \<open>ty\<close> of the writers of 16 and 32 bits is \<open>TYPED_ARRAY_SUPPORT\<close>, which the module finds out
  when it is loaded. Values and offsets are integers; the sums of the readers of variable width are
  exact in doubles for the documented widths, from one to six bytes.
\<close>

section \<open>Checks\<close>

definition checkOffset :: "int \<Rightarrow> int \<Rightarrow> int \<Rightarrow> unit js" where
  "checkOffset e t n =
     (if e < 0 then Inl RangeError else if e + t > n then Inl RangeError else Inr ())"

definition checkInt :: "buf \<Rightarrow> int \<Rightarrow> int \<Rightarrow> int \<Rightarrow> int \<Rightarrow> int \<Rightarrow> unit js" where
  "checkInt e t n r k i =
     (if t > k \<or> t < i then Inl RangeError else if n + r > blen e then Inl RangeError else Inr ())"

definition unless :: "bool \<Rightarrow> unit js \<Rightarrow> 'a \<Rightarrow> 'a js" where
  "unless noAssert c x = (if noAssert then Inr x else js_bind c (\<lambda>_. Inr x))"

section \<open>Readers\<close>

definition num_add :: "int option \<Rightarrow> int option \<Rightarrow> int option" where
  "num_add x y = (case (x, y) of (Some a, Some b) \<Rightarrow> Some (a + b) | _ \<Rightarrow> None)"

definition num_mult :: "int option \<Rightarrow> int \<Rightarrow> int option" where
  "num_mult x k = map_option (\<lambda>a. a * k) x"

function le_sum :: "buf \<Rightarrow> int \<Rightarrow> int \<Rightarrow> int option \<Rightarrow> int \<Rightarrow> int \<Rightarrow> int option \<times> int" where
  "le_sum b e t r k i =
     (let i1 = i + 1
      in if i1 < t then (let k1 = k * 256 in le_sum b e t (num_add r (num_mult (byte_at b (e + i1)) k1)) k1 i1)
         else (r, k))"
  by pat_completeness auto
termination by (relation "measure (\<lambda>(b, e, t, r, k, i). nat (t - i))") auto

function be_sum :: "buf \<Rightarrow> int \<Rightarrow> int \<Rightarrow> int option \<Rightarrow> int \<Rightarrow> int option \<times> int" where
  "be_sum b e t r k =
     (if t > 0 then (let k1 = k * 256; t1 = t - 1 in be_sum b e t1 (num_add r (num_mult (byte_at b (e + t1)) k1)) k1)
      else (r, k))"
  by pat_completeness auto
termination by (relation "measure (\<lambda>(b, e, t, r, k). nat t)") auto

declare le_sum.simps [simp del] be_sum.simps [simp del]

definition readUIntLE :: "buf \<Rightarrow> int \<Rightarrow> int \<Rightarrow> bool \<Rightarrow> int option js" where
  "readUIntLE b e0 t0 n =
     (let e = to32 e0; t = to32 t0
      in unless n (checkOffset e t (blen b)) (fst (le_sum b e t (byte_at b e) 1 0)))"

definition readUIntBE :: "buf \<Rightarrow> int \<Rightarrow> int \<Rightarrow> bool \<Rightarrow> int option js" where
  "readUIntBE b e0 t0 n =
     (let e = to32 e0; t = to32 t0
      in unless n (checkOffset e t (blen b)) (fst (be_sum b e (t - 1) (byte_at b (e + (t - 1))) 1)))"

definition sign_fix :: "int \<Rightarrow> int option \<times> int \<Rightarrow> int option" where
  "sign_fix t rk = map_option (\<lambda>r. if r \<ge> snd rk * 128 then r - 2 ^ nat (8 * t) else r) (fst rk)"

definition readIntLE :: "buf \<Rightarrow> int \<Rightarrow> int \<Rightarrow> bool \<Rightarrow> int option js" where
  "readIntLE b e0 t0 n =
     (let e = to32 e0; t = to32 t0
      in unless n (checkOffset e t (blen b)) (sign_fix t (le_sum b e t (byte_at b e) 1 0)))"

definition readIntBE :: "buf \<Rightarrow> int \<Rightarrow> int \<Rightarrow> bool \<Rightarrow> int option js" where
  "readIntBE b e0 t0 n =
     (let e = to32 e0; t = to32 t0
      in unless n (checkOffset e t (blen b)) (sign_fix t (be_sum b e (t - 1) (byte_at b (e + (t - 1))) 1)))"

definition readUInt8 :: "buf \<Rightarrow> int \<Rightarrow> bool \<Rightarrow> int option js" where
  "readUInt8 b e t = unless t (checkOffset e 1 (blen b)) (byte_at b e)"

definition bits_at :: "buf \<Rightarrow> int \<Rightarrow> int32" where
  "bits_at b i = bits_of (byte_at b i)"

definition readUInt16LE :: "buf \<Rightarrow> int \<Rightarrow> bool \<Rightarrow> int option js" where
  "readUInt16LE b e t =
     unless t (checkOffset e 2 (blen b)) (Some (sint (bits_at b e OR shl (bits_at b (e + 1)) 8)))"

definition readUInt16BE :: "buf \<Rightarrow> int \<Rightarrow> bool \<Rightarrow> int option js" where
  "readUInt16BE b e t =
     unless t (checkOffset e 2 (blen b)) (Some (sint (shl (bits_at b e) 8 OR bits_at b (e + 1))))"

definition readUInt32LE :: "buf \<Rightarrow> int \<Rightarrow> bool \<Rightarrow> int option js" where
  "readUInt32LE b e t =
     unless t (checkOffset e 4 (blen b))
       (num_add (Some (sint (bits_at b e OR shl (bits_at b (e + 1)) 8 OR shl (bits_at b (e + 2)) 16)))
          (num_mult (byte_at b (e + 3)) 16777216))"

definition readUInt32BE :: "buf \<Rightarrow> int \<Rightarrow> bool \<Rightarrow> int option js" where
  "readUInt32BE b e t =
     unless t (checkOffset e 4 (blen b))
       (num_add (num_mult (byte_at b e) 16777216)
          (Some (sint (shl (bits_at b (e + 1)) 16 OR shl (bits_at b (e + 2)) 8 OR bits_at b (e + 3)))))"

definition readInt8 :: "buf \<Rightarrow> int \<Rightarrow> bool \<Rightarrow> int option js" where
  "readInt8 b e t =
     unless t (checkOffset e 1 (blen b))
       (if 128 AND bits_at b e \<noteq> 0 then map_option (\<lambda>x. -1 * (255 - x + 1)) (byte_at b e) else byte_at b e)"

definition sign16 :: "int32 \<Rightarrow> int" where
  "sign16 n = sint (if 32768 AND n \<noteq> 0 then 4294901760 OR n else n)"

definition readInt16LE :: "buf \<Rightarrow> int \<Rightarrow> bool \<Rightarrow> int option js" where
  "readInt16LE b e t =
     unless t (checkOffset e 2 (blen b)) (Some (sign16 (bits_at b e OR shl (bits_at b (e + 1)) 8)))"

definition readInt16BE :: "buf \<Rightarrow> int \<Rightarrow> bool \<Rightarrow> int option js" where
  "readInt16BE b e t =
     unless t (checkOffset e 2 (blen b)) (Some (sign16 (bits_at b (e + 1) OR shl (bits_at b e) 8)))"

definition readInt32LE :: "buf \<Rightarrow> int \<Rightarrow> bool \<Rightarrow> int option js" where
  "readInt32LE b e t =
     unless t (checkOffset e 4 (blen b))
       (Some (sint (bits_at b e OR shl (bits_at b (e + 1)) 8 OR shl (bits_at b (e + 2)) 16 OR shl (bits_at b (e + 3)) 24)))"

definition readInt32BE :: "buf \<Rightarrow> int \<Rightarrow> bool \<Rightarrow> int option js" where
  "readInt32BE b e t =
     unless t (checkOffset e 4 (blen b))
       (Some (sint (shl (bits_at b e) 24 OR shl (bits_at b (e + 1)) 16 OR shl (bits_at b (e + 2)) 8 OR bits_at b (e + 3))))"

section \<open>Writers\<close>

text \<open>The loops of engines without typed arrays.\<close>

definition objectWriteUInt16 :: "buf \<Rightarrow> int \<Rightarrow> int \<Rightarrow> bool \<Rightarrow> buf" where
  "objectWriteUInt16 e t0 n r =
     (let t = (if t0 < 0 then 65535 + t0 + 1 else t0)
      in fold (\<lambda>k b. let s = 8 * (if r then k else 1 - k)
                     in store b (n + int k) (uint (ushr (ToInt32 t AND shl 255 s) s)))
           [0..<nat (min (blen e - n) 2)] e)"

definition objectWriteUInt32 :: "buf \<Rightarrow> int \<Rightarrow> int \<Rightarrow> bool \<Rightarrow> buf" where
  "objectWriteUInt32 e t0 n r =
     (let t = (if t0 < 0 then 4294967295 + t0 + 1 else t0)
      in fold (\<lambda>k b. store b (n + int k) (and255 (shr t (8 * (if r then k else 3 - k)))))
           [0..<nat (min (blen e - n) 4)] e)"

text \<open>\<open>e / o\<close> with the fraction dropped, as the conversion to 32 bits does.\<close>

definition trunc_div :: "int \<Rightarrow> int \<Rightarrow> int" where
  "trunc_div e k = (if e < 0 then - ((- e) div k) else e div k)"

definition max_uint :: "int \<Rightarrow> int" where
  "max_uint n = (if n < 0 then -1 else 2 ^ nat (8 * n) - 1)"

function le_write :: "int \<Rightarrow> int \<Rightarrow> int \<Rightarrow> int \<Rightarrow> int \<Rightarrow> buf \<Rightarrow> buf" where
  "le_write e t n k i b =
     (let i1 = i + 1
      in if i1 < n then (let k1 = k * 256 in le_write e t n k1 i1 (store b (t + i1) (and255 (trunc_div e k1)))) else b)"
  by pat_completeness auto
termination by (relation "measure (\<lambda>(e, t, n, k, i, b). nat (n - i))") auto

function be_write :: "int \<Rightarrow> int \<Rightarrow> int \<Rightarrow> int \<Rightarrow> buf \<Rightarrow> buf" where
  "be_write e t k i b =
     (let k1 = k - 1
      in if k1 \<ge> 0 then (let i1 = i * 256 in be_write e t k1 i1 (store b (t + k1) (and255 (trunc_div e i1)))) else b)"
  by pat_completeness auto
termination by (relation "measure (\<lambda>(e, t, k, i, b). nat k)") auto

definition writeUIntLE :: "buf \<Rightarrow> int \<Rightarrow> int \<Rightarrow> int \<Rightarrow> bool \<Rightarrow> (buf \<times> int) js" where
  "writeUIntLE b e t0 n0 r =
     (let t = to32 t0; n = to32 n0
      in unless r (checkInt b e t n (max_uint n) 0) (le_write e t n 1 0 (store b t (and255 e)), t + n))"

definition writeUIntBE :: "buf \<Rightarrow> int \<Rightarrow> int \<Rightarrow> int \<Rightarrow> bool \<Rightarrow> (buf \<times> int) js" where
  "writeUIntBE b e t0 n0 r =
     (let t = to32 t0; n = to32 n0
      in unless r (checkInt b e t n (max_uint n) 0) (be_write e t (n - 1) 1 (store b (t + (n - 1)) (and255 e)), t + n))"

text \<open>
  The signed writers divide towards zero; \<open>u\<close> becomes 1 after the first byte of a negative number that
  is not zero, and is then subtracted.
\<close>

function les_write :: "int \<Rightarrow> int \<Rightarrow> int \<Rightarrow> int \<Rightarrow> int \<Rightarrow> int \<Rightarrow> buf \<Rightarrow> buf" where
  "les_write e t n k i u b =
     (let i1 = i + 1
      in if i1 < n then
           (let k1 = k * 256; u1 = (if e < 0 \<and> u = 0 \<and> byte_at b (t + i1 - 1) \<noteq> Some 0 then 1 else u)
            in les_write e t n k1 i1 u1 (store b (t + i1) (and255 (to32 (trunc_div e k1) - u1))))
         else b)"
  by pat_completeness auto
termination by (relation "measure (\<lambda>(e, t, n, k, i, u, b). nat (n - i))") auto

function bes_write :: "int \<Rightarrow> int \<Rightarrow> int \<Rightarrow> int \<Rightarrow> int \<Rightarrow> buf \<Rightarrow> buf" where
  "bes_write e t i k u b =
     (let i1 = i - 1
      in if i1 \<ge> 0 then
           (let k1 = k * 256; u1 = (if e < 0 \<and> u = 0 \<and> byte_at b (t + i1 + 1) \<noteq> Some 0 then 1 else u)
            in bes_write e t i1 k1 u1 (store b (t + i1) (and255 (to32 (trunc_div e k1) - u1))))
         else b)"
  by pat_completeness auto
termination by (relation "measure (\<lambda>(e, t, i, k, u, b). nat i)") auto

declare le_write.simps [simp del] be_write.simps [simp del] les_write.simps [simp del] bes_write.simps [simp del]

text \<open>For a width below 1 the bounds \<open>Math.pow(2, 8 * n - 1)\<close> let no integer pass.\<close>

definition checkSigned :: "buf \<Rightarrow> int \<Rightarrow> int \<Rightarrow> int \<Rightarrow> unit js" where
  "checkSigned b e t n =
     (if n < 1 then Inl RangeError else let k = 2 ^ nat (8 * n - 1) in checkInt b e t n (k - 1) (- k))"

definition writeIntLE :: "buf \<Rightarrow> int \<Rightarrow> int \<Rightarrow> int \<Rightarrow> bool \<Rightarrow> (buf \<times> int) js" where
  "writeIntLE b e t0 n r =
     (let t = to32 t0
      in unless r (checkSigned b e t n) (les_write e t n 1 0 0 (store b t (and255 e)), t + n))"

definition writeIntBE :: "buf \<Rightarrow> int \<Rightarrow> int \<Rightarrow> int \<Rightarrow> bool \<Rightarrow> (buf \<times> int) js" where
  "writeIntBE b e t0 n r =
     (let t = to32 t0
      in unless r (checkSigned b e t n) (bes_write e t (n - 1) 1 0 (store b (t + (n - 1)) (and255 e)), t + n))"

definition writeUInt8 :: "buf \<Rightarrow> int \<Rightarrow> int \<Rightarrow> bool \<Rightarrow> (buf \<times> int) js" where
  "writeUInt8 b e t0 n =
     (let t = to32 t0 in unless n (checkInt b e t 1 255 0) (store b t (and255 e), t + 1))"

definition writeUInt16LE :: "bool \<Rightarrow> buf \<Rightarrow> int \<Rightarrow> int \<Rightarrow> bool \<Rightarrow> (buf \<times> int) js" where
  "writeUInt16LE ty b e t0 n =
     (let t = to32 t0
      in unless n (checkInt b e t 2 65535 0)
           (if ty then store (store b t (and255 e)) (t + 1) (shr e 8) else objectWriteUInt16 b e t True, t + 2))"

definition writeUInt16BE :: "bool \<Rightarrow> buf \<Rightarrow> int \<Rightarrow> int \<Rightarrow> bool \<Rightarrow> (buf \<times> int) js" where
  "writeUInt16BE ty b e t0 n =
     (let t = to32 t0
      in unless n (checkInt b e t 2 65535 0)
           (if ty then store (store b t (shr e 8)) (t + 1) (and255 e) else objectWriteUInt16 b e t False, t + 2))"

definition writeUInt32LE :: "bool \<Rightarrow> buf \<Rightarrow> int \<Rightarrow> int \<Rightarrow> bool \<Rightarrow> (buf \<times> int) js" where
  "writeUInt32LE ty b e t0 n =
     (let t = to32 t0
      in unless n (checkInt b e t 4 4294967295 0)
           (if ty then store (store (store (store b (t + 3) (shr e 24)) (t + 2) (shr e 16)) (t + 1) (shr e 8)) t (and255 e)
            else objectWriteUInt32 b e t True, t + 4))"

definition writeUInt32BE :: "bool \<Rightarrow> buf \<Rightarrow> int \<Rightarrow> int \<Rightarrow> bool \<Rightarrow> (buf \<times> int) js" where
  "writeUInt32BE ty b e t0 n =
     (let t = to32 t0
      in unless n (checkInt b e t 4 4294967295 0)
           (if ty then store (store (store (store b t (shr e 24)) (t + 1) (shr e 16)) (t + 2) (shr e 8)) (t + 3) (and255 e)
            else objectWriteUInt32 b e t False, t + 4))"

definition writeInt8 :: "buf \<Rightarrow> int \<Rightarrow> int \<Rightarrow> bool \<Rightarrow> (buf \<times> int) js" where
  "writeInt8 b e0 t0 n =
     (let t = to32 t0; e = (if e0 < 0 then 255 + e0 + 1 else e0)
      in unless n (checkInt b e0 t 1 127 (-128)) (store b t (and255 e), t + 1))"

definition writeInt16LE :: "bool \<Rightarrow> buf \<Rightarrow> int \<Rightarrow> int \<Rightarrow> bool \<Rightarrow> (buf \<times> int) js" where
  "writeInt16LE ty b e t0 n =
     (let t = to32 t0
      in unless n (checkInt b e t 2 32767 (-32768))
           (if ty then store (store b t (and255 e)) (t + 1) (shr e 8) else objectWriteUInt16 b e t True, t + 2))"

definition writeInt16BE :: "bool \<Rightarrow> buf \<Rightarrow> int \<Rightarrow> int \<Rightarrow> bool \<Rightarrow> (buf \<times> int) js" where
  "writeInt16BE ty b e t0 n =
     (let t = to32 t0
      in unless n (checkInt b e t 2 32767 (-32768))
           (if ty then store (store b t (shr e 8)) (t + 1) (and255 e) else objectWriteUInt16 b e t False, t + 2))"

definition writeInt32LE :: "bool \<Rightarrow> buf \<Rightarrow> int \<Rightarrow> int \<Rightarrow> bool \<Rightarrow> (buf \<times> int) js" where
  "writeInt32LE ty b e t0 n =
     (let t = to32 t0
      in unless n (checkInt b e t 4 2147483647 (-2147483648))
           (if ty then store (store (store (store b t (and255 e)) (t + 1) (shr e 8)) (t + 2) (shr e 16)) (t + 3) (shr e 24)
            else objectWriteUInt32 b e t True, t + 4))"

definition writeInt32BE :: "bool \<Rightarrow> buf \<Rightarrow> int \<Rightarrow> int \<Rightarrow> bool \<Rightarrow> (buf \<times> int) js" where
  "writeInt32BE ty b e0 t0 n =
     (let t = to32 t0; e = (if e0 < 0 then 4294967295 + e0 + 1 else e0)
      in unless n (checkInt b e0 t 4 2147483647 (-2147483648))
           (if ty then store (store (store (store b t (shr e 24)) (t + 1) (shr e 16)) (t + 2) (shr e 8)) (t + 3) (and255 e)
            else objectWriteUInt32 b e t False, t + 4))"

end
