(* ===== verification/Buf_Codec.thy ===== *)
theory Buf_Codec
  imports Buf_Numbers
begin

text \<open>
  What the readers and writers of integers do to the bytes of a buffer, and from it: reading gives back
  what was written, the methods of fixed width do what the methods of variable width do, and
  the inputs on which they throw.
\<close>

section \<open>Readers of variable width\<close>

lemma val_le_append: "val_le (xs @ ys) = val_le xs + 256 ^ length xs * val_le ys"
  by (induction xs) (simp_all add: algebra_simps)

lemma le_sum_correct:
  assumes "0 \<le> e" "e + int n \<le> blen b" "i < n"
  shows "le_sum b e (int n) (Some (val_le (take (Suc i) (window b e n)))) (256 ^ i) (int i) =
    (Some (val_le (window b e n)), 256 ^ (n - 1))"
  using assms(3)
proof (induction "n - i" arbitrary: i)
  case (Suc d)
  let ?w = "window b e n"
  have l: "length ?w = n" using assms by (simp add: length_window)
  show ?case
  proof (cases "Suc i < n")
    case True
    have "byte_at b (e + (int i + 1)) = Some (uint (?w ! Suc i))"
      using byte_at_window [OF assms(1,2) True] by (simp add: add.commute)
    moreover have "val_le (take (Suc (Suc i)) ?w) = val_le (take (Suc i) ?w) + uint (?w ! Suc i) * 256 ^ Suc i"
    proof -
      have "take (Suc (Suc i)) ?w = take (Suc i) ?w @ [?w ! Suc i]" using True l by (intro take_Suc_conv_app_nth) simp
      moreover have "length (take (Suc i) ?w) = Suc i" using True l by simp
      ultimately show ?thesis by (simp only: val_le_append val_le.simps) simp
    qed
    moreover have "le_sum b e (int n) r k (int i) =
        le_sum b e (int n) (num_add r (num_mult (byte_at b (e + (int i + 1))) (k * 256))) (k * 256) (int i + 1)" for r k
      using True by (subst le_sum.simps) (simp add: Let_def)
    moreover have "(256::int) ^ i * 256 = 256 ^ Suc i" "int i + 1 = int (Suc i)" by simp_all
    ultimately have "le_sum b e (int n) (Some (val_le (take (Suc i) ?w))) (256 ^ i) (int i) =
        le_sum b e (int n) (Some (val_le (take (Suc (Suc i)) ?w))) (256 ^ Suc i) (int (Suc i))"
      by (simp only: num_add_def num_mult_def option.map option.case prod.case)
    also have "\<dots> = (Some (val_le ?w), 256 ^ (n - 1))" using Suc True by (intro Suc.hyps(1)) auto
    finally show ?thesis .
  next
    case False
    then have "n = Suc i" using Suc by simp
    then show ?thesis using l by (subst le_sum.simps) simp
  qed
qed simp

lemma be_sum_correct:
  assumes "0 \<le> e" "e + int n \<le> blen b" "i < n"
  shows "be_sum b e (int i) (Some (val_le (rev (drop i (window b e n))))) (256 ^ (n - 1 - i)) =
    (Some (val_le (rev (window b e n))), 256 ^ (n - 1))"
  using assms(3)
proof (induction i)
  case (Suc i)
  let ?w = "window b e n"
  have l: "length ?w = n" using assms by (simp add: length_window)
  have "byte_at b (e + int i) = Some (uint (?w ! i))" using byte_at_window [OF assms(1,2), of i] Suc by simp
  moreover have "val_le (rev (drop i ?w)) = val_le (rev (drop (Suc i) ?w)) + uint (?w ! i) * 256 ^ (n - Suc i)"
  proof -
    have "drop i ?w = ?w ! i # drop (Suc i) ?w" using Suc l by (simp add: Cons_nth_drop_Suc)
    then show ?thesis using l by (simp add: val_le_append)
  qed
  moreover have "be_sum b e (int (Suc i)) r k = be_sum b e (int i) (num_add r (num_mult (byte_at b (e + int i)) (k * 256))) (k * 256)" for r k
    by (subst be_sum.simps) (simp add: Let_def)
  moreover have "(256::int) ^ (n - 1 - Suc i) * 256 = 256 ^ (n - Suc i)" "n - 1 - i = n - Suc i"
    using Suc.prems by (simp_all flip: power_Suc2 add: Suc_diff_Suc)
  ultimately have "be_sum b e (int (Suc i)) (Some (val_le (rev (drop (Suc i) ?w)))) (256 ^ (n - 1 - Suc i)) =
      be_sum b e (int i) (Some (val_le (rev (drop i ?w)))) (256 ^ (n - 1 - i))"
    by (simp only: num_add_def num_mult_def option.map option.case prod.case)
  then show ?case using Suc by simp
qed (subst be_sum.simps, simp)

definition in_range :: "buf \<Rightarrow> int \<Rightarrow> nat \<Rightarrow> bool" where
  "in_range b t n \<longleftrightarrow> 0 \<le> t \<and> t + int n \<le> blen b \<and> blen b < 2 ^ 31"

lemma in_range_to32: "in_range b t n \<Longrightarrow> to32 t = t" "in_range b t n \<Longrightarrow> to32 (int n) = int n"
  by (auto simp: in_range_def intro!: to32_id)

lemma read_start:
  assumes "in_range b e n" "0 < n"
  shows "byte_at b e = Some (val_le (take (Suc 0) (window b e n)))"
    "byte_at b (e + (int n - 1)) = Some (val_le (rev (drop (n - 1) (window b e n))))"
proof -
  have r: "0 \<le> e" "e + int n \<le> blen b" using assms by (auto simp: in_range_def)
  have l: "length (window b e n) = n" using r by (simp add: length_window)
  show "byte_at b e = Some (val_le (take (Suc 0) (window b e n)))"
    using byte_at_window [OF r assms(2)] l assms(2) by (simp add: take_Suc_conv_app_nth)
  have "drop (n - 1) (window b e n) = [window b e n ! (n - 1)]"
    using l assms(2) Cons_nth_drop_Suc [of "n - 1" "window b e n"] by simp
  then show "byte_at b (e + (int n - 1)) = Some (val_le (rev (drop (n - 1) (window b e n))))"
    using byte_at_window [OF r, of "n - 1"] assms(2) by (simp add: of_nat_diff)
qed

lemma le_read:
  "in_range b e n \<Longrightarrow> 0 < n \<Longrightarrow> le_sum b e (int n) (byte_at b e) 1 0 = (Some (val_le (window b e n)), 256 ^ (n - 1))"
  using le_sum_correct [of e n b 0] read_start(1) [of b e n] by (simp add: in_range_def)

lemma be_read:
  "in_range b e n \<Longrightarrow> 0 < n \<Longrightarrow>
   be_sum b e (int n - 1) (byte_at b (e + (int n - 1))) 1 = (Some (val_le (rev (window b e n))), 256 ^ (n - 1))"
  using be_sum_correct [of e n b "n - 1"] read_start(2) [of b e n] by (simp add: in_range_def of_nat_diff)

lemma sign_fix_signed: "0 < n \<Longrightarrow> sign_fix (int n) (Some v, 256 ^ (n - 1)) = Some (twos n v)"
proof -
  assume n: "0 < n"
  have "(256::int) ^ (n - 1) * 128 = 2 ^ (8 * (n - 1) + 7)" by (simp add: power_mult power_add)
  also have "8 * (n - 1) + 7 = 8 * n - 1" using n by simp
  finally show ?thesis by (simp add: sign_fix_def twos_def nat_mult_distrib not_le)
qed

lemma read_variable:
  assumes "in_range b e n" "0 < n"
  shows "readUIntLE b e (int n) False = Inr (Some (val_le (window b e n)))"
    "readUIntBE b e (int n) False = Inr (Some (val_le (rev (window b e n))))"
    "readIntLE b e (int n) False = Inr (Some (twos n (val_le (window b e n))))"
    "readIntBE b e (int n) False = Inr (Some (twos n (val_le (rev (window b e n)))))"
proof -
  have c: "checkOffset e (int n) (blen b) = Inr ()" using assms by (simp add: checkOffset_def in_range_def)
  note d = in_range_to32 [OF assms(1)] c unless_def le_read [OF assms] be_read [OF assms] sign_fix_signed [OF assms(2)]
  show "readUIntLE b e (int n) False = Inr (Some (val_le (window b e n)))" by (simp add: readUIntLE_def d)
  show "readUIntBE b e (int n) False = Inr (Some (val_le (rev (window b e n))))" by (simp add: readUIntBE_def d)
  show "readIntLE b e (int n) False = Inr (Some (twos n (val_le (window b e n))))" by (simp add: readIntLE_def d del: One_nat_def)
  show "readIntBE b e (int n) False = Inr (Some (twos n (val_le (rev (window b e n)))))" by (simp add: readIntBE_def d del: One_nat_def)
qed

section \<open>Writers\<close>

text \<open>The specification of the writers: the digits of a number to base 256, one after the other.\<close>

definition put_le :: "buf \<Rightarrow> int \<Rightarrow> nat \<Rightarrow> int \<Rightarrow> buf" where
  "put_le b t n v = fold (\<lambda>k b. store b (t + int k) (v div 256 ^ k)) [0..<n] b"

definition put_be :: "buf \<Rightarrow> int \<Rightarrow> nat \<Rightarrow> int \<Rightarrow> buf" where
  "put_be b t n v = fold (\<lambda>k b. store b (t + (int n - 1 - int k)) (v div 256 ^ k)) [0..<n] b"

lemma store_cong: "v mod 256 = w mod 256 \<Longrightarrow> store b i v = store b i w"
proof -
  assume "v mod 256 = w mod 256"
  then have "(word_of_int v :: u8) = word_of_int w" by (simp add: word_uint_eq_iff)
  then show ?thesis by (simp add: store_def)
qed

lemma store_and255 [simp]: "store b i (and255 e) = store b i e"
  by (rule store_cong) (simp add: and255_mod)

lemma store_shr [simp]: "n \<le> 24 \<Longrightarrow> store b i (shr e n) = store b i (e div 2 ^ n)"
  by (rule store_cong) (rule shr_mod)

lemma store_to32 [simp]: "store b i (to32 e - u) = store b i (e - u)"
proof (rule store_cong)
  have "to32 e = (e + 2147483648) mod 4294967296 - 2147483648" by (simp add: to32_def ToInt32_def int_word_sint)
  then have "to32 e - u - (e - u) = 256 * (- (16777216 * ((e + 2147483648) div 4294967296)))"
    using mult_div_mod_eq [of 4294967296 "e + 2147483648"] by linarith
  then show "(to32 e - u) mod 256 = (e - u) mod 256" by (metis mod_eq_dvd_iff dvd_triv_left)
qed

lemma store_wrap: "s + 8 \<le> m \<Longrightarrow> store b i ((2 ^ m + e) div 2 ^ s) = store b i (e div 2 ^ s)"
proof (rule store_cong)
  assume s: "s + 8 \<le> m"
  then have "(2::int) ^ m = 2 ^ (m - s - 8 + 8 + s)" by simp
  then have m: "(2::int) ^ m = 2 ^ (m - s - 8) * 256 * 2 ^ s" by (simp only: power_add) simp
  have "(2 ^ m + e) div 2 ^ s = 2 ^ (m - s - 8) * 256 + e div 2 ^ s" unfolding m by simp
  then show "((2 ^ m + e) div 2 ^ s) mod 256 = (e div 2 ^ s) mod 256" by simp
qed

lemma store_commute: "i \<noteq> j \<Longrightarrow> store (store b i v) j w = store (store b j w) i v"
  by (rule buf_eqI) (auto simp: byte_at_store)

lemma store_object16 [simp]:
  assumes "s = 0 \<or> s = 8"
  shows "store b i (uint (ushr (ToInt32 t AND shl 255 s) s)) = store b i (t div 2 ^ s)"
proof -
  have "ushr (ToInt32 t AND shl 255 s) s = 255 AND ushr (ToInt32 t) s"
    using assms by (intro bit_word_eqI) (auto simp: ushr_def shl_def bit_simps dest: bit_imp_le_length)
  then have "uint (ushr (ToInt32 t AND shl 255 s) s) = and255 (shr t s)"
    by (simp add: and255_def shr_def ToInt32_def)
  then show ?thesis using assms by auto
qed

lemma le_write_fold:
  assumes "0 \<le> e" "i < n"
  shows "le_write e t (int n) (256 ^ i) (int i) b = fold (\<lambda>k b. store b (t + int k) (e div 256 ^ k)) [Suc i..<n] b"
  using assms(2)
proof (induction "n - i" arbitrary: i b)
  case (Suc d)
  have step: "le_write e t (int n) k (int i) b =
      (if Suc i < n then le_write e t (int n) (k * 256) (int i + 1) (store b (t + (int i + 1)) (e div (k * 256))) else b)" for k
    using assms(1) by (subst le_write.simps) (simp add: Let_def trunc_div_def)
  show ?case
  proof (cases "Suc i < n")
    case True
    have "le_write e t (int n) (256 ^ Suc i) (int (Suc i)) (store b (t + int (Suc i)) (e div 256 ^ Suc i)) =
        fold (\<lambda>k b. store b (t + int k) (e div 256 ^ k)) [Suc (Suc i)..<n] (store b (t + int (Suc i)) (e div 256 ^ Suc i))"
      using Suc True by (intro Suc.hyps(1)) auto
    then show ?thesis using True unfolding step upt_conv_Cons [OF True] by (simp add: mult.commute add.commute)
  next
    case False
    then show ?thesis unfolding step by simp
  qed
qed simp

lemma be_write_fold:
  assumes "0 \<le> e" "k < n"
  shows "be_write e t (int (n - 1 - k)) (256 ^ k) b = fold (\<lambda>k b. store b (t + (int n - 1 - int k)) (e div 256 ^ k)) [Suc k..<n] b"
  using assms(2)
proof (induction "n - k" arbitrary: k b)
  case (Suc d)
  have step: "be_write e t m i b = (if m - 1 \<ge> 0 then be_write e t (m - 1) (i * 256) (store b (t + (m - 1)) (e div (i * 256))) else b)" for m i
    using assms(1) by (subst be_write.simps) (simp add: Let_def trunc_div_def)
  show ?case
  proof (cases "Suc k < n")
    case True
    have i: "int (n - 1 - k) - 1 = int (n - 1 - Suc k)" "t + (int n - 1 - int (Suc k)) = t + int (n - 1 - Suc k)" using True by simp_all
    have "be_write e t (int (n - 1 - Suc k)) (256 ^ Suc k) (store b (t + int (n - 1 - Suc k)) (e div 256 ^ Suc k)) =
        fold (\<lambda>k b. store b (t + (int n - 1 - int k)) (e div 256 ^ k)) [Suc (Suc k)..<n] (store b (t + int (n - 1 - Suc k)) (e div 256 ^ Suc k))"
      using Suc True by (intro Suc.hyps(1)) auto
    then show ?thesis unfolding step [of "int (n - 1 - k)"] upt_conv_Cons [OF True] i fold_simps comp_def
      by (simp add: mult.commute)
  next
    case False
    then show ?thesis unfolding step [of "int (n - 1 - k)"] by simp
  qed
qed simp

text \<open>Division towards zero and the correction \<open>u\<close> give the digits of a negative number.\<close>

definition borrow :: "int \<Rightarrow> nat \<Rightarrow> int" where
  "borrow e k = (if e < 0 \<and> e mod 256 ^ k \<noteq> 0 then 1 else 0)"

lemma trunc_borrow: "trunc_div e (256 ^ k) - borrow e k = e div 256 ^ k"
  by (simp add: trunc_div_def borrow_def zdiv_zminus1_eq_if)

lemma borrow_Suc: "borrow e (Suc k) = (if e < 0 \<and> borrow e k = 0 \<and> (e div 256 ^ k) mod 256 \<noteq> 0 then 1 else borrow e k)"
proof -
  have "e mod (256 ^ k * 256) = 256 ^ k * (e div 256 ^ k mod 256) + e mod 256 ^ k" by (rule zmod_zmult2_eq) simp
  moreover have "0 \<le> e mod 256 ^ k" "0 \<le> (256::int) ^ k * (e div 256 ^ k mod 256)" by simp_all
  ultimately have "e mod 256 ^ Suc k = 0 \<longleftrightarrow> e div 256 ^ k mod 256 = 0 \<and> e mod 256 ^ k = 0"
    by (auto simp: mult.commute add_nonneg_eq_0_iff)
  then show ?thesis by (auto simp: borrow_def)
qed

lemma les_write_fold:
  assumes "0 \<le> t" "t + int n \<le> blen b" "i < n" "byte_at b (t + int i) = Some (e div 256 ^ i mod 256)"
  shows "les_write e t (int n) (256 ^ i) (int i) (borrow e i) b = fold (\<lambda>k b. store b (t + int k) (e div 256 ^ k)) [Suc i..<n] b"
  using assms(2-)
proof (induction "n - i" arbitrary: i b)
  case (Suc d)
  show ?case
  proof (cases "Suc i < n")
    case True
    let ?b = "store b (t + int (Suc i)) (e div 256 ^ Suc i)"
    have "les_write e t (int n) (256 ^ i) (int i) (borrow e i) b =
        les_write e t (int n) (256 ^ i * 256) (int i + 1) (borrow e (Suc i))
          (store b (t + (int i + 1)) (and255 (to32 (trunc_div e (256 ^ i * 256)) - borrow e (Suc i))))"
      using True Suc.prems(3) unfolding borrow_Suc by (subst les_write.simps) (simp add: Let_def)
    also have "\<dots> = les_write e t (int n) (256 ^ Suc i) (int (Suc i)) (borrow e (Suc i)) ?b"
      using trunc_borrow [of e "Suc i"] by (simp add: mult.commute add.commute)
    also have "\<dots> = fold (\<lambda>k b. store b (t + int k) (e div 256 ^ k)) [Suc (Suc i)..<n] ?b"
      using Suc True assms(1) by (intro Suc.hyps(1)) (auto simp: byte_at_store)
    finally show ?thesis unfolding upt_conv_Cons [OF True] by simp
  next
    case False
    then show ?thesis by (subst les_write.simps) simp
  qed
qed simp

lemma bes_write_fold:
  assumes "0 \<le> t" "t + int n \<le> blen b" "k < n" "byte_at b (t + (int n - 1 - int k)) = Some (e div 256 ^ k mod 256)"
  shows "bes_write e t (int n - 1 - int k) (256 ^ k) (borrow e k) b =
    fold (\<lambda>k b. store b (t + (int n - 1 - int k)) (e div 256 ^ k)) [Suc k..<n] b"
  using assms(2-)
proof (induction "n - k" arbitrary: k b)
  case (Suc d)
  show ?case
  proof (cases "Suc k < n")
    case True
    let ?i = "int n - 1 - int (Suc k)" and ?b = "store b (t + (int n - 1 - int (Suc k))) (e div 256 ^ Suc k)"
    have "bes_write e t (int n - 1 - int k) (256 ^ k) (borrow e k) b =
        bes_write e t (int n - 1 - int k - 1) (256 ^ k * 256) (borrow e (Suc k))
          (store b (t + (int n - 1 - int k - 1)) (and255 (to32 (trunc_div e (256 ^ k * 256)) - borrow e (Suc k))))"
      using True Suc.prems(3) unfolding borrow_Suc by (subst bes_write.simps) (simp add: Let_def algebra_simps)
    also have "\<dots> = bes_write e t ?i (256 ^ Suc k) (borrow e (Suc k)) ?b"
      using trunc_borrow [of e "Suc k"] by (simp add: mult.commute diff_diff_eq)
    also have "\<dots> = fold (\<lambda>k b. store b (t + (int n - 1 - int k)) (e div 256 ^ k)) [Suc (Suc k)..<n] ?b"
      using Suc True assms(1) by (intro Suc.hyps(1)) (auto simp: byte_at_store)
    finally show ?thesis unfolding upt_conv_Cons [OF True] by simp
  next
    case False
    then show ?thesis using Suc.prems by (subst bes_write.simps) simp
  qed
qed simp

text \<open>The writers of variable width.\<close>

lemma put_start: "0 < n \<Longrightarrow> put_le b t n v = fold (\<lambda>k b. store b (t + int k) (v div 256 ^ k)) [Suc 0..<n] (store b t v)"
  "0 < n \<Longrightarrow> put_be b t n v = fold (\<lambda>k b. store b (t + (int n - 1 - int k)) (v div 256 ^ k)) [Suc 0..<n] (store b (t + (int n - 1)) v)"
  by (simp_all add: put_le_def put_be_def upt_conv_Cons)

lemma write_unsigned:
  assumes "0 \<le> e" "0 < n"
  shows "le_write e t (int n) 1 0 (store b t (and255 e)) = put_le b t n e"
    "be_write e t (int n - 1) 1 (store b (t + (int n - 1)) (and255 e)) = put_be b t n e"
  using le_write_fold [OF assms(1), of 0 n t "store b t e"] be_write_fold [OF assms(1), of 0 n t "store b (t + (int n - 1)) e"]
    assms(2) by (simp_all add: put_start of_nat_diff)

lemma write_signed:
  assumes "0 \<le> t" "t + int n \<le> blen b" "0 < n"
  shows "les_write e t (int n) 1 0 0 (store b t (and255 e)) = put_le b t n e"
    "bes_write e t (int n - 1) 1 0 (store b (t + (int n - 1)) (and255 e)) = put_be b t n e"
  using les_write_fold [of t n "store b t e" 0 e] bes_write_fold [of t n "store b (t + (int n - 1)) e" 0 e]
    assms by (simp_all add: put_start byte_at_store borrow_def)

section \<open>Methods of fixed width\<close>

lemma or_shl:
  assumes "0 \<le> m" "m < 2 ^ k" "k < 32"
  shows "word_of_int m OR shl (word_of_int v) k = word_of_int (m + 2 ^ k * v)"
proof -
  have "\<not> bit m i \<or> \<not> bit (push_bit k v) i" for i
  proof -
    have "take_bit k m = m" using assms by (simp add: take_bit_int_eq_self)
    then have "bit m i \<Longrightarrow> i < k" by (metis bit_take_bit_iff)
    then show ?thesis by (auto simp: bit_push_bit_iff)
  qed
  then have "m + 2 ^ k * v = m OR push_bit k v" by (subst disjunctive_add [symmetric]) (auto simp: push_bit_eq_mult)
  moreover have "shl (word_of_int v) k = word_of_int (push_bit k v)"
    using assms(3) by (simp add: shl_def push_bit_eq_mult)
  moreover have "word_of_int m OR word_of_int n = (word_of_int (m OR n) :: int32)" for n
    by (intro bit_word_eqI) (simp add: bit_word_of_int_iff bit_or_iff)
  ultimately show ?thesis by simp
qed

lemma sint_twos: "0 \<le> v \<Longrightarrow> v < 2 ^ 32 \<Longrightarrow> sint (word_of_int v :: int32) = twos 4 v"
proof -
  assume v: "0 \<le> v" "v < 2 ^ 32"
  have "(v + 2147483648) mod 4294967296 = (if v < 2147483648 then v + 2147483648 else v - 2147483648)"
  proof (cases "v < 2147483648")
    case False
    have "(v + 2147483648) mod 4294967296 = ((v - 2147483648) + 4294967296) mod 4294967296" by (simp add: add.commute)
    also have "\<dots> = v - 2147483648" using False v by (simp only: mod_add_self2) simp
    finally show ?thesis using False by simp
  qed (use v in simp)
  then show ?thesis by (auto simp: int_word_sint twos_def)
qed

lemma bit_top: "0 \<le> v \<Longrightarrow> v < 2 ^ Suc n \<Longrightarrow> bit v n \<longleftrightarrow> (2::int) ^ n \<le> v"
proof -
  assume v: "0 \<le> v" "v < 2 ^ Suc n"
  have "v div 2 ^ n = (if 2 ^ n \<le> v then 1 else 0)"
    using v by (auto intro!: div_pos_pos_trivial simp: int_div_pos_eq [of v "2 ^ n" 1 "v - 2 ^ n"])
  then show ?thesis by (simp add: bit_iff_odd)
qed

lemma and_top:
  "0 \<le> v \<Longrightarrow> v < 256 \<Longrightarrow> 128 AND (word_of_int v :: int32) = 0 \<longleftrightarrow> v < 128"
  "0 \<le> v \<Longrightarrow> v < 65536 \<Longrightarrow> 32768 AND (word_of_int v :: int32) = 0 \<longleftrightarrow> v < 32768"
proof -
  have e: "(2 ^ n :: int32) AND word_of_int v = 0 \<longleftrightarrow> \<not> bit v n" if "n < 32" for n
    using that by (simp add: and.commute [of "2 ^ n"] and_exp_eq_0_iff_not_bit bit_word_of_int_iff)
  show "0 \<le> v \<Longrightarrow> v < 256 \<Longrightarrow> 128 AND (word_of_int v :: int32) = 0 \<longleftrightarrow> v < 128"
    using e [of 7] bit_top [of v 7] by auto
  show "0 \<le> v \<Longrightarrow> v < 65536 \<Longrightarrow> 32768 AND (word_of_int v :: int32) = 0 \<longleftrightarrow> v < 32768"
    using e [of 15] bit_top [of v 15] by auto
qed

lemma sign16_twos: "0 \<le> v \<Longrightarrow> v < 65536 \<Longrightarrow> sign16 (word_of_int v) = twos 2 v"
proof -
  assume v: "0 \<le> v" "v < 65536"
  have "(4294901760 :: int32) = shl (word_of_int 65535) 16" by (simp add: shl_def)
  then have "4294901760 OR (word_of_int v :: int32) = word_of_int (v + 2 ^ 16 * 65535)"
    using or_shl [OF v(1), of 16 65535] v(2) by (simp add: or.commute)
  then have "sint (4294901760 OR (word_of_int v :: int32)) = twos 4 (v + 2 ^ 16 * 65535)"
    using sint_twos [of "v + 2 ^ 16 * 65535"] v by simp
  then show ?thesis using v and_top(2) [OF v] sint_twos [of v] by (simp add: sign16_def twos_def not_less)
qed

lemma bits_window: "in_range b e n \<Longrightarrow> i < n \<Longrightarrow> bits_at b (e + int i) = word_of_int (uint (window b e n ! i))"
  using byte_at_window [of e n b i] by (simp add: in_range_def bits_at_def bits_of_def ToInt32_def)

lemma window_1:
  assumes "in_range b e 1"
  obtains x where "window b e 1 = [x]" "byte_at b e = Some (uint x)" "bits_at b e = word_of_int (uint x)"
proof -
  have r: "0 \<le> e" "e + int 1 \<le> blen b" using assms by (auto simp: in_range_def)
  obtain x where "window b e 1 = [x]" using length_window [OF r] by (auto simp: length_Suc_conv)
  then show ?thesis using that byte_at_window [OF r, of 0] bits_window [OF assms, of 0] by simp
qed

lemma window_2:
  assumes "in_range b e 2"
  obtains x y where "window b e 2 = [x, y]" "bits_at b e = word_of_int (uint x)" "bits_at b (e + 1) = word_of_int (uint y)"
proof -
  have r: "0 \<le> e" "e + int 2 \<le> blen b" using assms by (auto simp: in_range_def)
  obtain x y where "window b e 2 = [x, y]" using length_window [OF r] by (auto simp: numeral_eq_Suc length_Suc_conv)
  then show ?thesis using that bits_window [OF assms, of 0] bits_window [OF assms, of 1] by simp
qed

lemma window_4:
  assumes "in_range b e 4"
  obtains x y z u where "window b e 4 = [x, y, z, u]" "bits_at b e = word_of_int (uint x)" "bits_at b (e + 1) = word_of_int (uint y)"
    "bits_at b (e + 2) = word_of_int (uint z)" "bits_at b (e + 3) = word_of_int (uint u)"
    "byte_at b e = Some (uint x)" "byte_at b (e + 3) = Some (uint u)"
proof -
  have r: "0 \<le> e" "e + int 4 \<le> blen b" using assms by (auto simp: in_range_def)
  obtain x y z u where "window b e 4 = [x, y, z, u]" using length_window [OF r] by (auto simp: numeral_eq_Suc length_Suc_conv)
  then show ?thesis using that bits_window [OF assms, of 0] bits_window [OF assms, of 1] bits_window [OF assms, of 2] bits_window [OF assms, of 3]
      byte_at_window [OF r, of 0] byte_at_window [OF r, of 3] by (simp add: numeral_eq_Suc)
qed

lemma or_bytes:
  "word_of_int (uint (x :: u8)) OR shl (word_of_int (uint (y :: u8))) 8 = word_of_int (uint x + 256 * uint y)"
  "word_of_int (uint (x :: u8)) OR shl (word_of_int (uint (y :: u8))) 8 OR shl (word_of_int (uint (z :: u8))) 16 =
     word_of_int (uint x + 256 * uint y + 65536 * uint z)"
  "word_of_int (uint (x :: u8)) OR shl (word_of_int (uint (y :: u8))) 8 OR shl (word_of_int (uint (z :: u8))) 16 OR shl (word_of_int (uint (u :: u8))) 24 =
     word_of_int (uint x + 256 * uint y + 65536 * uint z + 16777216 * uint u)"
proof -
  note b = u8_range [of x] u8_range [of y] u8_range [of z]
  show 1: "word_of_int (uint x) OR shl (word_of_int (uint y)) 8 = word_of_int (uint x + 256 * uint y)"
    using or_shl [of "uint x" 8 "uint y"] b by simp
  show 2: "word_of_int (uint x) OR shl (word_of_int (uint y)) 8 OR shl (word_of_int (uint z)) 16 =
      word_of_int (uint x + 256 * uint y + 65536 * uint z)"
    using or_shl [of "uint x + 256 * uint y" 16 "uint z"] b unfolding or.assoc [symmetric] 1 by simp
  show "word_of_int (uint x) OR shl (word_of_int (uint y)) 8 OR shl (word_of_int (uint z)) 16 OR shl (word_of_int (uint u)) 24 =
      word_of_int (uint x + 256 * uint y + 65536 * uint z + 16777216 * uint u)"
    using or_shl [of "uint x + 256 * uint y + 65536 * uint z" 24 "uint u"] 2 b unfolding or.assoc [symmetric] 1 by simp
qed

end
