(* ===== verification/Buf_Integers.thy ===== *)
theory Buf_Integers
  imports Buf_Codec
begin

text \<open>
  The contract of a pair of methods that read and write an integer, its interpretations on the methods
  of \<open>Buffer\<close>, and the properties of these methods.
\<close>

section \<open>Readers of fixed width\<close>

lemma check_in_range: "in_range b e n \<Longrightarrow> checkOffset e (int n) (blen b) = Inr ()"
  by (simp add: checkOffset_def in_range_def)

lemma read_8:
  assumes "in_range b e 1"
  shows "readUInt8 b e False = Inr (Some (val_le (window b e 1)))"
    "readInt8 b e False = Inr (Some (twos 1 (val_le (window b e 1))))"
proof -
  obtain x where x: "window b e 1 = [x]" "byte_at b e = Some (uint x)" "bits_at b e = word_of_int (uint x)"
    using assms by (rule window_1)
  note c = check_in_range [OF assms, simplified]
  show "readUInt8 b e False = Inr (Some (val_le (window b e 1)))" using x c by (simp add: readUInt8_def unless_def)
  show "readInt8 b e False = Inr (Some (twos 1 (val_le (window b e 1))))"
    using x c and_top(1) [OF u8_range, of x] by (simp add: readInt8_def unless_def twos_def)
qed

lemma read_16:
  assumes "in_range b e 2"
  shows "readUInt16LE b e False = Inr (Some (val_le (window b e 2)))"
    "readUInt16BE b e False = Inr (Some (val_le (rev (window b e 2))))"
    "readInt16LE b e False = Inr (Some (twos 2 (val_le (window b e 2))))"
    "readInt16BE b e False = Inr (Some (twos 2 (val_le (rev (window b e 2)))))"
proof -
  obtain x y where x: "window b e 2 = [x, y]" "bits_at b e = word_of_int (uint x)" "bits_at b (e + 1) = word_of_int (uint y)"
    using assms by (rule window_2)
  note c = check_in_range [OF assms, simplified]
  have r: "0 \<le> uint x + 256 * uint y" "uint x + 256 * uint y < 65536" "0 \<le> uint y + 256 * uint x" "uint y + 256 * uint x < 65536"
    using u8_range [of x] u8_range [of y] by simp_all
  have s: "sint (word_of_int v :: int32) = v" if "0 \<le> v" "v < 65536" for v using that sint_twos [of v] by (simp add: twos_def)
  note d = c x or_bytes(1) or.commute [of "shl _ _"] unless_def
  show "readUInt16LE b e False = Inr (Some (val_le (window b e 2)))"
    using s [OF r(1,2)] by (simp only: readUInt16LE_def d) simp
  show "readUInt16BE b e False = Inr (Some (val_le (rev (window b e 2))))"
    using s [OF r(3,4)] by (simp only: readUInt16BE_def d) simp
  show "readInt16LE b e False = Inr (Some (twos 2 (val_le (window b e 2))))"
    using sign16_twos [OF r(1,2)] by (simp only: readInt16LE_def d) simp
  show "readInt16BE b e False = Inr (Some (twos 2 (val_le (rev (window b e 2)))))"
    using sign16_twos [OF r(3,4)] by (simp only: readInt16BE_def d) simp
qed

lemma read_32:
  assumes "in_range b e 4"
  shows "readUInt32LE b e False = Inr (Some (val_le (window b e 4)))"
    "readUInt32BE b e False = Inr (Some (val_le (rev (window b e 4))))"
    "readInt32LE b e False = Inr (Some (twos 4 (val_le (window b e 4))))"
    "readInt32BE b e False = Inr (Some (twos 4 (val_le (rev (window b e 4)))))"
proof -
  obtain x y z u where x: "window b e 4 = [x, y, z, u]" "bits_at b e = word_of_int (uint x)" "bits_at b (e + 1) = word_of_int (uint y)"
    "bits_at b (e + 2) = word_of_int (uint z)" "bits_at b (e + 3) = word_of_int (uint u)"
    "byte_at b e = Some (uint x)" "byte_at b (e + 3) = Some (uint u)"
    using assms by (rule window_4)
  note c = check_in_range [OF assms, simplified]
  note r = u8_range [of x] u8_range [of y] u8_range [of z] u8_range [of u]
  have s: "sint (word_of_int v :: int32) = v" if "0 \<le> v" "v < 16777216" for v using that sint_twos [of v] by (simp add: twos_def)
  have be: "shl (word_of_int (uint y)) 16 OR shl (word_of_int (uint z)) 8 OR word_of_int (uint u) =
      (word_of_int (uint u) OR shl (word_of_int (uint z)) 8 OR shl (word_of_int (uint y)) 16 :: int32)"
    "shl (word_of_int (uint x)) 24 OR shl (word_of_int (uint y)) 16 OR shl (word_of_int (uint z)) 8 OR word_of_int (uint u) =
      (word_of_int (uint u) OR shl (word_of_int (uint z)) 8 OR shl (word_of_int (uint y)) 16 OR shl (word_of_int (uint x)) 24 :: int32)"
    by (simp_all only: ac_simps)
  note d = c x or_bytes unless_def num_add_def num_mult_def
  show "readUInt32LE b e False = Inr (Some (val_le (window b e 4)))"
    using s [of "uint x + 256 * uint y + 65536 * uint z"] r by (simp only: readUInt32LE_def d) simp
  show "readUInt32BE b e False = Inr (Some (val_le (rev (window b e 4))))"
    using s [of "uint u + 256 * uint z + 65536 * uint y"] r by (simp only: readUInt32BE_def d be(1)) simp
  show "readInt32LE b e False = Inr (Some (twos 4 (val_le (window b e 4))))"
    using sint_twos [of "uint x + 256 * uint y + 65536 * uint z + 16777216 * uint u"] r by (simp only: readInt32LE_def d) (simp add: algebra_simps)
  show "readInt32BE b e False = Inr (Some (twos 4 (val_le (rev (window b e 4)))))"
    using sint_twos [of "uint u + 256 * uint z + 65536 * uint y + 16777216 * uint x"] r by (simp only: readInt32BE_def d be(2)) (simp add: algebra_simps)
qed

section \<open>Writers of fixed width\<close>

lemma upt_small: "[0..<1] = [0]" "[0..<2] = [0, 1]" "[0..<4] = [0, 1, 2, 3]"
  by (simp_all add: upt_rec)

lemma put_small:
  "put_le b t (Suc 0) e = store b t e" "put_be b t (Suc 0) e = store b t e"
  "put_le b t 2 e = store (store b t e) (t + 1) (e div 256)"
  "put_be b t 2 e = store (store b t (e div 256)) (t + 1) e"
  "put_le b t 4 e = store (store (store (store b t e) (t + 1) (e div 256)) (t + 2) (e div 65536)) (t + 3) (e div 16777216)"
  "put_be b t 4 e = store (store (store (store b t (e div 16777216)) (t + 1) (e div 65536)) (t + 2) (e div 256)) (t + 3) e"
  by (rule buf_eqI; auto simp: put_le_def put_be_def upt_small byte_at_store)+

lemma store_4:
  "store (store (store (store b (t + 3) x) (t + 2) y) (t + 1) z) t u = store (store (store (store b t u) (t + 1) z) (t + 2) y) (t + 3) x"
  by (rule buf_eqI) (auto simp: byte_at_store)

lemma object16:
  assumes "n + 2 \<le> blen e"
  shows "objectWriteUInt16 e t n True = put_le e n 2 t" "objectWriteUInt16 e t n False = put_be e n 2 t"
proof -
  have m: "min (blen e - n) 2 = 2" using assms by simp
  have w: "store b i ((65536 + t) div 256) = store b i (t div 256)" "store b i (65536 + t) = store b i t" for b i
    using store_wrap [of 8 16 b i t] store_wrap [of 0 16 b i t] by simp_all
  show "objectWriteUInt16 e t n True = put_le e n 2 t"
    by (simp add: objectWriteUInt16_def Let_def m upt_small put_small w)
  show "objectWriteUInt16 e t n False = put_be e n 2 t"
    by (simp add: objectWriteUInt16_def Let_def m upt_small put_small w store_commute [of n "n + 1"])
qed

lemma object32:
  assumes "n + 4 \<le> blen e"
  shows "objectWriteUInt32 e t n True = put_le e n 4 t" "objectWriteUInt32 e t n False = put_be e n 4 t"
proof -
  have m: "min (blen e - n) 4 = 4" using assms by simp
  have w: "store b i ((4294967296 + t) div 256) = store b i (t div 256)" "store b i (4294967296 + t) = store b i t"
    "store b i ((4294967296 + t) div 65536) = store b i (t div 65536)" "store b i ((4294967296 + t) div 16777216) = store b i (t div 16777216)" for b i
    using store_wrap [of 8 32 b i t] store_wrap [of 0 32 b i t] store_wrap [of 16 32 b i t] store_wrap [of 24 32 b i t] by simp_all
  show "objectWriteUInt32 e t n True = put_le e n 4 t"
    by (simp add: objectWriteUInt32_def Let_def m upt_small put_small w)
  show "objectWriteUInt32 e t n False = put_be e n 4 t"
    by (simp add: objectWriteUInt32_def Let_def m upt_small put_small w)
qed

lemma to32_small: "to32 1 = 1" "to32 2 = 2" "to32 4 = 4"
  by (simp_all add: to32_id)

lemma bind_unless: "unless False c x = (case c of Inl e \<Rightarrow> Inl e | Inr _ \<Rightarrow> Inr x)"
  by (cases c) (simp_all add: unless_def)

lemma checkInt_Inr: "checkInt b e t n k i = Inr x \<longleftrightarrow> i \<le> e \<and> e \<le> k \<and> t + n \<le> blen b"
  by (auto simp: checkInt_def)

lemma unless_cong: "(\<And>u. c = Inr u \<Longrightarrow> x = y) \<Longrightarrow> unless False c x = unless False c y"
  by (cases c) (simp_all add: bind_unless)

lemma unsigned_writer_cong:
  assumes "max_uint n = k" "to32 n = n" "\<And>t. 0 \<le> e \<Longrightarrow> t + n \<le> blen b \<Longrightarrow> p t = q t"
  shows "unless False (checkInt b e t n k 0) (p t, t + n) = unless False (checkInt b e t (to32 n) (max_uint (to32 n)) 0) (q t, t + to32 n)"
  unfolding assms(1,2) by (rule unless_cong) (auto simp: checkInt_Inr assms(3))

lemma signed_writer_cong:
  assumes "2 ^ nat (8 * n - 1) = k" "1 \<le> n" "\<And>t. 0 \<le> t \<Longrightarrow> t + n \<le> blen b \<Longrightarrow> p t = q t" "0 \<le> t"
  shows "unless False (checkInt b e t n (k - 1) (- k)) (p t, t + n) = unless False (checkSigned b e t n) (q t, t + n)"
  using assms(2) unfolding checkSigned_def assms(1) by (auto simp: Let_def checkInt_Inr assms(3,4) intro!: unless_cong)

lemma unsigned_fixed:
  "writeUInt8 b e t False = writeUIntLE b e t 1 False"
  "writeUInt16LE ty b e t False = writeUIntLE b e t 2 False"
  "writeUInt16BE ty b e t False = writeUIntBE b e t 2 False"
  "writeUInt32LE ty b e t False = writeUIntLE b e t 4 False"
  "writeUInt32BE ty b e t False = writeUIntBE b e t 4 False"
proof -
  note w = write_unsigned [of e 1] write_unsigned [of e 2] write_unsigned [of e 4]
  show "writeUInt8 b e t False = writeUIntLE b e t 1 False" unfolding writeUInt8_def writeUIntLE_def Let_def
    by (rule unsigned_writer_cong) (use w in \<open>simp_all add: max_uint_def to32_small put_small\<close>)
  show "writeUInt16LE ty b e t False = writeUIntLE b e t 2 False" unfolding writeUInt16LE_def writeUIntLE_def Let_def
    by (rule unsigned_writer_cong) (use w in \<open>simp_all add: max_uint_def to32_small put_small object16\<close>)
  show "writeUInt16BE ty b e t False = writeUIntBE b e t 2 False" unfolding writeUInt16BE_def writeUIntBE_def Let_def
    by (rule unsigned_writer_cong) (use w in \<open>simp_all add: max_uint_def to32_small put_small object16\<close>)
  show "writeUInt32LE ty b e t False = writeUIntLE b e t 4 False" unfolding writeUInt32LE_def writeUIntLE_def Let_def
    by (rule unsigned_writer_cong) (use w in \<open>simp_all add: max_uint_def to32_small put_small object32 store_4\<close>)
  show "writeUInt32BE ty b e t False = writeUIntBE b e t 4 False" unfolding writeUInt32BE_def writeUIntBE_def Let_def
    by (rule unsigned_writer_cong) (use w in \<open>simp_all add: max_uint_def to32_small put_small object32\<close>)
qed

lemma signed_fixed:
  assumes "0 \<le> to32 t"
  shows "writeInt8 b e t False = writeIntLE b e t 1 False"
    "writeInt16LE ty b e t False = writeIntLE b e t 2 False"
    "writeInt16BE ty b e t False = writeIntBE b e t 2 False"
    "writeInt32LE ty b e t False = writeIntLE b e t 4 False"
    "writeInt32BE ty b e t False = writeIntBE b e t 4 False"
proof -
  have w: "0 \<le> u \<Longrightarrow> u + 1 \<le> blen b \<Longrightarrow> les_write e u 1 1 0 0 (store b u e) = put_le b u 1 e"
    "0 \<le> u \<Longrightarrow> u + 2 \<le> blen b \<Longrightarrow> les_write e u 2 1 0 0 (store b u e) = put_le b u 2 e"
    "0 \<le> u \<Longrightarrow> u + 2 \<le> blen b \<Longrightarrow> bes_write e u 1 1 0 (store b (u + 1) e) = put_be b u 2 e"
    "0 \<le> u \<Longrightarrow> u + 4 \<le> blen b \<Longrightarrow> les_write e u 4 1 0 0 (store b u e) = put_le b u 4 e"
    "0 \<le> u \<Longrightarrow> u + 4 \<le> blen b \<Longrightarrow> bes_write e u 3 1 0 (store b (u + 3) e) = put_be b u 4 e" for u
    using write_signed [of u 1 b e] write_signed [of u 2 b e] write_signed [of u 4 b e] by simp_all
  have v: "store b u (if e < 0 then 255 + e + 1 else e) = store b u e" for u using store_wrap [of 0 8 b u e] by simp
  show "writeInt8 b e t False = writeIntLE b e t 1 False" unfolding writeInt8_def writeIntLE_def Let_def
    using signed_writer_cong [OF _ _ _ assms, of 1 128 b "\<lambda>u. store b u (and255 (if e < 0 then 255 + e + 1 else e))" "\<lambda>u. les_write e u 1 1 0 0 (store b u (and255 e))" e]
    by (simp add: w v put_small)
  show "writeInt16LE ty b e t False = writeIntLE b e t 2 False" unfolding writeInt16LE_def writeIntLE_def Let_def
    using signed_writer_cong [OF _ _ _ assms, of 2 32768 b "\<lambda>u. if ty then store (store b u (and255 e)) (u + 1) (shr e 8) else objectWriteUInt16 b e u True"
        "\<lambda>u. les_write e u 2 1 0 0 (store b u (and255 e))" e]
    by (simp add: w put_small object16)
  show "writeInt16BE ty b e t False = writeIntBE b e t 2 False" unfolding writeInt16BE_def writeIntBE_def Let_def
    using signed_writer_cong [OF _ _ _ assms, of 2 32768 b "\<lambda>u. if ty then store (store b u (shr e 8)) (u + 1) (and255 e) else objectWriteUInt16 b e u False"
        "\<lambda>u. bes_write e u 1 1 0 (store b (u + 1) (and255 e))" e]
    by (simp add: w put_small object16)
  show "writeInt32LE ty b e t False = writeIntLE b e t 4 False" unfolding writeInt32LE_def writeIntLE_def Let_def
    using signed_writer_cong [OF _ _ _ assms, of 4 2147483648 b "\<lambda>u. if ty then store (store (store (store b u (and255 e)) (u + 1) (shr e 8)) (u + 2) (shr e 16)) (u + 3) (shr e 24)
        else objectWriteUInt32 b e u True" "\<lambda>u. les_write e u 4 1 0 0 (store b u (and255 e))" e]
    by (simp add: w put_small object32)
  let ?e = "if e < 0 then 4294967295 + e + 1 else e"
  have x: "put_be b u 4 ?e = put_be b u 4 e" for u
  proof -
    have "store c i (?e div 2 ^ s) = store c i (e div 2 ^ s)" if "s + 8 \<le> 32" for c i s
      using store_wrap [OF that, of c i e] by (simp add: add.commute)
    from this [of 0] this [of 8] this [of 16] this [of 24] show ?thesis by (simp add: put_small)
  qed
  show "writeInt32BE ty b e t False = writeIntBE b e t 4 False" unfolding writeInt32BE_def writeIntBE_def Let_def
    using signed_writer_cong [OF _ _ _ assms, of 4 2147483648 b "\<lambda>u. if ty then store (store (store (store b u (shr ?e 24)) (u + 1) (shr ?e 16)) (u + 2) (shr ?e 8)) (u + 3) (and255 ?e)
        else objectWriteUInt32 b ?e u False" "\<lambda>u. bes_write e u 3 1 0 (store b (u + 3) (and255 e))" e] x
    by (simp add: w put_small object32)
qed

section \<open>Bytes written\<close>

lemma blen_fold_store: "blen (fold (\<lambda>k b. store b (f k) (g k)) ks b) = blen b"
  by (induction ks arbitrary: b) simp_all

lemma length_codec_put [simp]: "length (put_le b t n v) = length b" "length (put_be b t n v) = length b"
  using blen_fold_store [of "\<lambda>k. t + int k" "\<lambda>k. v div 256 ^ k" "[0..<n]" b]
    blen_fold_store [of "\<lambda>k. t + (int n - 1 - int k)" "\<lambda>k. v div 256 ^ k" "[0..<n]" b]
  by (simp_all add: put_le_def put_be_def blen_def)

lemma byte_at_put_le:
  "byte_at (put_le b t n v) j =
    (if t \<le> j \<and> j < t + int n \<and> 0 \<le> j \<and> j < blen b then Some (v div 256 ^ nat (j - t) mod 256) else byte_at b j)"
proof (induction n)
  case (Suc n)
  have "put_le b t (Suc n) v = store (put_le b t n v) (t + int n) (v div 256 ^ n)" by (simp add: put_le_def)
  then show ?case using Suc by (auto simp: byte_at_store blen_def)
qed (auto simp: put_le_def)

lemma byte_at_put_be:
  "byte_at (put_be b t n v) j =
    (if t \<le> j \<and> j < t + int n \<and> 0 \<le> j \<and> j < blen b then Some (v div 256 ^ nat (t + int n - 1 - j) mod 256) else byte_at b j)"
proof -
  have "byte_at (fold (\<lambda>k b. store b (t + (m - int k)) (v div 256 ^ k)) [0..<n] b) j =
      (if t + m - int n < j \<and> j \<le> t + m \<and> 0 \<le> j \<and> j < blen b then Some (v div 256 ^ nat (t + m - j) mod 256) else byte_at b j)" for m
  proof (induction n)
    case (Suc n)
    then show ?case using blen_fold_store [of "\<lambda>k. t + (m - int k)" "\<lambda>k. v div 256 ^ k" "[0..<n]" b]
      by (auto simp: byte_at_store)
  qed auto
  from this [of "int n - 1"] show ?thesis by (auto simp: put_be_def algebra_simps)
qed

lemma put_overwrite:
  assumes "in_range b t n"
  shows "put_le b t n v = overwrite b t (bytes_le n v)" "put_be b t n v = overwrite b t (rev (bytes_le n v))"
proof -
  have r: "0 \<le> t" "t + int n \<le> blen b" using assms by (auto simp: in_range_def)
  have "nat (j - t) < n" if "t \<le> j" "j < t + int n" for j using that by simp
  then show "put_le b t n v = overwrite b t (bytes_le n v)"
    using r by (intro buf_eqI) (auto simp: byte_at_put_le byte_at_overwrite bytes_le_nth)
  have "rev (bytes_le n v) ! nat (j - t) = bytes_le n v ! nat (t + int n - 1 - j)" if "t \<le> j" "j < t + int n" for j
  proof -
    have "n - Suc (nat (j - t)) = nat (t + int n - 1 - j)" using that by simp
    then show ?thesis using that by (simp add: rev_nth)
  qed
  then show "put_be b t n v = overwrite b t (rev (bytes_le n v))"
    using r by (intro buf_eqI) (auto simp: byte_at_put_be byte_at_overwrite bytes_le_nth)
qed

section \<open>The contract of a reader and a writer\<close>

definition same_outside :: "buf \<Rightarrow> int \<Rightarrow> nat \<Rightarrow> buf \<Rightarrow> bool" where
  "same_outside b t n b' \<longleftrightarrow> length b' = length b \<and> (\<forall>j. j < t \<or> t + int n \<le> j \<longrightarrow> byte_at b' j = byte_at b j)"

locale int_codec =
  fixes rd :: "buf \<Rightarrow> int \<Rightarrow> int option js"
    and wr :: "buf \<Rightarrow> int \<Rightarrow> int \<Rightarrow> (buf \<times> int) js"
    and width :: nat
    and fits :: "int \<Rightarrow> bool"
    and enc :: "int \<Rightarrow> u8 list"
    and dec :: "u8 list \<Rightarrow> int"
  assumes length_enc: "length (enc v) = width"
    and dec_enc: "fits v \<Longrightarrow> dec (enc v) = v"
    and read_window: "in_range b t width \<Longrightarrow> rd b t = Inr (Some (dec (window b t width)))"
    and write_window: "in_range b t width \<Longrightarrow> fits v \<Longrightarrow> wr b v t = Inr (overwrite b t (enc v), t + int width)"
begin

lemma read_write:
  assumes "in_range b t width" "fits v"
  shows "\<exists>b'. wr b v t = Inr (b', t + int width) \<and> rd b' t = Inr (Some v) \<and> same_outside b t width b'"
proof -
  have r: "0 \<le> t" "t + int (length (enc v)) \<le> blen b" using assms by (auto simp: in_range_def length_enc)
  have "in_range (overwrite b t (enc v)) t width" using assms(1) r by (simp add: in_range_def blen_def)
  then have "rd (overwrite b t (enc v)) t = Inr (Some v)"
    using window_overwrite [OF r] by (simp add: read_window length_enc dec_enc assms(2))
  then show ?thesis using write_window [OF assms] r by (auto simp: same_outside_def byte_at_overwrite length_enc)
qed

end

lemma fits_unsigned: "0 \<le> v \<Longrightarrow> v < 256 ^ n \<Longrightarrow> val_le (bytes_le n v) = v"
  by (simp add: val_le_bytes_le)

lemma fits_signed:
  "0 < n \<Longrightarrow> - (2 ^ (8 * n - 1)) \<le> v \<Longrightarrow> v < 2 ^ (8 * n - 1) \<Longrightarrow> twos n (val_le (bytes_le n v)) = v"
  by (simp add: val_le_bytes_le twos_mod)

lemma max_uint_256: "max_uint (int n) = 256 ^ n - 1"
proof -
  have "nat (8 * int n) = 8 * n" by simp
  then show ?thesis by (simp add: max_uint_def power_mult)
qed

lemma write_variable:
  assumes r: "in_range b t n" and n: "0 < n"
  shows "0 \<le> v \<Longrightarrow> v < 256 ^ n \<Longrightarrow> writeUIntLE b v t (int n) False = Inr (put_le b t n v, t + int n)"
    "0 \<le> v \<Longrightarrow> v < 256 ^ n \<Longrightarrow> writeUIntBE b v t (int n) False = Inr (put_be b t n v, t + int n)"
    "- (2 ^ (8 * n - 1)) \<le> v \<Longrightarrow> v < 2 ^ (8 * n - 1) \<Longrightarrow> writeIntLE b v t (int n) False = Inr (put_le b t n v, t + int n)"
    "- (2 ^ (8 * n - 1)) \<le> v \<Longrightarrow> v < 2 ^ (8 * n - 1) \<Longrightarrow> writeIntBE b v t (int n) False = Inr (put_be b t n v, t + int n)"
proof -
  have b: "0 \<le> t" "t + int n \<le> blen b" using r by (auto simp: in_range_def)
  have e: "nat (8 * int n - 1) = 8 * n - 1" by simp
  note d = in_range_to32 [OF r] Let_def bind_unless max_uint_256
  show "0 \<le> v \<Longrightarrow> v < 256 ^ n \<Longrightarrow> writeUIntLE b v t (int n) False = Inr (put_le b t n v, t + int n)"
    using write_unsigned(1) [OF _ n, of v t b] b by (simp add: writeUIntLE_def d checkInt_def)
  show "0 \<le> v \<Longrightarrow> v < 256 ^ n \<Longrightarrow> writeUIntBE b v t (int n) False = Inr (put_be b t n v, t + int n)"
    using write_unsigned(2) [OF _ n, of v t b] b by (simp add: writeUIntBE_def d checkInt_def)
  show "- (2 ^ (8 * n - 1)) \<le> v \<Longrightarrow> v < 2 ^ (8 * n - 1) \<Longrightarrow> writeIntLE b v t (int n) False = Inr (put_le b t n v, t + int n)"
    using write_signed(1) [OF b n, of v] b n by (simp add: writeIntLE_def d checkInt_def checkSigned_def e)
  show "- (2 ^ (8 * n - 1)) \<le> v \<Longrightarrow> v < 2 ^ (8 * n - 1) \<Longrightarrow> writeIntBE b v t (int n) False = Inr (put_be b t n v, t + int n)"
    using write_signed(2) [OF b n, of v] b n by (simp add: writeIntBE_def d checkInt_def checkSigned_def e)
qed

interpretation uint_le: int_codec "\<lambda>b t. readUIntLE b t (int (Suc k)) False" "\<lambda>b v t. writeUIntLE b v t (int (Suc k)) False"
  "Suc k" "\<lambda>v. 0 \<le> v \<and> v < 256 ^ Suc k" "bytes_le (Suc k)" val_le for k
  by unfold_locales (use fits_unsigned [of _ "Suc k"] in \<open>auto simp: read_variable write_variable put_overwrite simp del: bytes_le.simps power_Suc of_nat_Suc\<close>)

interpretation uint_be: int_codec "\<lambda>b t. readUIntBE b t (int (Suc k)) False" "\<lambda>b v t. writeUIntBE b v t (int (Suc k)) False"
  "Suc k" "\<lambda>v. 0 \<le> v \<and> v < 256 ^ Suc k" "\<lambda>v. rev (bytes_le (Suc k) v)" "\<lambda>bs. val_le (rev bs)" for k
  by unfold_locales (use fits_unsigned [of _ "Suc k"] in \<open>auto simp: read_variable write_variable put_overwrite simp del: bytes_le.simps power_Suc of_nat_Suc\<close>)

interpretation int_le: int_codec "\<lambda>b t. readIntLE b t (int (Suc k)) False" "\<lambda>b v t. writeIntLE b v t (int (Suc k)) False"
  "Suc k" "\<lambda>v. - (2 ^ (8 * Suc k - 1)) \<le> v \<and> v < 2 ^ (8 * Suc k - 1)" "bytes_le (Suc k)" "\<lambda>bs. twos (Suc k) (val_le bs)" for k
  by unfold_locales (use fits_signed [of "Suc k"] in \<open>auto simp: read_variable write_variable put_overwrite simp del: bytes_le.simps power_Suc of_nat_Suc mult_Suc_right diff_Suc_1\<close>)

interpretation int_be: int_codec "\<lambda>b t. readIntBE b t (int (Suc k)) False" "\<lambda>b v t. writeIntBE b v t (int (Suc k)) False"
  "Suc k" "\<lambda>v. - (2 ^ (8 * Suc k - 1)) \<le> v \<and> v < 2 ^ (8 * Suc k - 1)" "\<lambda>v. rev (bytes_le (Suc k) v)" "\<lambda>bs. twos (Suc k) (val_le (rev bs))" for k
  by unfold_locales (use fits_signed [of "Suc k"] in \<open>auto simp: read_variable write_variable put_overwrite simp del: bytes_le.simps power_Suc of_nat_Suc mult_Suc_right diff_Suc_1\<close>)

section \<open>Properties\<close>

text \<open>
  C5: an integer of \<open>n\<close> bytes, signed or not and in either byte order, that is written at an offset inside
  the buffer is read back from there, the offset after it is returned, and no byte outside the
  \<open>n\<close> written ones changes.
\<close>

theorem integer_roundtrip:
  assumes "in_range b t n" "0 < n"
  shows "(\<forall>v. 0 \<le> v \<and> v < 256 ^ n \<longrightarrow>
      (\<exists>b'. writeUIntLE b v t (int n) False = Inr (b', t + int n) \<and> readUIntLE b' t (int n) False = Inr (Some v) \<and> same_outside b t n b') \<and>
      (\<exists>b'. writeUIntBE b v t (int n) False = Inr (b', t + int n) \<and> readUIntBE b' t (int n) False = Inr (Some v) \<and> same_outside b t n b')) \<and>
    (\<forall>v. - (2 ^ (8 * n - 1)) \<le> v \<and> v < 2 ^ (8 * n - 1) \<longrightarrow>
      (\<exists>b'. writeIntLE b v t (int n) False = Inr (b', t + int n) \<and> readIntLE b' t (int n) False = Inr (Some v) \<and> same_outside b t n b') \<and>
      (\<exists>b'. writeIntBE b v t (int n) False = Inr (b', t + int n) \<and> readIntBE b' t (int n) False = Inr (Some v) \<and> same_outside b t n b'))"
proof -
  obtain k where k: "n = Suc k" using assms(2) by (cases n) auto
  show ?thesis using assms(1) unfolding k
    using uint_le.read_write uint_be.read_write int_le.read_write int_be.read_write by blast
qed

theorem integer_roundtrip_witness:
  "\<exists>b'. writeIntLE (replicate 10 0) (- 1000) 3 (int 3) False = Inr (b', 3 + int 3) \<and> readIntLE b' 3 (int 3) False = Inr (Some (- 1000))"
proof -
  have "in_range (replicate 10 0) 3 3" by (simp add: in_range_def blen_def)
  from conjunct2 [OF integer_roundtrip [OF this], rule_format, of "- 1000"] show ?thesis by auto
qed

text \<open>
  C37: the methods of 8, 16 and 32 bits, with or without typed arrays, do what the methods of variable
  width do, errors included. (The signed writers agree at offsets that are not negative.)
\<close>

theorem fixed_width_methods:
  assumes "- (2 ^ 31) \<le> t" "t < 2 ^ 31" "blen b < 2 ^ 31"
  shows "writeUInt8 b e t False = writeUIntLE b e t 1 False \<and>
    writeUInt16LE ty b e t False = writeUIntLE b e t 2 False \<and> writeUInt16BE ty b e t False = writeUIntBE b e t 2 False \<and>
    writeUInt32LE ty b e t False = writeUIntLE b e t 4 False \<and> writeUInt32BE ty b e t False = writeUIntBE b e t 4 False \<and>
    (0 \<le> t \<longrightarrow> writeInt8 b e t False = writeIntLE b e t 1 False \<and>
      writeInt16LE ty b e t False = writeIntLE b e t 2 False \<and> writeInt16BE ty b e t False = writeIntBE b e t 2 False \<and>
      writeInt32LE ty b e t False = writeIntLE b e t 4 False \<and> writeInt32BE ty b e t False = writeIntBE b e t 4 False) \<and>
    readUInt8 b t False = readUIntLE b t 1 False \<and> readInt8 b t False = readIntLE b t 1 False \<and>
    readUInt16LE b t False = readUIntLE b t 2 False \<and> readUInt16BE b t False = readUIntBE b t 2 False \<and>
    readInt16LE b t False = readIntLE b t 2 False \<and> readInt16BE b t False = readIntBE b t 2 False \<and>
    readUInt32LE b t False = readUIntLE b t 4 False \<and> readUInt32BE b t False = readUIntBE b t 4 False \<and>
    readInt32LE b t False = readIntLE b t 4 False \<and> readInt32BE b t False = readIntBE b t 4 False"
proof -
  have t: "to32 t = t" using assms by (simp add: to32_id)
  have out: "checkOffset t (int n) (blen b) = Inl RangeError" if "\<not> in_range b t n" for n
    using that assms(3) by (auto simp: in_range_def checkOffset_def)
  have r8: "readUInt8 b t False = readUIntLE b t 1 False \<and> readInt8 b t False = readIntLE b t 1 False"
  proof (cases "in_range b t 1")
    case True
    then show ?thesis using read_8 [OF True] read_variable [OF True] by simp
  next
    case False
    show ?thesis using out [OF False]
      by (simp add: readUInt8_def readInt8_def readUIntLE_def readIntLE_def t to32_small bind_unless)
  qed
  have r16: "readUInt16LE b t False = readUIntLE b t 2 False \<and> readUInt16BE b t False = readUIntBE b t 2 False \<and>
    readInt16LE b t False = readIntLE b t 2 False \<and> readInt16BE b t False = readIntBE b t 2 False"
  proof (cases "in_range b t 2")
    case True
    then show ?thesis using read_16 [OF True] read_variable [OF True] by simp
  next
    case False
    show ?thesis using out [OF False]
      by (simp add: readUInt16LE_def readUInt16BE_def readInt16LE_def readInt16BE_def readUIntLE_def readUIntBE_def readIntLE_def readIntBE_def t to32_small bind_unless)
  qed
  have r32: "readUInt32LE b t False = readUIntLE b t 4 False \<and> readUInt32BE b t False = readUIntBE b t 4 False \<and>
    readInt32LE b t False = readIntLE b t 4 False \<and> readInt32BE b t False = readIntBE b t 4 False"
  proof (cases "in_range b t 4")
    case True
    then show ?thesis using read_32 [OF True] read_variable [OF True] by simp
  next
    case False
    show ?thesis using out [OF False]
      by (simp add: readUInt32LE_def readUInt32BE_def readInt32LE_def readInt32BE_def readUIntLE_def readUIntBE_def readIntLE_def readIntBE_def t to32_small bind_unless)
  qed
  show ?thesis using r8 r16 r32 by (simp add: unsigned_fixed signed_fixed t)
qed

theorem fixed_width_methods_witness:
  "writeInt32BE False [1, 2, 3, 4, 5] (- 2) 1 False = writeIntBE [1, 2, 3, 4, 5] (- 2) 1 4 False"
  using fixed_width_methods [of 1 "[1, 2, 3, 4, 5]" "- 2" False] by (simp add: blen_def)



end
