(* ===== verification/Buf_Text.thy ===== *)
theory Buf_Text
  imports Buf_Bytes
begin

text \<open>
  Strings and bytes in \<open>Buffer\<close>: UTF-8, Latin-1, ASCII, UTF-16, hexadecimal and the copying loop that
  all writers of strings share. A string is a list of UTF-16 code units. A writer returns the new bytes and
  how many it wrote.
\<close>

section \<open>UTF-8\<close>

text \<open>
  \<open>F\<close> (\<open>utf8ToBytes\<close>): the limit \<open>t\<close> is the number of bytes still allowed, \<open>None\<close> without a limit; \<open>lead\<close> is a
  high surrogate that waits for its partner.
\<close>

definition less_units :: "int option \<Rightarrow> int \<Rightarrow> int option" where
  "less_units t k = map_option (\<lambda>x. x - k) t"

definition units_ok :: "int option \<Rightarrow> bool" where
  "units_ok t = (case t of None \<Rightarrow> True | Some x \<Rightarrow> x \<ge> 0)"

definition push_fffd :: "int option \<Rightarrow> u8 list \<Rightarrow> u8 list" where
  "push_fffd t i = (if units_ok t then i @ [239, 191, 189] else i)"

text \<open>The bytes of a code point; none for a number that is not one.\<close>

definition utf8_bytes :: "int \<Rightarrow> u8 list option" where
  "utf8_bytes n =
     (if n < 128 then Some [word_of_int n]
      else if n < 2048 then Some [word_of_int (drop_bit 6 n OR 192), word_of_int (63 AND n OR 128)]
      else if n < 65536 then
        Some [word_of_int (drop_bit 12 n OR 224), word_of_int (drop_bit 6 n AND 63 OR 128), word_of_int (63 AND n OR 128)]
      else if n < 1114112 then
        Some [word_of_int (drop_bit 18 n OR 240), word_of_int (drop_bit 12 n AND 63 OR 128),
          word_of_int (drop_bit 6 n AND 63 OR 128), word_of_int (63 AND n OR 128)]
      else None)"

fun utf8_loop :: "jsstring \<Rightarrow> int option \<Rightarrow> int option \<Rightarrow> u8 list \<Rightarrow> u8 list js" where
  "utf8_loop [] t lead i = Inr i"
| "utf8_loop (c # cs) t lead i =
     (let n = uint c;
          emit = (\<lambda>n t i.
            case utf8_bytes n of
              None \<Rightarrow> Inl (OtherError ''Invalid code point'')
            | Some bs \<Rightarrow>
                (let t1 = less_units t (int (length bs))
                 in if units_ok t1 then utf8_loop cs t1 None (i @ bs) else Inr i));
          t3 = less_units t 3
      in if n > 55295 \<and> n < 57344 then
           (case lead of
              None \<Rightarrow>
                if n > 56319 then utf8_loop cs t3 None (push_fffd t3 i)
                else if cs = [] then utf8_loop cs t3 None (push_fffd t3 i)
                else utf8_loop cs t (Some n) i
            | Some d \<Rightarrow>
                if n < 56320 then utf8_loop cs t3 (Some n) (push_fffd t3 i)
                else emit (65536 + (push_bit 10 (d - 55296) OR (n - 56320))) t i)
         else (case lead of None \<Rightarrow> emit n t i | Some _ \<Rightarrow> emit n t3 (push_fffd t3 i)))"

definition utf8ToBytes :: "jsstring \<Rightarrow> int option \<Rightarrow> u8 list js" where
  "utf8ToBytes e t = utf8_loop e (if t = Some 0 then None else t) None []"

text \<open>\<open>C\<close> (\<open>utf8Slice\<close>): the code point at the front of some bytes and how many bytes it takes.\<close>

definition utf8_width :: "int \<Rightarrow> nat" where
  "utf8_width l = (if l > 239 then 4 else if l > 223 then 3 else if l > 191 then 2 else 1)"

definition cont :: "int \<Rightarrow> bool" where
  "cont i \<longleftrightarrow> 192 AND i = 128"

definition utf8_point :: "int list \<Rightarrow> int option" where
  "utf8_point xs =
     (let l = xs ! 0; f = utf8_width l
      in if f > length xs then None
         else if f = 1 then (if l < 128 then Some l else None)
         else if f = 2 then
           (let i = xs ! 1; s = push_bit 6 (31 AND l) OR (63 AND i)
            in if cont i \<and> s > 127 then Some s else None)
         else if f = 3 then
           (let i = xs ! 1; a = xs ! 2; s = push_bit 12 (15 AND l) OR push_bit 6 (63 AND i) OR (63 AND a)
            in if cont i \<and> cont a \<and> s > 2047 \<and> (s < 55296 \<or> s > 57343) then Some s else None)
         else
           (let i = xs ! 1; a = xs ! 2; u = xs ! 3;
                s = push_bit 18 (15 AND l) OR push_bit 12 (63 AND i) OR push_bit 6 (63 AND a) OR (63 AND u)
            in if cont i \<and> cont a \<and> cont u \<and> s > 65535 \<and> s < 1114112 then Some s else None))"

text \<open>One or two code units for a code point.\<close>

definition push_point :: "int \<Rightarrow> int list" where
  "push_point c =
     (if c > 65535 then (let d = c - 65536 in [drop_bit 10 d AND 1023 OR 55296, 56320 OR (1023 AND d)]) else [c])"

function utf8_points :: "int list \<Rightarrow> int list" where
  "utf8_points xs =
     (if xs = [] then []
      else case utf8_point xs of
             None \<Rightarrow> 65533 # utf8_points (drop 1 xs)
           | Some c \<Rightarrow> push_point c @ utf8_points (drop (utf8_width (xs ! 0)) xs))"
  by pat_completeness auto
termination
  by (relation "measure length") (auto simp: utf8_width_def)

declare utf8_points.simps [simp del]

text \<open>The code units become a string in pieces of 4096.\<close>

definition from_char_codes :: "int list \<Rightarrow> jsstring" where
  "from_char_codes = map word_of_int"

function decode_pieces :: "int list \<Rightarrow> jsstring" where
  "decode_pieces e = (if e = [] then [] else from_char_codes (take 4096 e) @ decode_pieces (drop 4096 e))"
  by pat_completeness auto
termination by (relation "measure length") auto

declare decode_pieces.simps [simp del]

definition decodeCodePoints :: "int list \<Rightarrow> jsstring" where
  "decodeCodePoints e = (if length e \<le> 4096 then from_char_codes e else decode_pieces e)"

text \<open>The bytes \<open>e[o]\<close> for \<open>o\<close> from \<open>t\<close> up to \<open>Math.min(e.length, n)\<close>.\<close>

definition range_bytes :: "buf \<Rightarrow> nat \<Rightarrow> nat \<Rightarrow> int list" where
  "range_bytes e t n = map uint (drop t (take n e))"

definition utf8Slice :: "buf \<Rightarrow> nat \<Rightarrow> nat \<Rightarrow> jsstring" where
  "utf8Slice e t n = decodeCodePoints (utf8_points (range_bytes e t n))"

section \<open>Copying bytes into a buffer\<close>

text \<open>\<open>B\<close> (\<open>blitBuffer\<close>)\<close>

function blit :: "u8 list \<Rightarrow> buf \<Rightarrow> int \<Rightarrow> int \<Rightarrow> int \<Rightarrow> buf \<times> int" where
  "blit e t n r k =
     (if k < r \<and> \<not> (k + n \<ge> blen t \<or> k \<ge> blen e) then blit e (store t (k + n) (uint (e ! nat k))) n r (k + 1) else (t, k))"
  by pat_completeness auto
termination by (relation "measure (\<lambda>(e, t, n, r, k). nat (r - k))") auto

declare blit.simps [simp del]

definition blitBuffer :: "u8 list \<Rightarrow> buf \<Rightarrow> int \<Rightarrow> int \<Rightarrow> buf \<times> int" where
  "blitBuffer e t n r = blit e t n r 0"

section \<open>The other encodings\<close>

definition asciiToBytes :: "jsstring \<Rightarrow> u8 list" where
  "asciiToBytes e = map (\<lambda>c. word_of_int (255 AND uint c)) e"

definition asciiSlice :: "buf \<Rightarrow> nat \<Rightarrow> nat \<Rightarrow> jsstring" where
  "asciiSlice e t n = map (\<lambda>x. word_of_int (127 AND x)) (range_bytes e t n)"

definition latin1Slice :: "buf \<Rightarrow> nat \<Rightarrow> nat \<Rightarrow> jsstring" where
  "latin1Slice e t n = map word_of_int (range_bytes e t n)"

fun utf16leToBytes :: "jsstring \<Rightarrow> int \<Rightarrow> u8 list" where
  "utf16leToBytes [] t = []"
| "utf16leToBytes (c # cs) t =
     (let t1 = t - 2
      in if t1 < 0 then [] else word_of_int (uint c mod 256) # word_of_int (drop_bit 8 (uint c)) # utf16leToBytes cs t1)"

text \<open>A last byte without a partner gives \<open>NaN\<close>, which \<open>String.fromCharCode\<close> turns into the character 0.\<close>

fun utf16_units :: "int list \<Rightarrow> jsstring" where
  "utf16_units [] = []"
| "utf16_units [x] = [0]"
| "utf16_units (x # y # xs) = word_of_int (x + 256 * y) # utf16_units xs"

definition utf16leSlice :: "buf \<Rightarrow> nat \<Rightarrow> nat \<Rightarrow> jsstring" where
  "utf16leSlice e t n = utf16_units (range_bytes e t n)"

text \<open>\<open>q\<close> (\<open>toHex\<close>) and \<open>P\<close> (\<open>hexSlice\<close>)\<close>

definition hex_digit :: "int \<Rightarrow> code_unit" where
  "hex_digit d = word_of_int (if d < 10 then 48 + d else 87 + d)"

definition toHex :: "int \<Rightarrow> jsstring" where
  "toHex e = (if e < 16 then [48, hex_digit e] else [hex_digit (e div 16), hex_digit (e mod 16)])"

definition hexSlice :: "buf \<Rightarrow> nat \<Rightarrow> nat \<Rightarrow> jsstring" where
  "hexSlice e t n = concat (map toHex (range_bytes e t (if n = 0 \<or> n > length e then length e else n)))"

text \<open>\<open>parseInt(s, 16)\<close>: white space, a sign, a prefix \<open>0x\<close>, then the longest run of digits; \<open>None\<close> is \<open>NaN\<close>.\<close>

definition is_space :: "code_unit \<Rightarrow> bool" where
  "is_space c \<longleftrightarrow> (let n = uint c in n \<in> set [9, 10, 11, 12, 13, 32, 160, 5760, 8232, 8233, 8239, 8287, 12288, 65279] \<or> (8192 \<le> n \<and> n \<le> 8202))"

definition hex_value :: "code_unit \<Rightarrow> int option" where
  "hex_value c =
     (let n = uint c
      in if 48 \<le> n \<and> n \<le> 57 then Some (n - 48)
         else if 97 \<le> n \<and> n \<le> 102 then Some (n - 87)
         else if 65 \<le> n \<and> n \<le> 70 then Some (n - 55)
         else None)"

fun hex_run :: "jsstring \<Rightarrow> int option \<Rightarrow> int option" where
  "hex_run [] a = a"
| "hex_run (c # cs) a =
     (case hex_value c of None \<Rightarrow> a | Some d \<Rightarrow> hex_run cs (Some (16 * (case a of None \<Rightarrow> 0 | Some x \<Rightarrow> x) + d)))"

definition strip_0x :: "jsstring \<Rightarrow> jsstring" where
  "strip_0x s = (case s of c # d # cs \<Rightarrow> if c = 48 \<and> (d = 120 \<or> d = 88) then cs else s | _ \<Rightarrow> s)"

definition parseInt16 :: "jsstring \<Rightarrow> int option" where
  "parseInt16 s =
     (case dropWhile is_space s of
        [] \<Rightarrow> None
      | c # cs \<Rightarrow>
          if c = 45 then map_option uminus (hex_run (strip_0x cs) None)
          else if c = 43 then hex_run (strip_0x cs) None
          else hex_run (strip_0x (c # cs)) None)"

text \<open>\<open>y\<close> (\<open>hexWrite\<close>): a length of 0 counts as none given.\<close>

function hex_loop :: "jsstring \<Rightarrow> int \<Rightarrow> int \<Rightarrow> int \<Rightarrow> buf \<Rightarrow> buf \<times> int" where
  "hex_loop t n r a b =
     (if a < r then
        (case parseInt16 (take 2 (drop (nat (2 * a)) t)) of
           None \<Rightarrow> (b, a)
         | Some u \<Rightarrow> hex_loop t n r (a + 1) (store b (n + a) u))
      else (b, a))"
  by pat_completeness auto
termination by (relation "measure (\<lambda>(t, n, r, a, b). nat (r - a))") auto

declare hex_loop.simps [simp del]

definition hexWrite :: "buf \<Rightarrow> jsstring \<Rightarrow> int \<Rightarrow> int \<Rightarrow> (buf \<times> int) js" where
  "hexWrite e t n r0 =
     (let k = blen e - n;
          r1 = (if r0 \<noteq> 0 then (if r0 > k then k else r0) else k);
          i = int (length t)
      in if i mod 2 \<noteq> 0 then Inl TypeError
         else Inr (hex_loop t n (if r1 > i div 2 then i div 2 else r1) 0 e))"

text \<open>\<open>b\<close>, \<open>_\<close>, \<open>w\<close> and \<open>x\<close>: the writers over the copying loop.\<close>

definition utf8Write :: "buf \<Rightarrow> jsstring \<Rightarrow> int \<Rightarrow> int \<Rightarrow> (buf \<times> int) js" where
  "utf8Write e t n r = js_bind (utf8ToBytes t (Some (blen e - n))) (\<lambda>bs. Inr (blitBuffer bs e n r))"

definition asciiWrite :: "buf \<Rightarrow> jsstring \<Rightarrow> int \<Rightarrow> int \<Rightarrow> buf \<times> int" where
  "asciiWrite e t n r = blitBuffer (asciiToBytes t) e n r"

definition latin1Write :: "buf \<Rightarrow> jsstring \<Rightarrow> int \<Rightarrow> int \<Rightarrow> buf \<times> int" where
  "latin1Write e t n r = asciiWrite e t n r"

definition ucs2Write :: "buf \<Rightarrow> jsstring \<Rightarrow> int \<Rightarrow> int \<Rightarrow> buf \<times> int" where
  "ucs2Write e t n r = blitBuffer (utf16leToBytes t (blen e - n)) e n r"

end
