(* ===== verification/Base64.thy ===== *)
theory Base64
  imports Buf_Text
begin

text \<open>
  The module \<^verbatim>\<open>base64-js\<close> and the functions of \<open>Buffer\<close> that call it: bytes to and from Base64.
\<close>

section \<open>Tables\<close>

definition alphabet :: jsstring where
  "alphabet = str ''ABCDEFGHIJKLMNOPQRSTUVWXYZabcdefghijklmnopqrstuvwxyz0123456789+/''"

text \<open>\<open>r[i]\<close>, the character of a number below 64.\<close>

definition code_char :: "int \<Rightarrow> code_unit" where
  "code_char i = alphabet ! nat i"

fun index_from :: "code_unit \<Rightarrow> jsstring \<Rightarrow> int \<Rightarrow> int option" where
  "index_from c [] i = None"
| "index_from c (x # xs) i = (if x = c then Some i else index_from c xs (i + 1))"

text \<open>\<open>o[c]\<close>, its inverse, with \<open>-\<close> and \<open>_\<close> as well; an operand of a bitwise operator, so \<open>undefined\<close> counts as 0.\<close>

definition char_code :: "code_unit \<Rightarrow> int" where
  "char_code c =
     (if c = 45 then 62 else if c = 95 then 63 else case index_from c alphabet 0 of None \<Rightarrow> 0 | Some i \<Rightarrow> i)"

definition code_at :: "jsstring \<Rightarrow> nat \<Rightarrow> int" where
  "code_at e f = (if f < length e then char_code (e ! f) else 0)"

section \<open>Decoding\<close>

text \<open>\<open>l\<close> (\<open>getLens\<close>): where the padding begins and how much of it there is.\<close>

definition getLens :: "jsstring \<Rightarrow> (nat \<times> nat) js" where
  "getLens e =
     (let t = length e
      in if t mod 4 > 0 then Inl (OtherError ''Invalid string. Length must be a multiple of 4'')
         else let n = length (takeWhile (\<lambda>c. c \<noteq> 61) e)
              in Inr (n, if n = t then 0 else 4 - n mod 4))"

definition byteLength64 :: "jsstring \<Rightarrow> nat js" where
  "byteLength64 e = js_bind (getLens e) (\<lambda>(n, r). Inr (3 * (n + r) div 4 - r))"

definition byte :: "int \<Rightarrow> u8" where
  "byte t = word_of_int (255 AND t)"

function quads :: "jsstring \<Rightarrow> nat \<Rightarrow> int \<Rightarrow> u8 list \<times> nat" where
  "quads e f c =
     (if int f < c then
        (let t = push_bit 18 (code_at e f) OR push_bit 12 (code_at e (f + 1)) OR push_bit 6 (code_at e (f + 2)) OR code_at e (f + 3);
             (bs, g) = quads e (f + 4) c
         in (byte (drop_bit 16 t) # byte (drop_bit 8 t) # byte t # bs, g))
      else ([], f))"
  by pat_completeness auto
termination by (relation "measure (\<lambda>(e, f, c). nat (c - int f))") auto

declare quads.simps [simp del]

definition toByteArray :: "jsstring \<Rightarrow> u8 list js" where
  "toByteArray e =
     js_bind (getLens e) (\<lambda>(r, a).
       let (bs, f) = quads e 0 (if a > 0 then int r - 4 else int r)
       in Inr (bs @
            (if a = 2 then [byte (push_bit 2 (code_at e f) OR drop_bit 4 (code_at e (f + 1)))]
             else if a = 1 then
               (let t = push_bit 10 (code_at e f) OR push_bit 4 (code_at e (f + 1)) OR drop_bit 2 (code_at e (f + 2))
                in [byte (drop_bit 8 t), byte t])
             else [])))"

section \<open>Encoding\<close>

definition num_at :: "u8 list \<Rightarrow> nat \<Rightarrow> int" where
  "num_at e i = (if i < length e then uint (e ! i) else 0)"

text \<open>\<open>c\<close> (\<open>encodeChunk\<close>): three bytes at a time.\<close>

definition quad :: "u8 list \<Rightarrow> nat \<Rightarrow> jsstring" where
  "quad e u =
     (let i = (push_bit 16 (num_at e u) AND 16711680) + (push_bit 8 (num_at e (u + 1)) AND 65280) + (255 AND num_at e (u + 2))
      in [code_char (drop_bit 18 i AND 63), code_char (drop_bit 12 i AND 63), code_char (drop_bit 6 i AND 63), code_char (63 AND i)])"

function encodeChunk :: "u8 list \<Rightarrow> nat \<Rightarrow> nat \<Rightarrow> jsstring" where
  "encodeChunk e u n = (if u < n then quad e u @ encodeChunk e (u + 3) n else [])"
  by pat_completeness auto
termination by (relation "measure (\<lambda>(e, u, n). n - u)") auto

function chunks :: "u8 list \<Rightarrow> nat \<Rightarrow> nat \<Rightarrow> jsstring" where
  "chunks e a u =
     (if a < u then encodeChunk e a (if a + 16383 > u then u else a + 16383) @ chunks e (a + 16383) u else [])"
  by pat_completeness auto
termination by (relation "measure (\<lambda>(e, a, u). u - a)") auto

declare encodeChunk.simps [simp del] chunks.simps [simp del]

definition fromByteArray :: "u8 list \<Rightarrow> jsstring" where
  "fromByteArray e =
     (let n = length e; k = n mod 3
      in chunks e 0 (n - k) @
         (if k = 1 then
            (let t = num_at e (n - 1) in [code_char (drop_bit 2 t), code_char (push_bit 4 t AND 63), 61, 61])
          else if k = 2 then
            (let t = push_bit 8 (num_at e (n - 2)) + num_at e (n - 1)
             in [code_char (drop_bit 10 t), code_char (drop_bit 4 t AND 63), code_char (push_bit 2 t AND 63), 61])
          else []))"

section \<open>Base64 in buffers\<close>

text \<open>\<open>z\<close> (\<open>base64ToBytes\<close>): what is not in the alphabet is dropped, the padding included, and the string is padded again.\<close>

definition in_base64 :: "code_unit \<Rightarrow> bool" where
  "in_base64 c \<longleftrightarrow>
     (let n = uint c in n = 43 \<or> n = 47 \<or> (48 \<le> n \<and> n \<le> 57) \<or> (65 \<le> n \<and> n \<le> 90) \<or> (97 \<le> n \<and> n \<le> 122) \<or> n = 45 \<or> n = 95)"

definition trim :: "jsstring \<Rightarrow> jsstring" where
  "trim s = rev (dropWhile is_space (rev (dropWhile is_space s)))"

definition base64clean :: "jsstring \<Rightarrow> jsstring" where
  "base64clean e0 =
     (let e = filter in_base64 (trim e0)
      in if length e < 2 then [] else e @ replicate ((4 - length e mod 4) mod 4) 61)"

definition base64ToBytes :: "jsstring \<Rightarrow> u8 list js" where
  "base64ToBytes e = toByteArray (base64clean e)"

definition base64Write :: "buf \<Rightarrow> jsstring \<Rightarrow> int \<Rightarrow> int \<Rightarrow> (buf \<times> int) js" where
  "base64Write e t n r = js_bind (base64ToBytes t) (\<lambda>bs. Inr (blitBuffer bs e n r))"

definition base64Slice :: "buf \<Rightarrow> nat \<Rightarrow> nat \<Rightarrow> jsstring" where
  "base64Slice e t n = (if t = 0 \<and> n = length e then fromByteArray e else fromByteArray (drop t (take n e)))"

end
