(* ===== verification/Buf_Text_Props.thy ===== *)
theory Buf_Text_Props
  imports Buf_Text
begin

text \<open>
  Round trips of the encodings of \<open>Buffer\<close>, and what the encoder of UTF-8 does with strings that are not well
  formed.
\<close>

section \<open>Bitwise operators on small integers\<close>

lemma and_low: "63 AND n = n mod (64 :: int)" "n AND 63 = n mod (64 :: int)" "31 AND n = n mod (32 :: int)"
  "15 AND n = n mod (16 :: int)" "1023 AND n = n mod (1024 :: int)" "n AND 1023 = n mod (1024 :: int)" "255 AND n = n mod (256 :: int)"
  "127 AND n = n mod (128 :: int)"
  using take_bit_eq_mask [of 6 n] take_bit_eq_mask [of 5 n] take_bit_eq_mask [of 4 n] take_bit_eq_mask [of 10 n] take_bit_eq_mask [of 8 n]
    take_bit_eq_mask [of 7 n]
  by (simp_all add: take_bit_eq_mod mask_eq_exp_minus_1 and.commute)

lemma or_high: "0 \<le> a \<Longrightarrow> a < 2 ^ k \<Longrightarrow> push_bit k b OR a = 2 ^ k * b + (a :: int)"
proof -
  assume a: "0 \<le> a" "a < 2 ^ k"
  have "take_bit k a = a" using a by (simp add: take_bit_int_eq_self)
  then have "bit a i \<Longrightarrow> i < k" for i by (metis bit_take_bit_iff)
  then have "push_bit k b + a = push_bit k b OR a" by (intro disjunctive_add) (metis bit_push_bit_iff not_le)
  then show ?thesis by (simp add: push_bit_eq_mult mult.commute)
qed

lemma or_marks:
  "0 \<le> a \<Longrightarrow> a < 64 \<Longrightarrow> a OR 192 = 192 + (a :: int)" "0 \<le> a \<Longrightarrow> a < 32 \<Longrightarrow> a OR 224 = 224 + (a :: int)"
  "0 \<le> a \<Longrightarrow> a < 16 \<Longrightarrow> a OR 240 = 240 + (a :: int)" "0 \<le> a \<Longrightarrow> a < 128 \<Longrightarrow> a OR 128 = 128 + (a :: int)"
  "0 \<le> a \<Longrightarrow> a < 1024 \<Longrightarrow> a OR 55296 = 55296 + (a :: int)" "0 \<le> a \<Longrightarrow> a < 1024 \<Longrightarrow> 56320 OR a = 56320 + (a :: int)"
  using or_high [of a 6 3] or_high [of a 5 7] or_high [of a 4 15] or_high [of a 7 1] or_high [of a 10 54] or_high [of a 10 55]
  by (simp_all add: or.commute push_bit_eq_mult)

lemma or_parts:
  "0 \<le> a \<Longrightarrow> a < 64 \<Longrightarrow> push_bit 6 b OR a = 64 * b + (a :: int)"
  "0 \<le> a \<Longrightarrow> a < 1024 \<Longrightarrow> push_bit 10 b OR a = 1024 * b + (a :: int)"
  "0 \<le> a \<Longrightarrow> a < 4096 \<Longrightarrow> push_bit 12 b OR a = 4096 * b + (a :: int)"
  "0 \<le> a \<Longrightarrow> a < 262144 \<Longrightarrow> push_bit 18 b OR a = 262144 * b + (a :: int)"
  using or_high [of a 6 b] or_high [of a 10 b] or_high [of a 12 b] or_high [of a 18 b] by simp_all

lemma cont_iff: "0 \<le> a \<Longrightarrow> a < 64 \<Longrightarrow> cont (128 + a)"
proof -
  assume a: "0 \<le> a" "a < 64"
  have "push_bit k m AND x = push_bit k (m AND drop_bit k x)" for k and m x :: int
    by (rule bit_eqI) (auto simp: bit_simps)
  from this [of 6 3 "128 + a"] have "192 AND (128 + a) = push_bit 6 (3 AND drop_bit 6 (128 + a))" by (simp add: push_bit_eq_mult)
  moreover have "drop_bit 6 (128 + a) = 2" using a by (simp add: drop_bit_eq_div)
  ultimately show ?thesis by (simp add: cont_def)
qed

section \<open>UTF-8\<close>

lemma decode_pieces_eq: "decode_pieces e = from_char_codes e"
proof (induction e rule: decode_pieces.induct)
  case (1 e)
  have "from_char_codes e = from_char_codes (take 4096 e) @ from_char_codes (drop 4096 e)"
    unfolding from_char_codes_def map_append [symmetric] by simp
  then show ?case using 1 by (subst decode_pieces.simps) (auto simp: from_char_codes_def)
qed

lemma decodeCodePoints_eq: "decodeCodePoints e = from_char_codes e"
  by (simp add: decodeCodePoints_def decode_pieces_eq)

lemma div_digits: "4096 * (n div 4096) + (64 * (n div 64 mod 64) + n mod 64) = (n :: int)"
  "262144 * (n div 262144) + (4096 * (n div 4096 mod 64) + (64 * (n div 64 mod 64) + n mod 64)) = (n :: int)"
proof -
  have e: "4096 * q + (64 * b + c) = n" if "64 * p + c = n" "64 * q + b = p" for p q b c using that by simp
  have f: "262144 * w + (4096 * a + (64 * b + c)) = n" if "64 * p + c = n" "64 * q + b = p" "64 * w + a = q" for p q w a b c using that by simp
  have d: "n div 4096 = n div 64 div 64" "n div 262144 = n div 64 div 64 div 64" by (simp_all add: zdiv_zmult2_eq [symmetric])
  show "4096 * (n div 4096) + (64 * (n div 64 mod 64) + n mod 64) = n"
    unfolding d by (rule e) (rule mult_div_mod_eq)+
  show "262144 * (n div 262144) + (4096 * (n div 4096 mod 64) + (64 * (n div 64 mod 64) + n mod 64)) = n"
    unfolding d by (rule f) (rule mult_div_mod_eq)+
qed

lemma mod_mark: "0 \<le> a \<Longrightarrow> a < m \<Longrightarrow> (m * k + a) mod m = (a :: int)"
  by simp

lemma mod_marks:
  "0 \<le> a \<Longrightarrow> a < 32 \<Longrightarrow> (192 + a) mod 32 = (a :: int)" "0 \<le> a \<Longrightarrow> a < 16 \<Longrightarrow> (224 + a) mod 16 = (a :: int)"
  "0 \<le> a \<Longrightarrow> a < 16 \<Longrightarrow> (240 + a) mod 16 = (a :: int)" "0 \<le> a \<Longrightarrow> a < 64 \<Longrightarrow> (128 + a) mod 64 = (a :: int)"
  using mod_mark [of a 32 6] mod_mark [of a 16 14] mod_mark [of a 16 15] mod_mark [of a 64 2] by simp_all

lemma utf8_point_2:
  assumes "2 \<le> a" "a < 32" "0 \<le> b" "b < 64"
  shows "utf8_point ((192 + a) # (128 + b) # r) = Some (64 * a + b)"
  using assms by (simp add: utf8_point_def utf8_width_def Let_def cont_iff and_low mod_marks or_parts)

lemma utf8_point_3:
  assumes "0 \<le> a" "a < 16" "0 \<le> b" "b < 64" "0 \<le> c" "c < 64" "2047 < 4096 * a + (64 * b + c)"
    "4096 * a + (64 * b + c) < 55296 \<or> 57343 < 4096 * a + (64 * b + c)"
  shows "utf8_point ((224 + a) # (128 + b) # (128 + c) # r) = Some (4096 * a + (64 * b + c))"
  using assms by (simp add: utf8_point_def utf8_width_def Let_def cont_iff and_low mod_marks or_parts)

lemma utf8_point_4:
  assumes "0 \<le> a" "a < 16" "0 \<le> b" "b < 64" "0 \<le> c" "c < 64" "0 \<le> d" "d < 64"
    "65535 < 262144 * a + (4096 * b + (64 * c + d))" "262144 * a + (4096 * b + (64 * c + d)) < 1114112"
  shows "utf8_point ((240 + a) # (128 + b) # (128 + c) # (128 + d) # r) = Some (262144 * a + (4096 * b + (64 * c + d)))"
  using assms by (simp add: utf8_point_def utf8_width_def Let_def cont_iff and_low mod_marks or_parts)

lemma utf8_points_step:
  "utf8_point (x # xs) = Some c \<Longrightarrow> utf8_points (x # xs) = push_point c @ utf8_points (drop (utf8_width x) (x # xs))"
  by (subst utf8_points.simps) simp

lemma mod_64_small: "n mod 64 < (128 :: int)"
  using pos_mod_bound [of 64 n] by linarith

lemma enc_intro:
  assumes "utf8_bytes n = Some (map word_of_int xs)" "\<forall>x\<in>set xs. 0 \<le> x \<and> x < 256"
    "\<And>r. utf8_point (xs @ r) = Some n" "utf8_width (xs ! 0) = length xs" "xs \<noteq> []"
  shows "\<exists>bs. utf8_bytes n = Some bs \<and> bs \<noteq> [] \<and> utf8_width (uint (bs ! 0)) = length bs \<and> (\<forall>r. utf8_point (map uint bs @ r) = Some n)"
proof -
  have "map uint (map word_of_int xs :: u8 list) = xs" using assms(2) by (simp add: map_idI)
  moreover from this have "uint (map word_of_int xs ! 0 :: u8) = xs ! 0" using assms(5) by (metis length_greater_0_conv length_map nth_map)
  ultimately show ?thesis using assms by auto
qed

text \<open>Decoding the bytes of a code point gives it back.\<close>

lemma utf8_point_enc:
  assumes "0 \<le> n" "n < 1114112" "n < 55296 \<or> 57343 < n"
  shows "\<exists>bs. utf8_bytes n = Some bs \<and> bs \<noteq> [] \<and> utf8_width (uint (bs ! 0)) = length bs \<and> (\<forall>r. utf8_point (map uint bs @ r) = Some n)"
proof -
  have m: "\<And>x. 0 \<le> x mod (64 :: int)" "\<And>x. x mod 64 < (64 :: int)" by simp_all
  consider "n < 128" | "128 \<le> n" "n < 2048" | "2048 \<le> n" "n < 65536" | "65536 \<le> n" by linarith
  then show ?thesis
  proof cases
    case 1
    then have e: "utf8_bytes n = Some (map word_of_int [n])" by (simp add: utf8_bytes_def)
    then show ?thesis using assms 1 by (intro enc_intro [OF e]) (simp_all add: utf8_point_def utf8_width_def Let_def)
  next
    case 2
    let ?a = "n div 64" and ?b = "n mod 64"
    have d: "?a < 32" "2 \<le> ?a" using 2 by auto
    have e: "utf8_bytes n = Some (map word_of_int [192 + ?a, 128 + ?b])"
      using 2 d by (simp add: utf8_bytes_def and_low drop_bit_eq_div or_marks mod_64_small)
    have "utf8_point ([192 + ?a, 128 + ?b] @ r) = Some n" for r using utf8_point_2 [of ?a ?b r] d by simp
    then show ?thesis using d by (intro enc_intro [OF e]) (simp_all add: mod_64_small utf8_width_def)
  next
    case 3
    let ?a = "n div 4096" and ?b = "n div 64 mod 64" and ?c = "n mod 64"
    have d: "?a < 16" "0 \<le> ?a" using 3 by auto
    have n: "4096 * ?a + (64 * ?b + ?c) = n" by (rule div_digits)
    have e: "utf8_bytes n = Some (map word_of_int [224 + ?a, 128 + ?b, 128 + ?c])"
      using 3 by (simp add: utf8_bytes_def and_low drop_bit_eq_div or_marks mod_64_small d)
    have g: "2047 < n" using 3 by simp
    have "utf8_point ([224 + ?a, 128 + ?b, 128 + ?c] @ r) = Some n" for r
      using utf8_point_3 [of ?a ?b ?c r, OF d(2,1) m m, unfolded n, OF g assms(3)] by simp
    then show ?thesis using d by (intro enc_intro [OF e]) (simp_all add: mod_64_small utf8_width_def)
  next
    case 4
    let ?a = "n div 262144" and ?b = "n div 4096 mod 64" and ?c = "n div 64 mod 64" and ?d = "n mod 64"
    have d: "?a < 16" "0 \<le> ?a" using 4 assms by auto
    have n: "262144 * ?a + (4096 * ?b + (64 * ?c + ?d)) = n" by (rule div_digits)
    have e: "utf8_bytes n = Some (map word_of_int [240 + ?a, 128 + ?b, 128 + ?c, 128 + ?d])"
      using 4 assms(2) by (simp add: utf8_bytes_def and_low drop_bit_eq_div or_marks mod_64_small d)
    have g: "65535 < n" using 4 by simp
    have "utf8_point ([240 + ?a, 128 + ?b, 128 + ?c, 128 + ?d] @ r) = Some n" for r
      using utf8_point_4 [of ?a ?b ?c ?d r, OF d(2,1) m m m, unfolded n, OF g assms(2)] by simp
    then show ?thesis using d by (intro enc_intro [OF e]) (simp_all add: mod_64_small utf8_width_def)
  qed
qed

lemma utf8_points_enc:
  assumes "0 \<le> n" "n < 1114112" "n < 55296 \<or> 57343 < n"
  shows "\<exists>bs. utf8_bytes n = Some bs \<and> (\<forall>r. utf8_points (map uint bs @ r) = push_point n @ utf8_points r)"
proof -
  obtain bs where b: "utf8_bytes n = Some bs" "bs \<noteq> []" "utf8_width (uint (bs ! 0)) = length bs"
    "\<And>r. utf8_point (map uint bs @ r) = Some n"
    using utf8_point_enc [OF assms] by auto
  have "utf8_points (map uint bs @ r) = push_point n @ utf8_points r" for r
    using b(2-4) utf8_points_step [of "uint (bs ! 0)" "map uint (tl bs) @ r" n] by (cases bs) simp_all
  then show ?thesis using b(1) by auto
qed

text \<open>Strings in which every surrogate has its partner.\<close>

fun wf16 :: "jsstring \<Rightarrow> bool" where
  "wf16 [] = True"
| "wf16 (c # cs) =
     (let n = uint c
      in if n < 55296 \<or> 57343 < n then wf16 cs
         else if n > 56319 then False
         else (case cs of [] \<Rightarrow> False | d # ds \<Rightarrow> 56320 \<le> uint d \<and> uint d \<le> 57343 \<and> wf16 ds))"

lemma uint16: "0 \<le> uint (c :: code_unit)" "uint (c :: code_unit) < 65536"
  using uint_lt2p [of c] by simp_all

lemma push_pair:
  assumes "55296 \<le> d" "d \<le> 56319" "56320 \<le> n" "n \<le> 57343"
  shows "push_bit 10 (d - 55296) OR (n - 56320) = 1024 * (d - 55296) + (n - 56320)"
    "push_point (65536 + (1024 * (d - 55296) + (n - 56320))) = [d, n]"
proof -
  let ?x = "1024 * (d - 55296) + (n - 56320)"
  show "push_bit 10 (d - 55296) OR (n - 56320) = ?x" using assms by (intro or_parts) auto
  have "(1024 * a + b) div 1024 = a \<and> (1024 * a + b) mod 1024 = b" if "0 \<le> b" "b < 1024" for a b :: int using that by simp
  from this [of "n - 56320" "d - 55296"] have m: "?x div 1024 = d - 55296" "?x mod 1024 = n - 56320" using assms by auto
  define x where "x = ?x"
  have "0 \<le> x" "drop_bit 10 x AND 1023 OR 55296 = d" "56320 OR (1023 AND x) = n"
    using assms m unfolding drop_bit_eq_div and_low x_def [symmetric] by (simp_all add: or_marks)
  then show "push_point (65536 + ?x) = [d, n]" unfolding x_def [symmetric] by (simp add: push_point_def Let_def)
qed

lemma utf8_loop_wf:
  "wf16 s \<Longrightarrow> \<exists>bs. (\<forall>i. utf8_loop s None None i = Inr (i @ bs)) \<and> utf8_points (map uint bs) = map uint s"
proof (induction s rule: wf16.induct)
  case 1
  show ?case by (simp add: utf8_points.simps)
next
  case (2 c cs)
  show ?case
  proof (cases "uint c < 55296 \<or> 57343 < uint c")
    case True
    then obtain bs where bs: "\<And>i. utf8_loop cs None None i = Inr (i @ bs)" "utf8_points (map uint bs) = map uint cs"
      using 2 by (auto simp: Let_def)
    obtain e where e: "utf8_bytes (uint c) = Some e" "\<And>r. utf8_points (map uint e @ r) = push_point (uint c) @ utf8_points r"
      using utf8_points_enc [of "uint c"] True uint16 [of c] by auto
    have "utf8_loop (c # cs) None None i = Inr (i @ e @ bs)" for i
      using True e(1) bs(1) by (auto simp: Let_def less_units_def units_ok_def)
    moreover have "push_point (uint c) = [uint c]" using uint16 [of c] by (simp add: push_point_def)
    then have "utf8_points (map uint (e @ bs)) = map uint (c # cs)" using e(2) [of "map uint bs"] bs(2) by simp
    ultimately show ?thesis by blast
  next
    case False
    with 2 obtain d ds where cs: "cs = d # ds" and s: "55296 \<le> uint c" "uint c \<le> 56319" "56320 \<le> uint d" "uint d \<le> 57343" "wf16 ds"
      by (auto simp: Let_def split: list.splits if_splits)
    have "\<exists>bs. (\<forall>i. utf8_loop ds None None i = Inr (i @ bs)) \<and> utf8_points (map uint bs) = map uint ds"
      using 2(2) False s cs by (simp add: Let_def)
    then obtain bs where bs: "\<And>i. utf8_loop ds None None i = Inr (i @ bs)" "utf8_points (map uint bs) = map uint ds" by blast
    note p = push_pair [OF s(1-4)]
    let ?n = "65536 + (1024 * (uint c - 55296) + (uint d - 56320))"
    obtain e where e: "utf8_bytes ?n = Some e" "\<And>r. utf8_points (map uint e @ r) = push_point ?n @ utf8_points r"
      using utf8_points_enc [of ?n] s by auto
    have "utf8_loop (c # cs) None None i = Inr (i @ e @ bs)" for i
      using s e(1) bs(1) by (simp add: cs Let_def less_units_def units_ok_def p(1))
    moreover have "utf8_points (map uint (e @ bs)) = map uint (c # cs)" using e(2) [of "map uint bs"] bs(2) p(2) cs by simp
    ultimately show ?thesis by blast
  qed
qed

lemma utf8_bytes_total: "n < 1114112 \<Longrightarrow> \<exists>bs. utf8_bytes n = Some bs"
  by (simp add: utf8_bytes_def)

text \<open>The encoder never throws, and keeps to its limit.\<close>

definition within :: "u8 list \<Rightarrow> int option \<Rightarrow> u8 list \<Rightarrow> bool" where
  "within i t bs \<longleftrightarrow> (case t of None \<Rightarrow> True | Some x \<Rightarrow> int (length bs) \<le> int (length i) + max 0 x)"

lemma within_step:
  "within (push_fffd (less_units t 3) i) (less_units t 3) r \<Longrightarrow> within i t r"
  "units_ok (less_units t (int (length bs))) \<Longrightarrow> within (i @ bs) (less_units t (int (length bs))) r \<Longrightarrow> within i t r"
  "within i t i"
  by (cases t; auto simp: within_def less_units_def push_fffd_def units_ok_def split: if_splits)+

lemma utf8_loop_total:
  "(case lead of None \<Rightarrow> True | Some d \<Rightarrow> 55296 \<le> d \<and> d \<le> 56319) \<Longrightarrow>
   \<exists>bs. utf8_loop s t lead i = Inr bs \<and> within i t bs"
proof (induction s arbitrary: t lead i)
  case Nil
  show ?case by (simp add: within_step)
next
  case (Cons c cs)
  let ?t = "less_units t 3" and ?n = "uint c"
  have emit: "\<exists>r. (case utf8_bytes n of None \<Rightarrow> Inl (OtherError ''Invalid code point'')
      | Some bs \<Rightarrow> (let t1 = less_units u (int (length bs)) in if units_ok t1 then utf8_loop cs t1 None (j @ bs) else Inr j)) = Inr r \<and> within j u r"
    if small: "n < 1114112" for n u j
  proof -
    obtain bs where bs: "utf8_bytes n = Some bs" using utf8_bytes_total [OF small] by blast
    obtain r where r: "utf8_loop cs (less_units u (int (length bs))) None (j @ bs) = Inr r" "within (j @ bs) (less_units u (int (length bs))) r"
      using Cons.IH [of None] by auto
    show ?thesis using bs r within_step(2) [OF _ r(2)] within_step(3) [of j u] by (simp add: Let_def)
  qed
  have fffd: "\<exists>r. utf8_loop cs ?t lead' (push_fffd ?t i) = Inr r \<and> within i t r"
    if "case lead' of None \<Rightarrow> True | Some d \<Rightarrow> 55296 \<le> d \<and> d \<le> 56319" for lead'
    using Cons.IH [OF that] within_step(1) by blast
  consider (bmp) "\<not> (?n > 55295 \<and> ?n < 57344)" "lead = None" | (bmp_lead) d where "\<not> (?n > 55295 \<and> ?n < 57344)" "lead = Some d"
    | (low) "?n > 56319" "?n < 57344" "lead = None" | (high) "?n > 55295" "?n \<le> 56319" "lead = None"
    | (high2) d where "?n > 55295" "?n \<le> 56319" "lead = Some d" | (pair) d where "?n > 56319" "?n < 57344" "lead = Some d"
    by (cases lead) (use not_le in blast)+
  then show ?case
  proof cases
    case bmp
    then show ?thesis using emit [of ?n t i] uint16 [of c]
      by (simp only: utf8_loop.simps Let_def if_not_P [OF bmp(1)] option.case) simp
  next
    case bmp_lead
    obtain r where "(case utf8_bytes ?n of None \<Rightarrow> Inl (OtherError ''Invalid code point'')
        | Some bs \<Rightarrow> (let t1 = less_units ?t (int (length bs)) in if units_ok t1 then utf8_loop cs t1 None (push_fffd ?t i @ bs) else Inr (push_fffd ?t i))) = Inr r"
      "within (push_fffd ?t i) ?t r"
      using emit [of ?n ?t "push_fffd ?t i"] uint16 [of c] by auto
    then show ?thesis using within_step(1) [of t i r] bmp_lead(2)
      by (simp only: utf8_loop.simps Let_def if_not_P [OF bmp_lead(1)] option.case) simp
  next
    case low
    then show ?thesis using fffd [of None] by (simp add: Let_def)
  next
    case high
    then show ?thesis using fffd [of None] Cons.IH [of "Some ?n" t i] by (cases "cs = []") (simp_all add: Let_def)
  next
    case high2
    then show ?thesis using fffd [of "Some ?n"] by (simp add: Let_def)
  next
    case pair
    then have d: "55296 \<le> d" "d \<le> 56319" using Cons.prems by auto
    then have "65536 + (push_bit 10 (d - 55296) OR (?n - 56320)) < 1114112" using pair push_pair(1) [of d ?n] by simp
    then show ?thesis using emit [of "65536 + (push_bit 10 (d - 55296) OR (?n - 56320))" t i] pair by (simp add: Let_def)
  qed
qed

section \<open>Copying\<close>

lemma u8_mod: "uint (x :: u8) mod 256 = uint x"
  using uint_lt2p [of x] by simp

lemma overwrite_take_Suc:
  assumes "0 \<le> n" "k < length e" "n + int k < blen t"
  shows "store (overwrite t n (take k e)) (int k + n) (uint (e ! k)) = overwrite t n (take (Suc k) e)"
proof (rule buf_eqI)
  have l: "length (overwrite t n (take k e)) = length t" "length (overwrite t n (take (Suc k) e)) = length t"
    using assms by (simp_all add: blen_def)
  then show "length (store (overwrite t n (take k e)) (int k + n) (uint (e ! k))) = length (overwrite t n (take (Suc k) e))" by simp
  fix i assume "0 \<le> i" "i < blen (overwrite t n (take (Suc k) e))"
  moreover have "nat (i - n) < Suc k \<Longrightarrow> i \<noteq> int k + n \<Longrightarrow> n \<le> i \<Longrightarrow> nat (i - n) < k" by linarith
  ultimately show "byte_at (store (overwrite t n (take k e)) (int k + n) (uint (e ! k))) i = byte_at (overwrite t n (take (Suc k) e)) i"
    using assms l u8_mod [of "e ! k"] by (auto simp: byte_at_store byte_at_overwrite blen_def nth_append)
qed

lemma blit_correct:
  assumes "0 \<le> n" "k \<le> m" "int m = max 0 (min r (min (blen t - n) (blen e)))"
  shows "blit e (overwrite t n (take k e)) n r (int k) = (overwrite t n (take m e), int m)"
  using assms(2)
proof (induction "m - k" arbitrary: k)
  case 0
  then have "k = m" by simp
  moreover have "blen (overwrite t n (take m e)) = blen t"
    using assms by (cases "m = 0") (auto simp: blen_def overwrite_def)
  moreover have "\<not> (int m < r \<and> \<not> (int m + n \<ge> blen t \<or> int m \<ge> blen e))" using assms(3) by linarith
  ultimately show ?case by (subst blit.simps) auto
next
  case (Suc d)
  then have k: "k < m" by simp
  then have b: "int k < r" "int k + n < blen t" "k < length e" using assms by (auto simp: blen_def)
  have "blen (overwrite t n (take k e)) = blen t" using b assms(1) by (simp add: blen_def)
  then have "blit e (overwrite t n (take k e)) n r (int k) = blit e (overwrite t n (take (Suc k) e)) n r (int (Suc k))"
    using b assms(1) overwrite_take_Suc [of n k e t] by (subst blit.simps) (simp add: blen_def add.commute)
  also have "\<dots> = (overwrite t n (take m e), int m)" using Suc.hyps(2) k by (intro Suc.hyps(1)) auto
  finally show ?case .
qed

lemma blitBuffer_correct:
  assumes "0 \<le> n" "int m = max 0 (min r (min (blen t - n) (blen e)))"
  shows "blitBuffer e t n r = (overwrite t n (take m e), int m)"
proof -
  have "overwrite t n (take 0 e) = t" by (simp add: overwrite_def)
  then show ?thesis using blit_correct [OF assms(1) _ assms(2), of 0] by (simp add: blitBuffer_def)
qed

lemma blit_whole: "blitBuffer e (replicate (length e) 0) 0 (int (length e)) = (e, int (length e))"
  using blitBuffer_correct [of 0 "length e" "int (length e)" "replicate (length e) 0" e] by (simp add: blen_def overwrite_def)

section \<open>Hexadecimal\<close>

lemma range_bytes_all: "range_bytes b 0 (length b) = map uint b"
  by (simp add: range_bytes_def)

lemma uint_hex_digit: "0 \<le> d \<Longrightarrow> d < 16 \<Longrightarrow> uint (hex_digit d) = (if d < 10 then 48 + d else 87 + d)"
  unfolding hex_digit_def uint_word_of_int by simp

lemma hex_value_digit: "0 \<le> d \<Longrightarrow> d < 16 \<Longrightarrow> hex_value (hex_digit d) = Some d"
  by (simp add: hex_value_def uint_hex_digit Let_def)

lemma hex_digit_plain:
  assumes "0 \<le> d" "d < 16"
  shows "\<not> is_space (hex_digit d)" "hex_digit d \<noteq> 45" "hex_digit d \<noteq> 43" "hex_digit d \<noteq> 120" "hex_digit d \<noteq> 88"
  using assms uint_hex_digit [OF assms] by (auto simp: is_space_def Let_def word_uint_eq_iff split: if_splits)

lemma toHex_digits: "0 \<le> x \<Longrightarrow> toHex x = [hex_digit (x div 16), hex_digit (x mod 16)]"
  by (auto simp: toHex_def hex_digit_def)

lemma parse_toHex:
  assumes "0 \<le> x" "x < 256"
  shows "parseInt16 (toHex x) = Some x"
proof -
  have a: "0 \<le> x div 16" "x div 16 < 16" "0 \<le> x mod 16" "x mod 16 < 16" using assms by auto
  note p = hex_digit_plain [OF a(1,2)] hex_digit_plain [OF a(3,4)] hex_value_digit [OF a(1,2)] hex_value_digit [OF a(3,4)]
  show ?thesis unfolding toHex_digits [OF assms(1)]
    by (simp add: parseInt16_def strip_0x_def p)
qed

lemma hex_chunk:
  assumes "k < length b"
  shows "take 2 (drop (2 * k) (concat (map toHex (map uint b)))) = toHex (uint (b ! k))"
  using assms
proof (induction b arbitrary: k)
  case (Cons x b)
  have "length (toHex (uint x)) = 2" by (simp add: toHex_def)
  then show ?case using Cons by (cases k) simp_all
qed simp

lemma length_hex: "length (concat (map toHex xs)) = 2 * length xs"
  by (induction xs) (simp_all add: toHex_def)

lemma hex_loop_correct:
  assumes "k \<le> length b"
  shows "hex_loop (concat (map toHex (map uint b))) 0 (blen b) (int k) (overwrite (replicate (length b) 0) 0 (take k b)) = (b, blen b)"
  using assms
proof (induction "length b - k" arbitrary: k)
  case 0
  then show ?case by (subst hex_loop.simps) (simp add: blen_def overwrite_def)
next
  case (Suc d)
  then have k: "k < length b" by simp
  have n: "nat (2 * int k) = 2 * k" by simp
  have "hex_loop (concat (map toHex (map uint b))) 0 (blen b) (int k) (overwrite (replicate (length b) 0) 0 (take k b)) =
      hex_loop (concat (map toHex (map uint b))) 0 (blen b) (int k + 1) (store (overwrite (replicate (length b) 0) 0 (take k b)) (0 + int k) (uint (b ! k)))"
    using k parse_toHex [of "uint (b ! k)"] u8_range [of "b ! k"] unfolding hex_loop.simps [of _ _ _ "int k"] n hex_chunk [OF k] by (simp add: blen_def)
  also have "\<dots> = hex_loop (concat (map toHex (map uint b))) 0 (blen b) (int (Suc k)) (overwrite (replicate (length b) 0) 0 (take (Suc k) b))"
    using overwrite_take_Suc [of 0 k b "replicate (length b) 0"] k by (simp add: blen_def add.commute)
  also have "\<dots> = (b, blen b)" using Suc.hyps(2) k by (intro Suc.hyps(1)) auto
  finally show ?case .
qed

section \<open>Properties\<close>

lemma utf16_roundtrip: "utf16_units (map uint (utf16leToBytes s (2 * int (length s)))) = s \<and> length (utf16leToBytes s (2 * int (length s))) = 2 * length s"
proof (induction s)
  case (Cons c s)
  have "uint c div 256 < 256" using uint16 [of c] by auto
  then have "drop_bit 8 (uint c) mod 256 = uint c div 256"
    using mod_pos_pos_trivial [of "uint c div 256" 256] by (simp add: drop_bit_eq_div pos_imp_zdiv_nonneg_iff)
  then have "uint c mod 256 + 256 * (drop_bit 8 (uint c) mod 256) = uint c" by (simp only: mod_mult_div_eq)
  then show ?case using Cons by (simp add: Let_def)
qed simp

text \<open>
  C9: encoding a well-formed string as UTF-8 and decoding the bytes gives the string back, whatever planes its
  characters are in.
\<close>

theorem utf8_roundtrip:
  assumes "wf16 s"
  shows "\<exists>bs. utf8ToBytes s None = Inr bs \<and> utf8Slice bs 0 (length bs) = s"
proof -
  obtain bs where bs: "utf8_loop s None None [] = Inr bs" "utf8_points (map uint bs) = map uint s"
    using utf8_loop_wf [OF assms] by auto
  then have "utf8Slice bs 0 (length bs) = s"
    by (simp add: utf8Slice_def range_bytes_all decodeCodePoints_eq from_char_codes_def map_idI)
  then show ?thesis using bs(1) by (auto simp: utf8ToBytes_def)
qed

theorem utf8_roundtrip_witness:
  "\<exists>bs. utf8ToBytes [65, 233, 0x20AC, 0xD83D, 0xDE00] None = Inr bs \<and> utf8Slice bs 0 (length bs) = [65, 233, 0x20AC, 0xD83D, 0xDE00]"
  by (rule utf8_roundtrip) (simp add: Let_def)


text \<open>
  C40: the hexadecimal, UTF-16 and Latin-1 encodings are faithful: a buffer written from the hexadecimal digits of
  another is that buffer, and a string (for Latin-1, of characters below 256) written into a buffer of its size reads back.
\<close>

theorem text_roundtrips:
  "hexWrite (replicate (length b) 0) (hexSlice b 0 (length b)) 0 (blen b) = Inr (b, blen b) \<and>
   (let (w, k) = ucs2Write (replicate (2 * length s) 0) s 0 (2 * int (length s)) in utf16leSlice w 0 (nat k) = s) \<and>
   ((\<forall>c\<in>set s. uint c < 256) \<longrightarrow>
     (let (w, k) = latin1Write (replicate (length s) 0) s 0 (int (length s)) in latin1Slice w 0 (nat k) = s))"
proof (intro conjI impI)
  have h: "hexSlice b 0 (length b) = concat (map toHex (map uint b))" by (simp add: hexSlice_def range_bytes_all)
  have "overwrite (replicate (length b) 0) 0 (take 0 b) = replicate (length b) 0" by (simp add: overwrite_def)
  then have "hex_loop (concat (map toHex (map uint b))) 0 (blen b) 0 (replicate (length b) 0) = (b, blen b)"
    using hex_loop_correct [of 0 b] by simp
  then show "hexWrite (replicate (length b) 0) (hexSlice b 0 (length b)) 0 (blen b) = Inr (b, blen b)"
    unfolding hexWrite_def h by (cases "b = []") (simp_all add: Let_def blen_def length_hex del: map_map)
next
  let ?b = "utf16leToBytes s (2 * int (length s))"
  have "blitBuffer ?b (replicate (2 * length s) 0) 0 (2 * int (length s)) = (?b, 2 * int (length s))"
    using blit_whole [of ?b] utf16_roundtrip [of s] by simp
  then show "let (w, k) = ucs2Write (replicate (2 * length s) 0) s 0 (2 * int (length s)) in utf16leSlice w 0 (nat k) = s"
    using utf16_roundtrip [of s] by (simp add: ucs2Write_def blen_def utf16leSlice_def range_bytes_def)
next
  assume c: "\<forall>c\<in>set s. uint c < 256"
  have "blitBuffer (asciiToBytes s) (replicate (length s) 0) 0 (int (length s)) = (asciiToBytes s, int (length s))"
    using blit_whole [of "asciiToBytes s"] by (simp add: asciiToBytes_def)
  moreover have "map (word_of_int \<circ> uint) (asciiToBytes s) = s"
  proof -
    have "(word_of_int (uint (word_of_int (255 AND uint x) :: u8)) :: code_unit) = x" if "x \<in> set s" for x
    proof -
      have "uint (word_of_int (255 AND uint x) :: u8) = uint x" using c that uint16 [of x] unfolding uint_u8 and_low by simp
      then show ?thesis by (simp only:) simp
    qed
    then show ?thesis unfolding asciiToBytes_def map_map comp_def by (rule map_idI)
  qed
  ultimately show "let (w, k) = latin1Write (replicate (length s) 0) s 0 (int (length s)) in latin1Slice w 0 (nat k) = s"
    by (simp add: latin1Write_def asciiWrite_def latin1Slice_def range_bytes_def asciiToBytes_def)
qed

theorem text_roundtrips_witness:
  "let (w, k) = latin1Write [0, 0] [228, 98] 0 2 in latin1Slice w 0 (nat k) = [228, 98]"
  using text_roundtrips [of "[]" "[228, 98]"] by simp

text \<open>
  A string that ends in two high surrogates loses the last one: only the first is replaced by U+FFFD, because the
  test for the end of the string is made only when no surrogate is waiting.
\<close>

lemma utf8_drops_last_lead: "utf8ToBytes [0xD800, 0xD800] None = Inr [239, 191, 189]"
  by (simp add: utf8ToBytes_def Let_def less_units_def push_fffd_def units_ok_def)

end
