(* ===== verification/Base64_Props.thy ===== *)
theory Base64_Props
  imports Base64 Buf_Text_Props
begin

text \<open>Base64 is faithful: decoding what was encoded gives the bytes back, directly and through a buffer.\<close>

section \<open>The alphabet\<close>

definition char_run :: "int \<Rightarrow> nat \<Rightarrow> jsstring" where
  "char_run b n = map (\<lambda>i. word_of_int (b + int i)) [0..<n]"

lemma alphabet_runs: "alphabet = char_run 65 26 @ char_run 97 26 @ char_run 48 10 @ [43, 47]"
  by (simp add: alphabet_def str_def char_run_def upt_rec)

lemma length_char_run [simp]: "length (char_run b n) = n"
  by (simp add: char_run_def)

lemma uint_unit: "0 \<le> v \<Longrightarrow> v < 65536 \<Longrightarrow> uint (word_of_int v :: code_unit) = v"
  unfolding uint_word_of_int by simp

lemma index_from_run:
  assumes "0 \<le> b" "b + int n \<le> 65536"
  shows "index_from c (char_run b n @ xs) k =
    (if b \<le> uint c \<and> uint c < b + int n then Some (k + (uint c - b)) else index_from c xs (k + int n))"
  using assms
proof (induction n arbitrary: b k)
  case (Suc n)
  have r: "char_run b (Suc n) = word_of_int b # char_run (b + 1) n"
    unfolding char_run_def map_upt_Suc by (simp add: algebra_simps)
  have e: "word_of_int b = c \<longleftrightarrow> uint c = b" using uint_unit [of b] Suc.prems by auto
  show ?case using Suc.IH [of "b + 1" "k + 1"] Suc.prems unfolding r by (auto simp: e add.assoc)
qed (auto simp: char_run_def)

definition code_number :: "int \<Rightarrow> int" where
  "code_number i = (if i < 26 then 65 + i else if i < 52 then 71 + i else if i < 62 then i - 4 else if i = 62 then 43 else 47)"

lemma code_char_number:
  assumes "0 \<le> i" "i < 64"
  shows "uint (code_char i) = code_number i"
proof -
  have "(char_run b n @ xs) ! j = (if j < n then word_of_int (b + int j) else xs ! (j - n))" for b n xs j
    by (simp add: char_run_def nth_append)
  then have "code_char i = word_of_int (code_number i)"
    using assms unfolding code_char_def alphabet_runs code_number_def by (auto simp: nth_Cons' nat_less_iff)
  moreover have "0 \<le> code_number i" "code_number i < 65536" using assms by (auto simp: code_number_def)
  ultimately show ?thesis by (simp only: uint_unit)
qed

lemma code_char_ok:
  assumes "0 \<le> i" "i < 64"
  shows "char_code (code_char i) = i" "code_char i \<noteq> 61" "in_base64 (code_char i)" "\<not> is_space (code_char i)"
proof -
  note u = code_char_number [OF assms]
  show "code_char i \<noteq> 61" "in_base64 (code_char i)" "\<not> is_space (code_char i)"
    using u assms by (auto simp: code_number_def word_uint_eq_iff in_base64_def is_space_def Let_def split: if_splits)
  have "index_from c alphabet 0 = Some i" if "uint c = code_number i" for c
    using assms that unfolding alphabet_runs by (auto simp: index_from_run code_number_def word_uint_eq_iff split: if_splits)
  from this [OF u] have "index_from (code_char i) alphabet 0 = Some i" .
  moreover have "code_char i \<noteq> 45" "code_char i \<noteq> 95"
    using u assms by (auto simp: code_number_def word_uint_eq_iff split: if_splits)
  ultimately show "char_code (code_char i) = i" by (simp add: char_code_def)
qed

section \<open>Three bytes and four characters\<close>

lemma mod_div_64: "0 \<le> x \<Longrightarrow> x < 64 * 64 \<Longrightarrow> x div 64 mod 64 = (x div 64 :: int)"
  by (intro mod_pos_pos_trivial) auto

lemma and_high: "push_bit k m AND x = push_bit k (m AND drop_bit k (x :: int))"
  by (rule bit_eqI) (auto simp: bit_simps)

definition triple :: "u8 list \<Rightarrow> nat \<Rightarrow> int" where
  "triple e u = 65536 * num_at e u + (256 * num_at e (u + 1) + num_at e (u + 2))"

lemma num_at_range: "0 \<le> num_at e i" "num_at e i < 256"
  using u8_range [of "e ! i"] by (simp_all add: num_at_def)

lemma quad_value:
  "(push_bit 16 (num_at e u) AND 16711680) + (push_bit 8 (num_at e (u + 1)) AND 65280) + (255 AND num_at e (u + 2)) = triple e u"
proof -
  have "push_bit 16 a AND 16711680 = 65536 * a" "push_bit 8 a AND 65280 = 256 * a" "255 AND a = a" if "0 \<le> a" "a < 256" for a :: int
    using that and_high [of 16 255 "push_bit 16 a"] and_high [of 8 255 "push_bit 8 a"] and_low(7) [of a]
    by (simp_all add: and.commute push_bit_eq_mult drop_bit_eq_div)
  then show ?thesis using num_at_range by (simp add: triple_def)
qed

lemma triple_range: "0 \<le> triple e u" "triple e u < 16777216"
  using num_at_range [of e u] num_at_range [of e "u + 1"] num_at_range [of e "u + 2"] by (simp_all add: triple_def)

lemma quad_chars:
  "quad e u = (let i = triple e u in [code_char (i div 262144), code_char (i div 4096 mod 64), code_char (i div 64 mod 64), code_char (i mod 64)])"
proof -
  have "triple e u div 262144 mod 64 = triple e u div 262144"
    using triple_range [of e u] by (intro mod_pos_pos_trivial) auto
  then show ?thesis unfolding quad_def quad_value by (simp add: Let_def drop_bit_eq_div and_low)
qed

lemma join_4:
  "0 \<le> b \<Longrightarrow> b < 64 \<Longrightarrow> 0 \<le> c \<Longrightarrow> c < 64 \<Longrightarrow> 0 \<le> d \<Longrightarrow> d < 64 \<Longrightarrow>
   push_bit 18 a OR push_bit 12 b OR push_bit 6 c OR d = 262144 * a + (4096 * b + (64 * c + (d :: int)))"
  by (simp add: or_parts)

lemma bytes_of_triple:
  assumes "0 \<le> a" "a < 256" "0 \<le> b" "b < 256" "0 \<le> c" "c < 256"
  defines "t \<equiv> 65536 * a + (256 * b + c)"
  shows "byte (drop_bit 16 t) = word_of_int a" "byte (drop_bit 8 t) = word_of_int b" "byte t = word_of_int c"
proof -
  have "(65536 * a + r) div 65536 = a" if "0 \<le> r" "r < 65536" for r :: int using that by simp
  from this [of "256 * b + c"] have 1: "t div 65536 = a" using assms by simp
  have "(256 * x + c) div 256 = x \<and> (256 * x + c) mod 256 = c" for x using assms(5,6) by simp
  moreover have "t = 256 * (256 * a + b) + c" by (simp add: t_def)
  ultimately have "t div 256 = 256 * a + b" "t mod 256 = c" by metis+
  then show "byte (drop_bit 16 t) = word_of_int a" "byte (drop_bit 8 t) = word_of_int b" "byte t = word_of_int c"
    using 1 assms(1-6) by (simp_all add: byte_def drop_bit_eq_div and_low)
qed

lemma word_num_at: "i < length e \<Longrightarrow> word_of_int (num_at e i) = e ! i"
  by (simp add: num_at_def)

section \<open>The whole string\<close>

lemma encodeChunk_concat: "encodeChunk e (3 * a) (3 * b) = concat (map (\<lambda>i. quad e (3 * i)) [a..<b])"
proof (induction "b - a" arbitrary: a)
  case 0
  then show ?case by (subst encodeChunk.simps) simp
next
  case (Suc d)
  then have "a < b" by simp
  moreover have "3 * a + 3 = 3 * Suc a" by simp
  ultimately show ?case using Suc(1) [of "Suc a"] Suc(2)
    by (subst encodeChunk.simps) (simp add: upt_conv_Cons del: mult_Suc_right)
qed

lemma chunks_concat: "chunks e (3 * a) (3 * m) = concat (map (\<lambda>i. quad e (3 * i)) [a..<m])"
proof (induction "m - a" arbitrary: a rule: less_induct)
  case less
  show ?case
  proof (cases "a < m")
    case True
    have n: "3 * a + 16383 = 3 * (a + 5461)" by simp
    show ?thesis
    proof (cases "a + 5461 > m")
      case True
      have "chunks e (3 * (a + 5461)) (3 * m) = []" using True by (subst chunks.simps) simp
      then show ?thesis using True \<open>a < m\<close> unfolding chunks.simps [of e "3 * a"] n
        by (simp add: encodeChunk_concat del: distrib_left_numeral)
    next
      case False
      then have "[a..<m] = [a..<a + 5461] @ [a + 5461..<m]" by (metis le_add1 not_less upt_add_eq_append le_add_diff_inverse)
      then show ?thesis using less [of "a + 5461"] False True unfolding chunks.simps [of e "3 * a"] n
        by (simp add: encodeChunk_concat del: distrib_left_numeral)
    qed
  next
    case False
    then show ?thesis by (subst chunks.simps) simp
  qed
qed

lemma length_quads: "length (concat (map (\<lambda>i. quad e (3 * i)) [0..<m])) = 4 * m"
  by (induction m) (simp_all add: quad_chars Let_def)

lemma nth_quads:
  "i < m \<Longrightarrow> r < 4 \<Longrightarrow> concat (map (\<lambda>i. quad e (3 * i)) [0..<m]) ! (4 * i + r) = quad e (3 * i) ! r"
proof (induction m)
  case (Suc m)
  show ?case
  proof (cases "i = m")
    case True
    then show ?thesis using length_quads [of e m] by (simp add: nth_append)
  next
    case False
    then have "4 * i + r < 4 * m" using Suc.prems by simp
    then show ?thesis using Suc False length_quads [of e m] by (simp add: nth_append)
  qed
qed simp

definition chunk_body :: "u8 list \<Rightarrow> nat \<Rightarrow> jsstring" where
  "chunk_body e m = concat (map (\<lambda>i. quad e (3 * i)) [0..<m])"

lemma body_code:
  assumes "i < m"
  shows "code_at (chunk_body e m @ x) (4 * i) = triple e (3 * i) div 262144"
    "code_at (chunk_body e m @ x) (4 * i + 1) = triple e (3 * i) div 4096 mod 64"
    "code_at (chunk_body e m @ x) (4 * i + 2) = triple e (3 * i) div 64 mod 64"
    "code_at (chunk_body e m @ x) (4 * i + 3) = triple e (3 * i) mod 64"
proof -
  have l: "length (chunk_body e m) = 4 * m" by (simp add: chunk_body_def length_quads)
  have n: "code_at (chunk_body e m @ x) (4 * i + r) = char_code (quad e (3 * i) ! r)" if "r < 4" for r
    using nth_quads [OF assms that, of e] that assms l by (simp add: code_at_def nth_append chunk_body_def [symmetric])
  have d: "0 \<le> triple e (3 * i) div 262144" "triple e (3 * i) div 262144 < 64"
    using triple_range [of e "3 * i"] by auto
  show "code_at (chunk_body e m @ x) (4 * i) = triple e (3 * i) div 262144"
    using n [of 0] code_char_ok(1) [OF d] by (simp add: quad_chars Let_def)
  show "code_at (chunk_body e m @ x) (4 * i + 1) = triple e (3 * i) div 4096 mod 64"
    "code_at (chunk_body e m @ x) (4 * i + 2) = triple e (3 * i) div 64 mod 64"
    "code_at (chunk_body e m @ x) (4 * i + 3) = triple e (3 * i) mod 64"
    using n [of 1] n [of 2] n [of 3] by (simp_all add: quad_chars Let_def code_char_ok(1))
qed

lemma quads_body:
  assumes "3 * m \<le> length e" "j \<le> m" "4 * int m - 4 < c" "c \<le> 4 * int m"
  shows "quads (chunk_body e m @ x) (4 * j) c = (drop (3 * j) (take (3 * m) e), 4 * m)"
  using assms(2)
proof (induction "m - j" arbitrary: j)
  case 0
  then show ?case using assms(3,4) by (subst quads.simps) simp
next
  case (Suc d)
  then have j: "j < m" by simp
  let ?t = "triple e (3 * j)"
  have t: "push_bit 18 (?t div 262144) OR push_bit 12 (?t div 4096 mod 64) OR push_bit 6 (?t div 64 mod 64) OR ?t mod 64 = ?t"
    using div_digits(2) [of ?t] by (simp only: join_4 pos_mod_sign pos_mod_bound zero_less_numeral)
  have b: "byte (drop_bit 16 ?t) = e ! (3 * j)" "byte (drop_bit 8 ?t) = e ! (3 * j + 1)" "byte ?t = e ! (3 * j + 2)"
    using bytes_of_triple [OF num_at_range num_at_range num_at_range, of e "3 * j" e "3 * j + 1" e "3 * j + 2"] j assms(1)
    by (simp_all add: triple_def word_num_at)
  have q: "quads (chunk_body e m @ x) (4 * Suc j) c = (drop (3 * Suc j) (take (3 * m) e), 4 * m)"
    using Suc.hyps(2) j by (intro Suc.hyps(1)) auto
  have "drop (3 * j) (take (3 * m) e) = e ! (3 * j) # e ! (3 * j + 1) # e ! (3 * j + 2) # drop (3 * Suc j) (take (3 * m) e)"
    using j assms(1) by (simp add: Cons_nth_drop_Suc [symmetric] numeral_3_eq_3)
  moreover have "int (4 * j) < c" using j assms(3) by simp
  moreover have "4 * j + 4 = 4 * Suc j" by simp
  ultimately show ?case using q unfolding quads.simps [of _ "4 * j"] body_code [OF j] t by (simp add: Let_def b del: mult_Suc_right)
qed

lemma body_plain: "c \<in> set (chunk_body e m) \<Longrightarrow> \<exists>i. 0 \<le> i \<and> i < 64 \<and> c = code_char i"
proof -
  assume "c \<in> set (chunk_body e m)"
  then obtain i where "c \<in> set (quad e (3 * i))" by (auto simp: chunk_body_def)
  moreover have "0 \<le> triple e (3 * i) div 262144" "triple e (3 * i) div 262144 < 64" using triple_range [of e "3 * i"] by auto
  ultimately show ?thesis unfolding quad_chars Let_def
    by (auto intro: exI [of _ "triple e (3 * i) div 262144"] exI [of _ "triple e (3 * i) div 4096 mod 64"]
        exI [of _ "triple e (3 * i) div 64 mod 64"] exI [of _ "triple e (3 * i) mod 64"])
qed

text \<open>The encoded string: whole quads, then up to three more characters of the alphabet and the padding.\<close>

definition tail_codes :: "u8 list \<Rightarrow> int list" where
  "tail_codes e =
     (let n = length e; k = n mod 3; a = num_at e (n - 1); t = 256 * num_at e (n - 2) + num_at e (n - 1)
      in if k = 1 then [a div 4, 16 * a mod 64] else if k = 2 then [t div 1024, t div 16 mod 64, 4 * t mod 64] else [])"

lemma div_range:
  "0 \<le> t \<Longrightarrow> t < 65536 \<Longrightarrow> 0 \<le> t div 1024 \<and> t div 1024 < (64 :: int)"
  "0 \<le> a \<Longrightarrow> a < 256 \<Longrightarrow> 0 \<le> a div 4 \<and> a div 4 < (64 :: int)"
  by auto

lemma tail_codes_range: "x \<in> set (tail_codes e) \<Longrightarrow> 0 \<le> x \<and> x < 64"
proof -
  assume x: "x \<in> set (tail_codes e)"
  let ?a = "num_at e (length e - 1)" and ?t = "256 * num_at e (length e - 2) + num_at e (length e - 1)"
  have "0 \<le> ?t" "?t < 65536" using num_at_range [of e "length e - 1"] num_at_range [of e "length e - 2"] by simp_all
  note r = div_range(1) [OF this] div_range(2) [OF num_at_range [of e "length e - 1"]]
  have "x = ?a div 4 \<or> x = 16 * ?a mod 64 \<or> x = ?t div 1024 \<or> x = ?t div 16 mod 64 \<or> x = 4 * ?t mod 64"
    using x by (auto simp: tail_codes_def Let_def split: if_splits)
  then show ?thesis using r by (elim disjE) (simp_all only: pos_mod_sign pos_mod_bound zero_less_numeral simp_thms)
qed

lemma fromByteArray_shape:
  "fromByteArray e = chunk_body e (length e div 3) @ map code_char (tail_codes e) @ replicate ((3 - length e mod 3) mod 3) 61"
proof -
  have n: "length e - length e mod 3 = 3 * (length e div 3)" by (simp add: minus_mod_eq_mult_div)
  have "chunks e 0 (3 * (length e div 3)) = chunk_body e (length e div 3)"
    using chunks_concat [of e 0 "length e div 3"] by (simp add: chunk_body_def)
  note c = this
  have "length e mod 3 = 0 \<or> length e mod 3 = 1 \<or> length e mod 3 = 2" by linarith
  then show ?thesis
  proof (elim disjE)
    assume "length e mod 3 = 0"
    then show ?thesis unfolding fromByteArray_def n Let_def c by (simp add: tail_codes_def Let_def)
  next
    assume k: "length e mod 3 = 1"
    have "replicate ((3 - length e mod 3) mod 3) 61 = [61, 61 :: code_unit]" by (simp add: k numeral_2_eq_2)
    then show ?thesis unfolding fromByteArray_def n Let_def c
      by (simp add: k tail_codes_def Let_def drop_bit_eq_div push_bit_eq_mult and_low mult.commute)
  next
    assume k: "length e mod 3 = 2"
    have "replicate ((3 - length e mod 3) mod 3) 61 = [61 :: code_unit]" by (simp add: k)
    then show ?thesis unfolding fromByteArray_def n Let_def c
      by (simp add: k tail_codes_def Let_def drop_bit_eq_div push_bit_eq_mult and_low mult.commute)
  qed
qed

lemma length_tail: "length (tail_codes e) = (if length e mod 3 = 0 then 0 else length e mod 3 + 1)"
proof -
  have "length e mod 3 = 0 \<or> length e mod 3 = 1 \<or> length e mod 3 = 2" by linarith
  then show ?thesis by (auto simp: tail_codes_def Let_def)
qed

lemma takeWhile_code:
  assumes "\<And>c. c \<in> set xs \<Longrightarrow> \<exists>i. 0 \<le> i \<and> i < 64 \<and> c = code_char i"
  shows "takeWhile (\<lambda>c. c \<noteq> 61) (xs @ replicate k 61) = xs"
proof -
  have "c \<noteq> 61" if c: "c \<in> set xs" for c
  proof -
    obtain i where "0 \<le> i" "i < 64" "c = code_char i" using assms [OF c] by (elim exE conjE)
    then show ?thesis using code_char_ok(2) [of i] by simp
  qed
  then have "takeWhile (\<lambda>c. c \<noteq> 61) (xs @ replicate k 61) = xs @ takeWhile (\<lambda>c. c \<noteq> 61) (replicate k 61)"
    by (rule takeWhile_append2)
  then show ?thesis by (cases k) simp_all
qed

lemma getLens_fromByteArray:
  "getLens (fromByteArray e) = Inr (4 * (length e div 3) + length (tail_codes e), (3 - length e mod 3) mod 3)"
proof -
  let ?m = "length e div 3" and ?k = "length e mod 3"
  let ?xs = "chunk_body e ?m @ map code_char (tail_codes e)"
  have l: "length (chunk_body e ?m) = 4 * ?m" by (simp add: chunk_body_def length_quads)
  have "\<exists>i. 0 \<le> i \<and> i < 64 \<and> c = code_char i" if "c \<in> set ?xs" for c
    using that body_plain [of c e ?m] tail_codes_range [of _ e] by auto
  then have t: "takeWhile (\<lambda>c. c \<noteq> 61) (fromByteArray e) = ?xs"
    using takeWhile_code [of ?xs] unfolding fromByteArray_shape by simp
  have "?k = 0 \<or> ?k = 1 \<or> ?k = 2" by linarith
  then show ?thesis unfolding getLens_def t unfolding fromByteArray_shape
    by (auto simp: Let_def l length_tail)
qed

lemma tail_code_at:
  assumes "r < length (tail_codes e)"
  shows "code_at (fromByteArray e) (4 * (length e div 3) + r) = tail_codes e ! r"
proof -
  have l: "length (chunk_body e (length e div 3)) = 4 * (length e div 3)" by (simp add: chunk_body_def length_quads)
  have "char_code (code_char (tail_codes e ! r)) = tail_codes e ! r"
    using code_char_ok(1) tail_codes_range [of "tail_codes e ! r" e] assms by simp
  then show ?thesis using assms unfolding code_at_def fromByteArray_shape by (simp add: nth_append l)
qed

lemma one_byte:
  assumes "0 \<le> a" "a < 256"
  shows "byte (push_bit 2 (a div 4) OR drop_bit 4 (16 * a mod 64)) = word_of_int a"
proof -
  have "16 * a mod (16 * 4) = 16 * (a mod 4)" by (rule mult_mod_right [symmetric])
  then have "drop_bit 4 (16 * a mod 64) = a mod 4" by (simp add: drop_bit_eq_div)
  moreover have "push_bit 2 (a div 4) OR a mod 4 = 4 * (a div 4) + a mod 4" using or_high [of "a mod 4" 2 "a div 4"] by simp
  ultimately have "push_bit 2 (a div 4) OR drop_bit 4 (16 * a mod 64) = a" by (simp only: mult_div_mod_eq)
  then show ?thesis using assms by (simp add: byte_def and_low)
qed

lemma two_bytes:
  assumes "0 \<le> a" "a < 256" "0 \<le> b" "b < 256"
  defines "t \<equiv> 256 * a + b"
  defines "u \<equiv> push_bit 10 (t div 1024) OR push_bit 4 (t div 16 mod 64) OR drop_bit 2 (4 * t mod 64)"
  shows "byte (drop_bit 8 u) = word_of_int a" "byte u = word_of_int b"
proof -
  have "4 * t mod (4 * 16) = 4 * (t mod 16)" by (rule mult_mod_right [symmetric])
  then have 1: "drop_bit 2 (4 * t mod 64) = t mod 16" by (simp add: drop_bit_eq_div)
  have 2: "push_bit 4 (t div 16 mod 64) OR t mod 16 = 16 * (t div 16 mod 64) + t mod 16"
    using or_high [of "t mod 16" 4 "t div 16 mod 64"] by simp
  have b: "0 \<le> 16 * (x mod 64) + y mod 16" "16 * (x mod 64) + y mod 16 < 1024" for x y :: int
    using pos_mod_bound [of 64 x] pos_mod_bound [of 16 y] pos_mod_sign [of 64 x] pos_mod_sign [of 16 y] by linarith+
  have 3: "push_bit 10 (t div 1024) OR (16 * (t div 16 mod 64) + t mod 16) = 1024 * (t div 1024) + (16 * (t div 16 mod 64) + t mod 16)"
    by (rule or_parts(2) [OF b])
  have e: "1024 * q + (16 * r + s) = t" if "16 * p + s = t" "64 * q + r = p" for p q r s using that by simp
  have "t div 1024 = t div 16 div 64" by (simp add: zdiv_zmult2_eq [symmetric])
  then have "1024 * (t div 1024) + (16 * (t div 16 mod 64) + t mod 16) = t"
    by (simp only:) (rule e; rule mult_div_mod_eq)
  then have "u = t" unfolding u_def 1 2 3 .
  moreover have "t div 256 = a" "t mod 256 = b" using assms(1-4) by (simp_all add: t_def)
  ultimately show "byte (drop_bit 8 u) = word_of_int a" "byte u = word_of_int b"
    using assms(1-4) by (simp_all add: byte_def drop_bit_eq_div and_low)
qed

lemma toByteArray_two:
  assumes "getLens x = Inr (f + 3, 1)" "quads x 0 (int (f + 3) - 4) = (bs, f)"
    and "code_at x f = c0" "code_at x (f + 1) = c1" "code_at x (f + 2) = c2"
  shows "toByteArray x = Inr (bs @ [byte (drop_bit 8 (push_bit 10 c0 OR push_bit 4 c1 OR drop_bit 2 c2)),
           byte (push_bit 10 c0 OR push_bit 4 c1 OR drop_bit 2 c2)])"
  unfolding toByteArray_def assms(1) using assms(2-) by (simp add: Let_def)

lemma base64_decode_encode: "toByteArray (fromByteArray e) = Inr e"
proof -
  let ?m = "length e div 3" and ?k = "length e mod 3" and ?X = "fromByteArray e" and ?n = "length e"
  have X: "?X = chunk_body e ?m @ map code_char (tail_codes e) @ replicate ((3 - ?k) mod 3) 61" by (rule fromByteArray_shape)
  have m: "3 * ?m \<le> ?n" "3 * ?m + ?k = ?n" by simp_all
  have q: "quads ?X 0 c = (take (3 * ?m) e, 4 * ?m)" if "4 * int ?m - 4 < c" "c \<le> 4 * int ?m" for c
    using quads_body [OF m(1) _ that, of 0] unfolding X by simp
  note t = getLens_fromByteArray [of e] tail_code_at [of _ e]
  have "?k = 0 \<or> ?k = 1 \<or> ?k = 2" by linarith
  then show ?thesis
  proof (elim disjE)
    assume k: "?k = 0"
    then have "take (3 * ?m) e = e" using m by simp
    then show ?thesis using q [of "4 * int ?m"] t(1) by (simp add: toByteArray_def length_tail k)
  next
    assume k: "?k = 1"
    then have n: "?n = Suc (3 * ?m)" using m by simp
    have e: "take (3 * ?m) e @ [e ! (3 * ?m)] = e" using take_Suc_conv_app_nth [of "3 * ?m" e] n by simp
    have "tail_codes e = [num_at e (3 * ?m) div 4, 16 * num_at e (3 * ?m) mod 64]"
    proof -
      have "length e - 1 = 3 * ?m" using n by linarith
      then show ?thesis by (simp only: tail_codes_def Let_def k) simp
    qed
    moreover have "word_of_int (num_at e (3 * ?m)) = e ! (3 * ?m)" using n by (intro word_num_at) linarith
    ultimately show ?thesis using q [of "4 * int ?m - 2"] t(1) t(2) [of 0] t(2) [of 1] one_byte [OF num_at_range, of e "3 * ?m"] e
      by (simp add: toByteArray_def k)
  next
    assume k: "?k = 2"
    then have n: "?n = Suc (Suc (3 * ?m))" using m by simp
    have e: "take (3 * ?m) e @ [e ! (3 * ?m), e ! Suc (3 * ?m)] = e"
      using take_Suc_conv_app_nth [of "3 * ?m" e] take_Suc_conv_app_nth [of "Suc (3 * ?m)" e] n by simp
    let ?t = "256 * num_at e (3 * ?m) + num_at e (Suc (3 * ?m))"
    have c: "tail_codes e = [?t div 1024, ?t div 16 mod 64, 4 * ?t mod 64]"
    proof -
      have "length e - 1 = Suc (3 * ?m)" "length e - 2 = 3 * ?m" using n by linarith+
      then show ?thesis by (simp only: tail_codes_def Let_def k) simp
    qed
    have w: "word_of_int (num_at e (3 * ?m)) = e ! (3 * ?m)" "word_of_int (num_at e (Suc (3 * ?m))) = e ! Suc (3 * ?m)"
      using n by (intro word_num_at; linarith)+
    have "getLens ?X = Inr (4 * ?m + 3, 1)" unfolding t(1) k c by simp
    moreover have "quads ?X 0 (int (4 * ?m + 3) - 4) = (take (3 * ?m) e, 4 * ?m)" by (rule q) simp_all
    moreover have "code_at ?X (4 * ?m) = ?t div 1024" using t(2) [of 0] unfolding c by simp
    moreover have "code_at ?X (4 * ?m + 1) = ?t div 16 mod 64" using t(2) [of 1] unfolding c by simp
    moreover have "code_at ?X (4 * ?m + 2) = 4 * ?t mod 64" using t(2) [of 2] unfolding c by (simp only: length_Cons) simp
    ultimately show ?thesis
      by (simp only: toByteArray_two two_bytes [OF num_at_range num_at_range] w e)
  qed
qed

lemma trim_keeps:
  assumes "\<forall>c\<in>set s. \<not> is_space c"
  shows "trim s = s"
proof -
  have "dropWhile is_space xs = xs" if "\<forall>c\<in>set xs. \<not> is_space c" for xs using that by (cases xs) simp_all
  from this [of s] this [of "rev s"] show ?thesis using assms by (simp add: trim_def)
qed

lemma base64clean_fromByteArray: "base64clean (fromByteArray e) = fromByteArray e"
proof -
  let ?m = "length e div 3" and ?k = "length e mod 3"
  let ?xs = "chunk_body e ?m @ map code_char (tail_codes e)" and ?p = "replicate ((3 - ?k) mod 3) (61 :: code_unit)"
  have X: "fromByteArray e = ?xs @ ?p" by (simp add: fromByteArray_shape)
  have l: "length ?xs = 4 * ?m + length (tail_codes e)" by (simp add: chunk_body_def length_quads)
  have c: "in_base64 c \<and> \<not> is_space c" if "c \<in> set ?xs" for c
    using that body_plain [of c e ?m] tail_codes_range [of _ e] code_char_ok(3,4) by auto
  have "\<not> is_space 61" "\<not> in_base64 61" by (simp_all add: is_space_def in_base64_def)
  then have t: "trim (fromByteArray e) = fromByteArray e" and f: "filter in_base64 (fromByteArray e) = ?xs"
    using c unfolding X by (auto intro!: trim_keeps simp: filter_id_conv)
  have pad: "?k = 0 \<or> ?k = 1 \<or> ?k = 2" by linarith
  have n: "length ?xs < 2 \<Longrightarrow> ?xs @ ?p = []"
    using pad unfolding l length_tail by (auto simp: chunk_body_def tail_codes_def)
  have "(4 - length ?xs mod 4) mod 4 = (3 - ?k) mod 3"
    using pad unfolding l length_tail by auto
  then show ?thesis using n unfolding base64clean_def t f by (simp only: Let_def X) auto
qed

text \<open>
  C8: Base64 is faithful: for every buffer, of any length, writing its Base64 text into a buffer of its size gives the
  buffer back and reports all of its bytes as written, and the text decodes without the length error.
\<close>

theorem base64_roundtrip:
  "base64Write (replicate (length b) 0) (base64Slice b 0 (length b)) 0 (blen b) = Inr (b, blen b) \<and>
   toByteArray (fromByteArray b) = Inr b"
  using blit_whole [of b]
  by (simp add: base64Write_def base64Slice_def base64ToBytes_def base64clean_fromByteArray base64_decode_encode blen_def)

end
