(* ===== verification/JS_Value.thy ===== *)
theory JS_Value
  imports JS_Prelude
begin

text \<open>
  JavaScript values as the API client handles them: the values of JSON, \<open>undefined\<close>, and two opaque kinds, files and
  functions. An object is the list of its own properties in the order of \<open>Object.keys\<close>: names that are array
  indices first and in ascending order, then the others as they were added.

  A number is its decimal text. The code only stores numbers, tests them against zero and prints them, so nothing
  else of a number is observed.

  Objects are values here: two properties never share an object. An assignment to the name \<open>__proto__\<close> is treated
  as to any other name.
\<close>

section \<open>Values\<close>

datatype json =
    JUndef
  | JNull
  | JBool bool
  | JNum jsstring
  | JStr jsstring
  | JArr "json list"
  | JObj "(jsstring \<times> json) list"
  | JFile nat
  | JFun nat

type_synonym obj = "(jsstring \<times> json) list"

definition type_of :: "json \<Rightarrow> string" where
  "type_of v =
     (case v of JUndef \<Rightarrow> ''undefined'' | JBool _ \<Rightarrow> ''boolean'' | JNum _ \<Rightarrow> ''number'' | JStr _ \<Rightarrow> ''string''
      | JFun _ \<Rightarrow> ''function'' | _ \<Rightarrow> ''object'')"

definition truthy :: "json \<Rightarrow> bool" where
  "truthy v =
     (case v of JUndef \<Rightarrow> False | JNull \<Rightarrow> False | JBool b \<Rightarrow> b | JNum t \<Rightarrow> t \<noteq> str ''0'' \<and> t \<noteq> str ''NaN''
      | JStr s \<Rightarrow> s \<noteq> [] | _ \<Rightarrow> True)"

definition is_arr :: "json \<Rightarrow> bool" where
  "is_arr v = (case v of JArr _ \<Rightarrow> True | _ \<Rightarrow> False)"

definition js_or :: "json \<Rightarrow> json \<Rightarrow> json" where
  "js_or a b = (if truthy a then a else b)"

lemma truthy_simps [simp]:
  "\<not> truthy JUndef" "\<not> truthy JNull" "truthy (JBool b) = b" "truthy (JStr s) \<longleftrightarrow> s \<noteq> []"
  "truthy (JArr xs)" "truthy (JObj fs)" "truthy (JFile n)" "truthy (JFun n)"
  by (simp_all add: truthy_def)

lemma is_arr_simps [simp]:
  "\<not> is_arr JUndef" "\<not> is_arr JNull" "\<not> is_arr (JBool b)" "\<not> is_arr (JStr s)" "\<not> is_arr (JNum s)" "is_arr (JArr xs)"
  "\<not> is_arr (JObj fs)" "\<not> is_arr (JFile n)" "\<not> is_arr (JFun n)"
  by (simp_all add: is_arr_def)

lemma type_of_simps [simp]:
  "type_of JUndef = ''undefined''" "type_of JNull = ''object''" "type_of (JBool b) = ''boolean''" "type_of (JNum t) = ''number''"
  "type_of (JStr s) = ''string''" "type_of (JArr xs) = ''object''" "type_of (JObj fs) = ''object''" "type_of (JFile n) = ''object''"
  "type_of (JFun n) = ''function''"
  by (simp_all add: type_of_def)

section \<open>Numbers as text\<close>

definition digit_unit :: "nat \<Rightarrow> code_unit" where
  "digit_unit d = of_nat (48 + d)"

fun nat_text :: "nat \<Rightarrow> jsstring" where
  "nat_text n = (if n < 10 then [digit_unit n] else nat_text (n div 10) @ [digit_unit (n mod 10)])"

declare nat_text.simps [simp del]

definition JNat :: "nat \<Rightarrow> json" where
  "JNat n = JNum (nat_text n)"

section \<open>Objects\<close>

text \<open>The array index that a property name denotes, if it does: decimal digits without a leading zero, below \<open>2^32 - 1\<close>.\<close>

definition digit_value :: "code_unit \<Rightarrow> nat option" where
  "digit_value c = (if 48 \<le> uint c \<and> uint c \<le> 57 then Some (nat (uint c - 48)) else None)"

fun digits_value :: "jsstring \<Rightarrow> nat \<Rightarrow> nat option" where
  "digits_value [] n = Some n"
| "digits_value (c # cs) n = (case digit_value c of None \<Rightarrow> None | Some d \<Rightarrow> digits_value cs (10 * n + d))"

definition index_key :: "jsstring \<Rightarrow> nat option" where
  "index_key k =
     (case k of
        [] \<Rightarrow> None
      | c # cs \<Rightarrow>
          if c = 48 \<and> cs \<noteq> [] then None
          else (case digits_value k 0 of None \<Rightarrow> None | Some n \<Rightarrow> if n < 2 ^ 32 - 1 then Some n else None))"

definition comes_before :: "jsstring \<Rightarrow> jsstring \<Rightarrow> bool" where
  "comes_before k k' =
     (case index_key k of None \<Rightarrow> False | Some i \<Rightarrow> (case index_key k' of None \<Rightarrow> True | Some j \<Rightarrow> i < j))"

fun obj_insert :: "jsstring \<Rightarrow> 'v \<Rightarrow> (jsstring \<times> 'v) list \<Rightarrow> (jsstring \<times> 'v) list" where
  "obj_insert k v [] = [(k, v)]"
| "obj_insert k v (f # fs) = (if comes_before k (fst f) then (k, v) # f # fs else f # obj_insert k v fs)"

fun obj_replace :: "jsstring \<Rightarrow> 'v \<Rightarrow> (jsstring \<times> 'v) list \<Rightarrow> (jsstring \<times> 'v) list" where
  "obj_replace k v [] = []"
| "obj_replace k v (f # fs) = (if fst f = k then (k, v) # fs else f # obj_replace k v fs)"

definition obj_put :: "jsstring \<Rightarrow> 'v \<Rightarrow> (jsstring \<times> 'v) list \<Rightarrow> (jsstring \<times> 'v) list" where
  "obj_put k v fs = (if k \<in> fst ` set fs then obj_replace k v fs else obj_insert k v fs)"

definition obj_del :: "jsstring \<Rightarrow> (jsstring \<times> 'v) list \<Rightarrow> (jsstring \<times> 'v) list" where
  "obj_del k fs = filter (\<lambda>f. fst f \<noteq> k) fs"

definition keys :: "(jsstring \<times> 'v) list \<Rightarrow> jsstring list" where
  "keys fs = map fst fs"

text \<open>
  Reading a property: \<open>field\<close> of a name that the source spells out, none of which is inherited, and \<open>obj_at\<close> of a
  computed name, which finds the function of \<open>Object.prototype\<close> of that name when the object has no property of its own.
\<close>

definition field :: "obj \<Rightarrow> string \<Rightarrow> json" where
  "field fs k = (case map_of fs (str k) of None \<Rightarrow> JUndef | Some v \<Rightarrow> v)"

definition obj_at :: "obj \<Rightarrow> jsstring \<Rightarrow> json" where
  "obj_at fs k = (case map_of fs k of Some v \<Rightarrow> v | None \<Rightarrow> if k \<in> set object_prototype then JFun 0 else JUndef)"

definition set_field :: "string \<Rightarrow> json \<Rightarrow> obj \<Rightarrow> obj" where
  "set_field k v fs = obj_put (str k) v fs"

text \<open>\<open>Object.assign\<close>, or the object spread, of one object into another.\<close>

definition assign_obj :: "(jsstring \<times> 'v) list \<Rightarrow> (jsstring \<times> 'v) list \<Rightarrow> (jsstring \<times> 'v) list" where
  "assign_obj a b = fold (\<lambda>(k, v). obj_put k v) b a"

lemma map_of_insert: "k \<notin> fst ` set fs \<Longrightarrow> map_of (obj_insert k v fs) = (map_of fs)(k \<mapsto> v)"
  by (induction fs) (auto simp: fun_eq_iff)

lemma map_of_replace: "k \<in> fst ` set fs \<Longrightarrow> map_of (obj_replace k v fs) = (map_of fs)(k \<mapsto> v)"
  by (induction fs) (force simp: fun_eq_iff)+

lemma map_of_obj_put [simp]: "map_of (obj_put k v fs) = (map_of fs)(k \<mapsto> v)"
  by (simp add: obj_put_def map_of_insert map_of_replace)

lemma map_of_del [simp]: "map_of (obj_del k fs) = (map_of fs)(k := None)"
  by (induction fs) (auto simp: obj_del_def fun_eq_iff)

lemma keys_insert: "set (keys (obj_insert k v fs)) = insert k (set (keys fs))"
  by (induction fs) (auto simp: keys_def)

lemma distinct_insert: "k \<notin> set (keys fs) \<Longrightarrow> distinct (keys fs) \<Longrightarrow> distinct (keys (obj_insert k v fs))"
proof (induction fs)
  case (Cons f fs)
  then show ?case using keys_insert [of k v fs] by (auto simp: keys_def)
qed (simp add: keys_def)

lemma keys_replace [simp]: "keys (obj_replace k v fs) = keys fs"
  by (induction fs) (auto simp: keys_def)

lemma distinct_put [simp]: "distinct (keys fs) \<Longrightarrow> distinct (keys (obj_put k v fs))"
  using distinct_insert [of k fs v] by (auto simp: obj_put_def keys_def [symmetric] image_set)

lemma distinct_del [simp]: "distinct (keys fs) \<Longrightarrow> distinct (keys (obj_del k fs))"
  by (simp add: keys_def obj_del_def distinct_map_filter)

lemma set_keys: "set (keys fs) = dom (map_of fs)"
  by (simp add: keys_def dom_map_of_conv_image_fst)

lemma set_keys_put [simp]: "set (keys (obj_put k v fs)) = insert k (set (keys fs))"
  by (simp add: set_keys)

lemma field_put: "field (obj_put k v fs) n = (if k = str n then v else field fs n)"
  by (simp add: field_def)

lemma field_set [simp]: "field (set_field k v fs) n = (if k = n then v else field fs n)"
  by (simp add: set_field_def field_put)

lemma obj_at_put [simp]: "obj_at (obj_put k v fs) n = (if k = n then v else obj_at fs n)"
  by (simp add: obj_at_def)

lemma assign_Nil [simp]: "assign_obj a [] = a"
  by (simp add: assign_obj_def)

lemma map_of_assign: "distinct (keys b) \<Longrightarrow> map_of (assign_obj a b) = map_of a ++ map_of b"
proof (induction b arbitrary: a)
  case (Cons f b)
  then have "map_of (assign_obj a (f # b)) = (map_of a)(fst f \<mapsto> snd f) ++ map_of b"
    by (simp add: assign_obj_def keys_def split_beta)
  moreover have "map_of b (fst f) = None" using Cons.prems set_keys [of b] by (auto simp: keys_def)
  ultimately show ?case by (auto simp: map_add_def fun_eq_iff split: option.splits)
qed simp

lemma distinct_assign: "distinct (keys a) \<Longrightarrow> distinct (keys (assign_obj a b))"
  by (induction b arbitrary: a) (auto simp: assign_obj_def)

section \<open>Reading properties of any value\<close>

text \<open>Reading a property of \<open>undefined\<close> or \<open>null\<close> throws; other values that are not objects have none of those the code names.\<close>

definition get_prop :: "json \<Rightarrow> string \<Rightarrow> json js" where
  "get_prop v k = (case v of JUndef \<Rightarrow> Inl TypeError | JNull \<Rightarrow> Inl TypeError | JObj fs \<Rightarrow> Inr (field fs k) | _ \<Rightarrow> Inr JUndef)"

definition arr_items :: "json \<Rightarrow> json list" where
  "arr_items v = (case v of JArr xs \<Rightarrow> xs | _ \<Rightarrow> [])"

definition obj_fields :: "json \<Rightarrow> obj" where
  "obj_fields v = (case v of JObj fs \<Rightarrow> fs | _ \<Rightarrow> [])"

lemma get_prop_simps [simp]: "get_prop (JObj fs) k = Inr (field fs k)" "get_prop JUndef k = Inl TypeError" "get_prop JNull k = Inl TypeError"
  by (simp_all add: get_prop_def)

lemma obj_fields_simps [simp]: "obj_fields (JObj fs) = fs" by (simp add: obj_fields_def)

lemma arr_items_simps [simp]: "arr_items (JArr xs) = xs" by (simp add: arr_items_def)

section \<open>Strings\<close>

fun join :: "jsstring \<Rightarrow> jsstring list \<Rightarrow> jsstring" where
  "join sep [] = []"
| "join sep [x] = x"
| "join sep (x # y # ys) = x @ sep @ join sep (y # ys)"

text \<open>\<open>split\<close> at a separator of one code unit.\<close>

fun split_on :: "code_unit \<Rightarrow> jsstring \<Rightarrow> jsstring list" where
  "split_on c [] = [[]]"
| "split_on c (x # xs) =
     (if x = c then [] # split_on c xs
      else (case split_on c xs of [] \<Rightarrow> [[x]] | p # ps \<Rightarrow> (x # p) # ps))"

lemma split_nonempty [simp]: "split_on c xs \<noteq> []"
  by (cases xs) (auto split: list.splits)

lemma join_split: "join [c] (split_on c xs) = xs"
proof (induction xs)
  case (Cons x xs)
  show ?case
  proof (cases "split_on c xs")
    case (Cons p ps)
    then show ?thesis using Cons.IH by (cases ps) auto
  qed simp
qed simp

lemma split_join:
  assumes "xs \<noteq> []" "\<forall>x\<in>set xs. c \<notin> set x"
  shows "split_on c (join [c] xs) = xs"
proof -
  have one: "c \<notin> set x \<Longrightarrow> split_on c x = [x]" for x by (induction x) auto
  have pre: "c \<notin> set x \<Longrightarrow> split_on c (x @ c # r) = x # split_on c r" for x r by (induction x) auto
  show ?thesis using assms by (induction "[c]" xs rule: join.induct) (auto simp: one pre)
qed

text \<open>\<open>String(v)\<close>.\<close>

fun js_text :: "json \<Rightarrow> jsstring" where
  "js_text JUndef = str ''undefined''"
| "js_text JNull = str ''null''"
| "js_text (JBool b) = (if b then str ''true'' else str ''false'')"
| "js_text (JNum t) = t"
| "js_text (JStr s) = s"
| "js_text (JArr xs) = join (str '','') (map (\<lambda>x. if x = JUndef \<or> x = JNull then [] else js_text x) xs)"
| "js_text (JObj fs) = str ''[object Object]''"
| "js_text (JFile n) = str ''[object File]''"
| "js_text (JFun n) = str ''function () { [native code] }''"

definition lower_unit :: "code_unit \<Rightarrow> code_unit" where
  "lower_unit c = (if 65 \<le> uint c \<and> uint c \<le> 90 then c + 32 else c)"

definition upper_unit :: "code_unit \<Rightarrow> code_unit" where
  "upper_unit c = (if 97 \<le> uint c \<and> uint c \<le> 122 then c - 32 else c)"

end
