(* ===== verification/JS_Uri.thy ===== *)
theory JS_Uri
  imports JS_Value Buf_Text_Props
begin

text \<open>
  The functions of the language that escape the parts of a URI: \<open>encodeURIComponent\<close> and \<open>decodeURIComponent\<close>. Both
  throw on what is not well formed: surrogates without a partner, and bytes that are not UTF-8.
\<close>

definition alnum :: "code_unit \<Rightarrow> bool" where
  "alnum c \<longleftrightarrow> (let n = uint c in (48 \<le> n \<and> n \<le> 57) \<or> (65 \<le> n \<and> n \<le> 90) \<or> (97 \<le> n \<and> n \<le> 122))"

text \<open>The characters that stay as they are: letters, digits and \<open>- _ . ! ~ * ' ( )\<close>.\<close>

definition uri_plain :: "code_unit \<Rightarrow> bool" where
  "uri_plain c \<longleftrightarrow> alnum c \<or> uint c \<in> {45, 95, 46, 33, 126, 42, 39, 40, 41}"

definition HexDigit :: "int \<Rightarrow> code_unit" where
  "HexDigit d = word_of_int (if d < 10 then 48 + d else 55 + d)"

definition pct :: "int \<Rightarrow> jsstring" where
  "pct x = [37, HexDigit (x div 16), HexDigit (x mod 16)]"

definition pct_point :: "int \<Rightarrow> jsstring js" where
  "pct_point n =
     (case utf8_bytes n of None \<Rightarrow> Inl (OtherError ''URIError'') | Some bs \<Rightarrow> Inr (concat (map (\<lambda>b. pct (uint b)) bs)))"

fun encodeURIComponent :: "jsstring \<Rightarrow> jsstring js" where
  "encodeURIComponent [] = Inr []"
| "encodeURIComponent (c # cs) =
     (let n = uint c
      in if uri_plain c then js_bind (encodeURIComponent cs) (\<lambda>r. Inr (c # r))
         else if n < 55296 \<or> 57343 < n then js_bind (pct_point n) (\<lambda>p. js_bind (encodeURIComponent cs) (\<lambda>r. Inr (p @ r)))
         else if n > 56319 then Inl (OtherError ''URIError'')
         else (case cs of
                 [] \<Rightarrow> Inl (OtherError ''URIError'')
               | d # ds \<Rightarrow>
                   if 56320 \<le> uint d \<and> uint d \<le> 57343
                   then js_bind (pct_point (65536 + (1024 * (n - 55296) + (uint d - 56320))))
                          (\<lambda>p. js_bind (encodeURIComponent ds) (\<lambda>r. Inr (p @ r)))
                   else Inl (OtherError ''URIError'')))"

definition hex_pair :: "jsstring \<Rightarrow> int option" where
  "hex_pair s =
     (case s of
        p # a # b # _ \<Rightarrow>
          (if p = 37 then (case (hex_value a, hex_value b) of (Some x, Some y) \<Rightarrow> Some (16 * x + y) | _ \<Rightarrow> None) else None)
      | _ \<Rightarrow> None)"

fun hex_pairs :: "nat \<Rightarrow> jsstring \<Rightarrow> int list option" where
  "hex_pairs 0 s = Some []"
| "hex_pairs (Suc n) s =
     (case hex_pair s of
        None \<Rightarrow> None
      | Some x \<Rightarrow> (case hex_pairs n (drop 3 s) of None \<Rightarrow> None | Some xs \<Rightarrow> Some (x # xs)))"

function decodeURIComponent :: "jsstring \<Rightarrow> jsstring js" where
  "decodeURIComponent s =
     (if s = [] then Inr []
      else if s ! 0 \<noteq> 37 then js_bind (decodeURIComponent (drop 1 s)) (\<lambda>r. Inr (s ! 0 # r))
      else (case hex_pair s of
              None \<Rightarrow> Inl (OtherError ''URIError'')
            | Some b \<Rightarrow>
                (case hex_pairs (utf8_width b) s of
                   None \<Rightarrow> Inl (OtherError ''URIError'')
                 | Some bs \<Rightarrow>
                     (case utf8_point bs of
                        None \<Rightarrow> Inl (OtherError ''URIError'')
                      | Some n \<Rightarrow>
                          js_bind (decodeURIComponent (drop (3 * utf8_width b) s)) (\<lambda>r. Inr (map word_of_int (push_point n) @ r))))))"
  by pat_completeness auto
termination by (relation "measure length") (auto simp: utf8_width_def)

declare decodeURIComponent.simps [simp del] encodeURIComponent.simps(2) [simp del]

section \<open>Decoding inverts encoding\<close>

lemma hex_value_HexDigit: "0 \<le> d \<Longrightarrow> d < 16 \<Longrightarrow> hex_value (HexDigit d) = Some d"
proof -
  assume "0 \<le> d" "d < 16"
  moreover from this have "uint (HexDigit d) = (if d < 10 then 48 + d else 55 + d)"
    unfolding HexDigit_def uint_word_of_int by simp
  ultimately show ?thesis by (simp add: hex_value_def Let_def)
qed

lemma hex_pair_pct: "0 \<le> x \<Longrightarrow> x < 256 \<Longrightarrow> hex_pair (pct x @ r) = Some x"
proof -
  assume x: "0 \<le> x" "x < 256"
  then have "0 \<le> x div 16" "x div 16 < 16" "0 \<le> x mod 16" "x mod 16 < 16" by auto
  then show ?thesis by (simp add: hex_pair_def pct_def hex_value_HexDigit)
qed

lemma length_pct [simp]: "length (pct x) = 3" by (simp add: pct_def)

lemma hex_pairs_pct: "hex_pairs (length bs) (concat (map (\<lambda>b. pct (uint b)) bs) @ r) = Some (map uint (bs :: u8 list))"
proof (induction bs)
  case (Cons b bs)
  show ?case using Cons hex_pair_pct [of "uint b"] uint_lt2p [of b] by simp
qed simp

lemma decode_point:
  assumes "0 \<le> n" "n < 1114112" "n < 55296 \<or> 57343 < n" "pct_point n = Inr p"
  shows "decodeURIComponent (p @ r) = js_bind (decodeURIComponent r) (\<lambda>t. Inr (map word_of_int (push_point n) @ t))"
proof -
  obtain bs where b: "utf8_bytes n = Some bs" "bs \<noteq> []" "utf8_width (uint (bs ! 0)) = length bs"
    "\<And>r. utf8_point (map uint bs @ r) = Some n"
    using utf8_point_enc [OF assms(1-3)] by auto
  then have p: "p = concat (map (\<lambda>b. pct (uint b)) bs)" using assms(4) by (simp add: pct_point_def)
  obtain c cs where c: "bs = c # cs" using b(2) by (cases bs) auto
  have h: "hex_pair (p @ r) = Some (uint (bs ! 0))"
    using hex_pair_pct [of "uint c" "concat (map (\<lambda>b. pct (uint b)) cs) @ r"] uint_lt2p [of c] by (simp add: p c)
  have l: "length p = 3 * length bs" unfolding p by (induction bs) (simp_all add: pct_def)
  have "(p @ r) ! 0 = 37" "p \<noteq> []" by (simp_all add: p c pct_def)
  then show ?thesis
    using b(4) [of "[]"] hex_pairs_pct [of bs r] l
    by (subst decodeURIComponent.simps) (simp add: h b(3) p [symmetric])
qed

lemma pair_range:
  assumes "55296 \<le> c" "c \<le> 56319" "56320 \<le> d" "d \<le> (57343 :: int)"
  shows "0 \<le> 65536 + (1024 * (c - 55296) + (d - 56320))" "65536 + (1024 * (c - 55296) + (d - 56320)) < 1114112"
    "57343 < 65536 + (1024 * (c - 55296) + (d - 56320))"
  using assms by simp_all

lemma decode_encode:
  "encodeURIComponent s = Inr t \<Longrightarrow> decodeURIComponent (t @ r) = js_bind (decodeURIComponent r) (\<lambda>u. Inr (s @ u))"
proof (induction s arbitrary: t rule: encodeURIComponent.induct)
  case 1
  then show ?case by (cases "decodeURIComponent r") simp_all
next
  case (2 c cs)
  let ?n = "uint c"
  have n: "0 \<le> ?n" "?n < 1114112" "(word_of_int ?n :: code_unit) = c" using uint16 [of c] by simp_all
  consider (plain) "uri_plain c" | (low) "\<not> uri_plain c" "?n < 55296 \<or> 57343 < ?n"
    | (pair) "\<not> uri_plain c" "55296 \<le> ?n" "?n \<le> 57343" by linarith
  then show ?case
  proof cases
    case plain
    then obtain u where u: "encodeURIComponent cs = Inr u" "t = c # u"
      using 2 by (auto simp: encodeURIComponent.simps(2) js_bind_eq_Inr)
    have "c \<noteq> 37" using plain by (auto simp: uri_plain_def alnum_def)
    then show ?thesis using 2(1) [OF refl plain u(1)] u(2)
      by (subst decodeURIComponent.simps) (cases "decodeURIComponent r"; simp)
  next
    case low
    then obtain p u where u: "pct_point ?n = Inr p" "encodeURIComponent cs = Inr u" "t = p @ u"
      using 2(4) by (auto simp: encodeURIComponent.simps(2) js_bind_eq_Inr)
    have "push_point ?n = [?n]" using uint16 [of c] by (simp add: push_point_def)
    then show ?thesis using decode_point [OF n(1,2) low(2) u(1), of "u @ r"] 2(2) [OF refl low(1,2) u(2)] n(3) u(3)
      by (cases "decodeURIComponent r") simp_all
  next
    case pair
    then obtain d ds where d: "cs = d # ds" "56320 \<le> uint d" "uint d \<le> 57343" "?n \<le> 56319"
      using 2(4) by (auto simp: encodeURIComponent.simps(2) Let_def split: list.splits if_splits)
    let ?m = "65536 + (1024 * (?n - 55296) + (uint d - 56320))"
    obtain p u where u: "pct_point ?m = Inr p" "encodeURIComponent ds = Inr u" "t = p @ u"
      using 2(4) pair d by (auto simp: encodeURIComponent.simps(2) js_bind_eq_Inr)
    have m: "0 \<le> ?m" "?m < 1114112" "?m < 55296 \<or> 57343 < ?m" using pair_range [OF pair(2) d(4,2,3)] by blast+
    have IH: "decodeURIComponent (u @ r) = js_bind (decodeURIComponent r) (\<lambda>v. Inr (ds @ v))"
      using 2(3) [OF refl pair(1) _ _ d(1) _ u(2)] pair d by simp
    show ?thesis using decode_point [OF m u(1), of "u @ r"] IH push_pair(2) [of ?n "uint d"] pair d n(3) u(3)
      by (cases "decodeURIComponent r") simp_all
  qed
qed

lemma decodeURIComponent_encode: "encodeURIComponent s = Inr t \<Longrightarrow> decodeURIComponent t = Inr s"
  using decode_encode [of s t "[]"] by (simp add: decodeURIComponent.simps)

lemma pct_point_total: "n < 1114112 \<Longrightarrow> \<exists>p. pct_point n = Inr p"
  using utf8_bytes_total [of n] by (auto simp: pct_point_def)

text \<open>Encoding succeeds on the strings whose surrogates are paired.\<close>

lemma uri_plain_range: "uri_plain c \<Longrightarrow> uint c < 55296"
  by (auto simp: uri_plain_def alnum_def Let_def)

lemma encode_total: "wf16 s \<Longrightarrow> \<exists>t. encodeURIComponent s = Inr t"
proof (induction s rule: wf16.induct)
  case (2 c cs)
  show ?case
  proof (cases "uint c < 55296 \<or> 57343 < uint c")
    case True
    then obtain t where t: "encodeURIComponent cs = Inr t" using 2(1) [OF refl] 2(3) by auto
    obtain p where "pct_point (uint c) = Inr p" using pct_point_total [of "uint c"] uint16 [of c] by auto
    then show ?thesis using True t by (cases "uri_plain c") (auto simp: encodeURIComponent.simps(2))
  next
    case False
    then obtain d ds where d: "cs = d # ds" "56320 \<le> uint d" "uint d \<le> 57343" "wf16 ds" "uint c \<le> 56319"
      using 2(3) by (cases cs) (auto simp: Let_def split: if_splits)
    obtain u where u: "encodeURIComponent ds = Inr u" using 2(2) [OF refl _ _ d(1) d(4)] False d(5) by auto
    let ?m = "65536 + (1024 * (uint c - 55296) + (uint d - 56320))"
    have "?m < 1114112" using False by (intro pair_range(2) d) simp
    then obtain p where "pct_point ?m = Inr p" using pct_point_total by blast
    then show ?thesis using False d u uri_plain_range [of c] by (cases "uri_plain c") (auto simp: encodeURIComponent.simps(2))
  qed
qed simp

end
