(* ===== verification/Qs.thy ===== *)
theory Qs
  imports JS_Uri
begin

text \<open>
  The query-string package \<open>qs\<close>: \<open>stringify\<close> and \<open>parse\<close>, with the options the API client passes: \<open>encode\<close> and
  \<open>indices\<close> for \<open>stringify\<close>, none for \<open>parse\<close>. Every other option has its default (no filter, no sorting, no dots in
  names, nested objects to depth 5, arrays to index 20, 1000 parameters, no names of \<open>Object.prototype\<close>).

  In an array, \<open>undefined\<close> stands for an element that is missing.
\<close>

section \<open>Escaping (\<open>utils\<close>)\<close>

definition qs_plain :: "code_unit \<Rightarrow> bool" where
  "qs_plain c \<longleftrightarrow> uint c \<in> {45, 46, 95, 126} \<or> alnum c"

definition qs_unit :: "int \<Rightarrow> jsstring" where
  "qs_unit i =
     (if i < 128 then pct i
      else if i < 2048 then pct (192 OR drop_bit 6 i) @ pct (128 OR (63 AND i))
      else pct (224 OR drop_bit 12 i) @ pct (128 OR (drop_bit 6 i AND 63)) @ pct (128 OR (63 AND i)))"

definition qs_pair :: "int \<Rightarrow> int \<Rightarrow> jsstring" where
  "qs_pair i d =
     (let j = 65536 + (push_bit 10 (1023 AND i) OR (1023 AND d))
      in pct (240 OR drop_bit 18 j) @ pct (128 OR (drop_bit 12 j AND 63)) @ pct (128 OR (drop_bit 6 j AND 63)) @ pct (128 OR (63 AND j)))"

text \<open>A surrogate is joined with whatever code unit follows it, or with nothing at the end of the string.\<close>

fun qs_encode :: "jsstring \<Rightarrow> jsstring" where
  "qs_encode [] = []"
| "qs_encode [c] =
     (if qs_plain c then [c] else if uint c < 55296 \<or> uint c \<ge> 57344 then qs_unit (uint c) else qs_pair (uint c) 0)"
| "qs_encode (c # d # cs) =
     (if qs_plain c then c # qs_encode (d # cs)
      else if uint c < 55296 \<or> uint c \<ge> 57344 then qs_unit (uint c) @ qs_encode (d # cs)
      else qs_pair (uint c) (uint d) @ qs_encode cs)"

definition qs_decode :: "jsstring \<Rightarrow> jsstring" where
  "qs_decode e = (case decodeURIComponent (map (\<lambda>c. if c = 43 then 32 else c) e) of Inl _ \<Rightarrow> e | Inr s \<Rightarrow> s)"

section \<open>\<open>stringify\<close>\<close>

text \<open>\<open>i\<close>: the names of the elements of an array.\<close>

datatype array_format = Indices | Repeat

definition array_prefix :: "array_format \<Rightarrow> jsstring \<Rightarrow> jsstring \<Rightarrow> jsstring" where
  "array_prefix w e t = (case w of Indices \<Rightarrow> e @ str ''['' @ t @ str '']'' | Repeat \<Rightarrow> e)"

definition qs_pair_text :: "bool \<Rightarrow> jsstring \<Rightarrow> jsstring \<Rightarrow> jsstring" where
  "qs_pair_text enc n v = (if enc then qs_encode n @ str ''='' @ qs_encode v else n @ str ''='' @ v)"

text \<open>\<open>s\<close>: the pairs of a value \<open>v\<close> under the name \<open>n\<close>.\<close>

fun qs_pairs :: "bool \<Rightarrow> array_format \<Rightarrow> jsstring \<Rightarrow> json \<Rightarrow> jsstring list"
  and qs_items :: "bool \<Rightarrow> array_format \<Rightarrow> jsstring \<Rightarrow> nat \<Rightarrow> json list \<Rightarrow> jsstring list"
  and qs_fields :: "bool \<Rightarrow> array_format \<Rightarrow> jsstring \<Rightarrow> (jsstring \<times> json) list \<Rightarrow> jsstring list" where
  "qs_pairs enc w n (JNull) = [qs_pair_text enc n []]"
| "qs_pairs enc w n (JStr s) = [qs_pair_text enc n s]"
| "qs_pairs enc w n (JNum t) = [qs_pair_text enc n t]"
| "qs_pairs enc w n (JBool b) = [qs_pair_text enc n (js_text (JBool b))]"
| "qs_pairs enc w n (JArr xs) = qs_items enc w n 0 xs"
| "qs_pairs enc w n (JObj fs) = qs_fields enc w n fs"
| "qs_pairs enc w n _ = []"
| "qs_items enc w n i [] = []"
| "qs_items enc w n i (x # xs) = qs_pairs enc w (array_prefix w n (nat_text i)) x @ qs_items enc w n (Suc i) xs"
| "qs_fields enc w n [] = []"
| "qs_fields enc w n ((k, x) # fs) = qs_pairs enc w (n @ str ''['' @ k @ str '']'') x @ qs_fields enc w n fs"

definition qs_stringify :: "bool \<Rightarrow> array_format \<Rightarrow> json \<Rightarrow> jsstring" where
  "qs_stringify enc w n =
     (case n of
        JObj fs \<Rightarrow> join (str ''&'') (concat (map (\<lambda>(k, x). qs_pairs enc w k x) fs))
      | JArr xs \<Rightarrow> join (str ''&'') (concat (map (\<lambda>(i, x). qs_pairs enc w (nat_text i) x) (enumerate 0 xs)))
      | _ \<Rightarrow> [])"

section \<open>\<open>parse\<close>\<close>

fun index_of :: "code_unit \<Rightarrow> jsstring \<Rightarrow> nat option" where
  "index_of c [] = None"
| "index_of c (x # xs) = (if x = c then Some 0 else map_option Suc (index_of c xs))"

text \<open>The position of \<open>]=\<close>.\<close>

fun bracket_eq :: "jsstring \<Rightarrow> nat option" where
  "bracket_eq (x # y # xs) = (if x = 93 \<and> y = 61 then Some 0 else map_option Suc (bracket_eq (y # xs)))"
| "bracket_eq xs = None"

definition concat_value :: "json \<Rightarrow> json list" where
  "concat_value v = (case v of JArr xs \<Rightarrow> xs | _ \<Rightarrow> [v])"

definition qs_put_value :: "jsstring \<Rightarrow> json \<Rightarrow> obj \<Rightarrow> obj" where
  "qs_put_value l c n = (case map_of n l of Some old \<Rightarrow> obj_put l (JArr (concat_value old @ [c])) n | None \<Rightarrow> obj_put l c n)"

definition qs_part :: "jsstring \<Rightarrow> jsstring \<times> jsstring" where
  "qs_part f =
     (let d = (case bracket_eq f of Some p \<Rightarrow> Some (p + 1) | None \<Rightarrow> index_of 61 f)
      in case d of None \<Rightarrow> (qs_decode f, []) | Some d \<Rightarrow> (qs_decode (take d f), qs_decode (drop (d + 1) f)))"

definition parseValues :: "jsstring \<Rightarrow> obj" where
  "parseValues e = fold (\<lambda>f n. let (l, c) = qs_part f in qs_put_value l (JStr c) n) (take 1000 (split_on 38 e)) []"

text \<open>
  The groups in brackets of a name, each with what remains of the name from its opening bracket on, and the part of the
  name before the first of them.
\<close>

function brackets :: "jsstring \<Rightarrow> (jsstring \<times> jsstring) list" where
  "brackets [] = []"
| "brackets (c # cs) =
     (if c = 91 then
        (let inner = takeWhile (\<lambda>x. x \<noteq> 91 \<and> x \<noteq> 93) cs; rest = dropWhile (\<lambda>x. x \<noteq> 91 \<and> x \<noteq> 93) cs
         in if rest \<noteq> [] \<and> hd rest = 93 then (91 # inner @ [93], c # cs) # brackets (tl rest) else brackets cs)
      else brackets cs)"
  by pat_completeness auto
termination
  by (relation "measure length") (auto simp: Let_def less_Suc_eq_le intro: le_trans [OF diff_le_self length_dropWhile_le])

definition before_brackets :: "jsstring \<Rightarrow> jsstring" where
  "before_brackets r = (case brackets r of [] \<Rightarrow> r | (g, rest) # _ \<Rightarrow> take (length r - length rest) r)"

definition inner_name :: "jsstring \<Rightarrow> jsstring" where
  "inner_name a = (if a \<noteq> [] \<and> hd a = 91 \<and> last a = 93 then butlast (tl a) else a)"

fun parseObject :: "jsstring list \<Rightarrow> json \<Rightarrow> json" where
  "parseObject [] t = t"
| "parseObject (a # as) t =
     (let r = parseObject as t
      in if a = str ''[]'' then JArr (concat_value r)
         else
           (let u = inner_name a
            in case index_key u of
                 Some s \<Rightarrow> if a \<noteq> u \<and> s \<le> 20 then JArr (replicate s JUndef @ [r]) else JObj [(u, r)]
               | None \<Rightarrow> JObj [(u, r)]))"

definition parseKeys :: "jsstring \<Rightarrow> json \<Rightarrow> json" where
  "parseKeys e t =
     (if e = [] then JUndef
      else
        (let u = before_brackets e; gs = brackets e
         in if u \<in> set object_prototype \<or> (\<exists>g\<in>set (take 5 gs). inner_name (fst g) \<in> set object_prototype) then JUndef
            else parseObject ((if u = [] then [] else [u]) @ map fst (take 5 gs) @
                   (case drop 5 gs of [] \<Rightarrow> [] | (g, rest) # _ \<Rightarrow> [[91] @ rest @ [93]])) t))"

text \<open>\<open>merge\<close> of \<open>utils\<close>, on the values that \<open>parse\<close> builds: strings, arrays and objects.\<close>

fun array_fields :: "nat \<Rightarrow> json list \<Rightarrow> obj" where
  "array_fields i [] = []"
| "array_fields i (x # xs) = (if x = JUndef then [] else [(nat_text i, x)]) @ array_fields (Suc i) xs"

definition put_at :: "nat \<Rightarrow> json \<Rightarrow> json list \<Rightarrow> json list" where
  "put_at i x xs = (if i < length xs then xs[i := x] else xs @ replicate (i - length xs) JUndef @ [x])"

definition is_obj :: "json \<Rightarrow> bool" where
  "is_obj v \<longleftrightarrow> type_of v = ''object''"

fun qs_merge :: "json \<Rightarrow> json \<Rightarrow> json"
  and merge_items :: "json list \<Rightarrow> nat \<Rightarrow> json list \<Rightarrow> json list"
  and merge_fields :: "obj \<Rightarrow> obj \<Rightarrow> obj"
  and merge_indexed :: "obj \<Rightarrow> nat \<Rightarrow> json list \<Rightarrow> obj" where
  "qs_merge e (JArr ys) =
     (case e of
        JArr xs \<Rightarrow> JArr (merge_items xs 0 ys)
      | JObj fs \<Rightarrow> JObj (merge_indexed fs 0 ys)
      | _ \<Rightarrow> JArr (e # ys))"
| "qs_merge e (JObj gs) =
     (case e of
        JArr xs \<Rightarrow> JObj (merge_fields (array_fields 0 xs) gs)
      | JObj fs \<Rightarrow> JObj (merge_fields fs gs)
      | _ \<Rightarrow> JArr [e, JObj gs])"
| "qs_merge e n =
     (if \<not> truthy n then e
      else
        (case e of
           JArr xs \<Rightarrow> JArr (xs @ [n])
         | JObj fs \<Rightarrow> (if js_text n \<in> set object_prototype then e else JObj (obj_put (js_text n) (JBool True) fs))
         | _ \<Rightarrow> JArr [e, n]))"
| "merge_items xs i [] = xs"
| "merge_items xs i (y # ys) =
     merge_items
       (if y = JUndef then xs
        else if i < length xs \<and> xs ! i \<noteq> JUndef then
          (if truthy (xs ! i) \<and> is_obj (xs ! i) then xs[i := qs_merge (xs ! i) y] else xs @ [y])
        else put_at i y xs) (Suc i) ys"
| "merge_fields fs [] = fs"
| "merge_fields fs ((k, y) # gs) =
     merge_fields (case map_of fs k of Some x \<Rightarrow> obj_put k (qs_merge x y) fs | None \<Rightarrow> obj_put k y fs) gs"
| "merge_indexed fs i [] = fs"
| "merge_indexed fs i (y # ys) =
     merge_indexed
       (if y = JUndef then fs
        else (case map_of fs (nat_text i) of Some x \<Rightarrow> obj_put (nat_text i) (qs_merge x y) fs | None \<Rightarrow> obj_put (nat_text i) y fs))
       (Suc i) ys"

text \<open>
  \<open>compact\<close>: the queue visits every array once and drops what is missing from it.
\<close>

fun compact_value :: "json \<Rightarrow> json" where
  "compact_value (JArr xs) = JArr (filter (\<lambda>x. x \<noteq> JUndef) (map compact_value xs))"
| "compact_value (JObj fs) = JObj (map (\<lambda>(k, x). (k, compact_value x)) fs)"
| "compact_value v = v"

definition qs_parse :: "jsstring \<Rightarrow> obj" where
  "qs_parse e =
     (if e = [] then []
      else obj_fields (compact_value (fold (\<lambda>(f, v) s. qs_merge s (parseKeys f v)) (parseValues e) (JObj []))))"

end
