(* ===== verification/Swg_Style.thy ===== *)
theory Swg_Style
  imports JS_Uri
begin

text \<open>
  The style serialiser of the API client (\<open>style-serializer\<close> of \<open>swagger-client\<close>): how the value of a parameter becomes
  the text that is put into a request, for the parameter styles of OpenAPI 3, with the packages it uses to split a
  string into characters (\<open>utfstring\<close>) and to encode one as UTF-8 (\<open>utf8-bytes\<close>).
\<close>

section \<open>Escaping\<close>

text \<open>\<open>stringToCharArray\<close>: pairs of surrogates, or single code units.\<close>

definition high_unit :: "code_unit \<Rightarrow> bool" where
  "high_unit c \<longleftrightarrow> 55296 \<le> uint c \<and> uint c \<le> 56319"

definition low_unit :: "code_unit \<Rightarrow> bool" where
  "low_unit c \<longleftrightarrow> 56320 \<le> uint c \<and> uint c \<le> 57343"

fun stringToCharArray :: "jsstring \<Rightarrow> jsstring list" where
  "stringToCharArray [] = []"
| "stringToCharArray [c] = [[c]]"
| "stringToCharArray (c # d # cs) =
     (if high_unit c \<and> low_unit d then [c, d] # stringToCharArray cs else [c] # stringToCharArray (d # cs))"

text \<open>\<open>utf8-bytes\<close>: a surrogate without a partner is encoded as any other code unit.\<close>

definition utf8_unit :: "int \<Rightarrow> int list" where
  "utf8_unit r =
     (if r \<ge> 2048 then [224 + r div 64 div 64, 128 + r div 64 mod 64, 128 + r mod 64]
      else if r \<ge> 128 then [192 + r div 64, 128 + r mod 64]
      else [r])"

fun utf8_encode :: "jsstring \<Rightarrow> int list" where
  "utf8_encode [] = []"
| "utf8_encode [c] = utf8_unit (uint c)"
| "utf8_encode (c # d # cs) =
     (if high_unit c \<and> low_unit d then
        (let i = 1024 * (uint c - 55296) + uint d - 56320 + 65536
         in [240 + i div 64 div 64 div 64, 128 + i div 64 div 64 mod 64, 128 + i div 64 mod 64, 128 + i mod 64] @ utf8_encode cs)
      else utf8_unit (uint c) @ utf8_encode (d # cs))"

text \<open>\<open>l\<close> (\<open>isRfc3986Reserved\<close>) and \<open>c\<close> (\<open>isRfc3986Unreserved\<close>), on one character of \<open>stringToCharArray\<close>.\<close>

definition isRfc3986Reserved :: "jsstring \<Rightarrow> bool" where
  "isRfc3986Reserved e \<longleftrightarrow> length e = 1 \<and> set e \<subseteq> set (str '':/?#[]@!$&'()*+,;='')"

definition isRfc3986Unreserved :: "jsstring \<Rightarrow> bool" where
  "isRfc3986Unreserved e \<longleftrightarrow> e \<noteq> [] \<and> (\<forall>c\<in>set e. alnum c \<or> c \<in> set (str ''-._~''))"

text \<open>\<open>e.toString(16).toUpperCase()\<close> of a byte: one digit when it is below 16.\<close>

definition byte_text :: "int \<Rightarrow> jsstring" where
  "byte_text b = (if b < 16 then [HexDigit b] else [HexDigit (b div 16), HexDigit (b mod 16)])"

definition escape_char :: "json \<Rightarrow> jsstring \<Rightarrow> jsstring" where
  "escape_char t e =
     (if isRfc3986Unreserved e then e
      else if isRfc3986Reserved e \<and> t = JStr (str ''unsafe'') then e
      else concat (map (\<lambda>b. 37 # byte_text b) (utf8_encode e)))"

definition encodeDisallowedCharacters :: "json \<Rightarrow> json \<Rightarrow> json" where
  "encodeDisallowedCharacters t e0 =
     (let e = (case e0 of JNum n \<Rightarrow> JStr n | _ \<Rightarrow> e0)
      in case e of
           JStr s \<Rightarrow> if s \<noteq> [] \<and> truthy t then JStr (concat (map (escape_char t) (stringToCharArray s))) else e
         | _ \<Rightarrow> e)"

section \<open>Styles\<close>

text \<open>The elements of an array in \<open>join\<close>: \<open>undefined\<close> and \<open>null\<close> are empty.\<close>

definition item_text :: "json \<Rightarrow> jsstring" where
  "item_text v = (if v = JUndef \<or> v = JNull then [] else js_text v)"

definition join_items :: "jsstring \<Rightarrow> json list \<Rightarrow> jsstring" where
  "join_items sep xs = join sep (map item_text xs)"

record style_args =
  key :: jsstring
  style :: json
  explode :: json
  escape :: json

definition encodeArray :: "style_args \<Rightarrow> json list \<Rightarrow> json" where
  "encodeArray e n =
     (let t = key e; r = style e; i = truthy (explode e); u = encodeDisallowedCharacters (escape e); us = map u n
      in if r = JStr (str ''simple'') then JStr (join_items (str '','') us)
         else if r = JStr (str ''label'') then JStr (str ''.'' @ join_items (str ''.'') us)
         else if r = JStr (str ''matrix'') then
           JStr (fold (\<lambda>x a. if a = [] \<or> i then a @ str '';'' @ t @ str ''='' @ js_text x else a @ str '','' @ js_text x) us [])
         else if r = JStr (str ''form'') then JStr (join_items (if i then str ''&'' @ t @ str ''='' else str '','') us)
         else if r = JStr (str ''spaceDelimited'') then JStr (join_items (str '' '' @ (if i then t @ str ''='' else [])) us)
         else if r = JStr (str ''pipeDelimited'') then JStr (join_items (str ''|'' @ (if i then t @ str ''='' else [])) us)
         else JUndef)"

definition encodeObject :: "style_args \<Rightarrow> json \<Rightarrow> json js" where
  "encodeObject e v =
     (if v = JNull then Inl TypeError
      else
        (let t = key e; r = style e; a = truthy (explode e); s = encodeDisallowedCharacters (escape e); n = obj_fields v;
             red = (\<lambda>f. JStr (fold (\<lambda>(k, x) acc. f acc k (js_text (s x))) n []))
         in Inr
           (if r = JStr (str ''simple'') then
              red (\<lambda>e k x. (if e \<noteq> [] then e @ str '','' else []) @ k @ (if a then str ''='' else str '','') @ x)
            else if r = JStr (str ''label'') then
              red (\<lambda>e k x. (if e \<noteq> [] then e @ str ''.'' else str ''.'') @ k @ (if a then str ''='' else str ''.'') @ x)
            else if r = JStr (str ''matrix'') \<and> a then
              red (\<lambda>e k x. (if e \<noteq> [] then e @ str '';'' else str '';'') @ k @ str ''='' @ x)
            else if r = JStr (str ''matrix'') then
              red (\<lambda>e k x. (if e \<noteq> [] then e @ str '','' else str '';'' @ t @ str ''='') @ k @ str '','' @ x)
            else if r = JStr (str ''form'') then
              red (\<lambda>e k x. (if e \<noteq> [] then e @ (if a then str ''&'' else str '','') else []) @ k @ (if a then str ''='' else str '','') @ x)
            else JUndef)))"

definition encodePrimitive :: "style_args \<Rightarrow> json \<Rightarrow> json" where
  "encodePrimitive e n =
     (let t = key e; r = style e; a = encodeDisallowedCharacters (escape e)
      in if r = JStr (str ''simple'') then a n
         else if r = JStr (str ''label'') then JStr (str ''.'' @ js_text (a n))
         else if r = JStr (str ''matrix'') then JStr (str '';'' @ t @ str ''='' @ js_text (a n))
         else if r = JStr (str ''form'') then a n
         else if r = JStr (str ''deepObject'') then a n
         else JUndef)"

definition stylize :: "style_args \<Rightarrow> json \<Rightarrow> json js" where
  "stylize e t =
     (case t of
        JArr xs \<Rightarrow> Inr (encodeArray e xs)
      | _ \<Rightarrow> if type_of t = ''object'' then encodeObject e t else Inr (encodePrimitive e t))"

end
