(* ===== verification/Separated_Text.thy ===== *)
theory Separated_Text
  imports JS_Value
begin

text \<open>
  The contract of an escaping that lets texts be joined with a separator: what is escaped can be read back, and it does
  not hold the separator. Query strings, JSON pointers and the arrays of the style serializer rely on it.
\<close>

locale separated_text =
  fixes enc :: "'a \<Rightarrow> jsstring" and dec :: "jsstring \<Rightarrow> 'b" and good :: "'a \<Rightarrow> bool" and orig :: "'a \<Rightarrow> 'b" and sep :: code_unit
  assumes dec_enc: "good x \<Longrightarrow> dec (enc x) = orig x"
    and sep_free: "good x \<Longrightarrow> sep \<notin> set (enc x)"
begin

lemma split_joined: "xs \<noteq> [] \<Longrightarrow> \<forall>x\<in>set xs. good x \<Longrightarrow> split_on sep (join [sep] (map enc xs)) = map enc xs"
  by (rule split_join) (auto dest: sep_free)

lemma read_joined: "xs \<noteq> [] \<Longrightarrow> \<forall>x\<in>set xs. good x \<Longrightarrow> map dec (split_on sep (join [sep] (map enc xs))) = map orig xs"
  by (simp add: split_joined dec_enc)

text \<open>Different lists have different texts.\<close>

lemma joined_eq:
  assumes "inj_on orig (Collect good)" "xs \<noteq> []" "ys \<noteq> []" "\<forall>x\<in>set xs. good x" "\<forall>y\<in>set ys. good y"
    and "join [sep] (map enc xs) = join [sep] (map enc ys)"
  shows "xs = ys"
proof -
  have "map orig xs = map orig ys" using read_joined [OF assms(2,4)] read_joined [OF assms(3,5)] assms(6) by simp
  moreover have "set xs \<union> set ys \<subseteq> Collect good" using assms(4,5) by blast
  then have "inj_on orig (set xs \<union> set ys)" by (rule inj_on_subset [OF assms(1)])
  ultimately show ?thesis by (rule map_inj_on)
qed

end

end
