(* ===== verification/Swg_Style_Props.thy ===== *)
theory Swg_Style_Props
  imports Swg_Style Separated_Text
begin

text \<open>
  What the style serialiser shows of a value: a server that undoes the escapes and splits at the separators gets the
  value back.
\<close>

section \<open>Characters\<close>

lemma bytes_back: "\<forall>x\<in>set xs. 0 \<le> x \<and> x < 256 \<Longrightarrow> map uint (map word_of_int xs :: u8 list) = xs"
  by (simp add: map_idI)

lemma digit_range: "0 \<le> x mod (64 :: int)" "x mod (64 :: int) < 64" "16 \<le> 128 + x mod (64 :: int)" "128 + x mod (64 :: int) < 256"
  using pos_mod_sign [of 64 x] pos_mod_bound [of 64 x] by linarith+

lemma utf8_bytes_eq:
  "0 \<le> n \<Longrightarrow> n < 65536 \<Longrightarrow> utf8_bytes n = Some (map word_of_int (utf8_unit n))"
  "65536 \<le> n \<Longrightarrow> n < 1114112 \<Longrightarrow> utf8_bytes n = Some (map word_of_int [240 + n div 64 div 64 div 64, 128 + n div 64 div 64 mod 64, 128 + n div 64 mod 64, 128 + n mod 64])"
proof -
  have d: "n div 64 div 64 = n div 4096" "n div 4096 div 64 = n div 262144" by (simp_all add: zdiv_zmult2_eq [symmetric])
  show "utf8_bytes n = Some (map word_of_int (utf8_unit n))" if n: "0 \<le> n" "n < 65536"
  proof -
    have "n div 4096 < 16" "0 \<le> n div 4096" "n < 2048 \<Longrightarrow> n div 64 < 32" "0 \<le> n div 64" using n by auto
    then show ?thesis using n
      by (simp add: utf8_bytes_def utf8_unit_def and_low drop_bit_eq_div or_marks mod_64_small d)
  qed
  show "utf8_bytes n = Some (map word_of_int [240 + n div 64 div 64 div 64, 128 + n div 64 div 64 mod 64, 128 + n div 64 mod 64, 128 + n mod 64])"
    if n: "65536 \<le> n" "n < 1114112"
  proof -
    have "n div 262144 < 16" "0 \<le> n div 262144" using n by auto
    then show ?thesis using n by (simp add: utf8_bytes_def and_low drop_bit_eq_div or_marks mod_64_small d)
  qed
qed

lemma utf8_unit_range:
  assumes "0 \<le> n" "n < 65536"
  shows "\<forall>b\<in>set (utf8_unit n). 0 \<le> b \<and> b < 256" "16 \<le> n \<Longrightarrow> \<forall>b\<in>set (utf8_unit n). 16 \<le> b"
proof -
  have r: "n div 64 div 64 < 16" "0 \<le> n div 64 div 64" "n < 2048 \<Longrightarrow> n div 64 < 32" "0 \<le> n div 64"
    using assms by (auto simp: zdiv_zmult2_eq [symmetric])
  show "\<forall>b\<in>set (utf8_unit n). 0 \<le> b \<and> b < 256"
  proof (cases "n < 2048")
    case True
    then show ?thesis using r(3) assms by (auto simp: utf8_unit_def digit_range r(4) intro: add_nonneg_nonneg)
  qed (use r(1,2) in \<open>auto simp: utf8_unit_def digit_range intro: add_nonneg_nonneg\<close>)
  show "\<forall>b\<in>set (utf8_unit n). 16 \<le> b" if "16 \<le> n"
    using that r(2,4) by (auto simp: utf8_unit_def digit_range intro: add_increasing2)
qed

lemma byte_text_pct: "16 \<le> b \<Longrightarrow> 37 # byte_text b = pct b"
  by (simp add: byte_text_def pct_def)

text \<open>One escaped character is what \<open>encodeURIComponent\<close> makes of a code point.\<close>

lemma pct_bytes:
  assumes "utf8_bytes n = Some (map word_of_int xs)" "\<forall>b\<in>set xs. 0 \<le> b \<and> b < 256"
  shows "pct_point n = Inr (concat (map pct xs))"
proof -
  have "concat (map (\<lambda>b. pct (uint b)) (map word_of_int xs :: u8 list)) = concat (map pct (map uint (map word_of_int xs :: u8 list)))"
    by (simp add: comp_def)
  also have "\<dots> = concat (map pct xs)" by (simp only: bytes_back [OF assms(2)])
  finally show ?thesis by (simp add: pct_point_def assms(1))
qed

lemma escape_bytes:
  assumes "utf8_bytes n = Some (map word_of_int xs)" "\<forall>b\<in>set xs. 0 \<le> b \<and> b < 256" "\<forall>b\<in>set xs. 16 \<le> b"
  shows "pct_point n = Inr (concat (map (\<lambda>b. 37 # byte_text b) xs))"
proof -
  have "concat (map pct xs) = concat (map (\<lambda>b. 37 # byte_text b) xs)" using assms(3) by (simp add: byte_text_pct cong: map_cong)
  then show ?thesis using pct_bytes [OF assms(1,2)] by simp
qed

lemma escape_unit:
  assumes "16 \<le> uint c"
  shows "pct_point (uint c) = Inr (concat (map (\<lambda>b. 37 # byte_text b) (utf8_encode [c])))"
  using escape_bytes [OF utf8_bytes_eq(1) [OF uint16] utf8_unit_range(1) [OF uint16] utf8_unit_range(2) [OF uint16 assms]]
  by (simp only: utf8_encode.simps)

lemma four_range:
  assumes "0 \<le> a" "a < 16"
  shows "\<forall>b\<in>set [240 + a, 128 + x mod 64, 128 + y mod 64, 128 + z mod 64]. 0 \<le> b \<and> b < (256 :: int)"
    "\<forall>b\<in>set [240 + a, 128 + x mod 64, 128 + y mod 64, 128 + z mod 64]. (16 :: int) \<le> b"
  using assms digit_range [of x] digit_range [of y] digit_range [of z] by auto

lemma escape_four:
  assumes i: "65536 \<le> i" "i < 1114112"
  shows "pct_point i = Inr (concat (map (\<lambda>b. 37 # byte_text b)
    [240 + i div 64 div 64 div 64, 128 + i div 64 div 64 mod 64, 128 + i div 64 mod 64, 128 + i mod 64]))"
proof -
  have "0 \<le> i div 64 div 64 div 64" "i div 64 div 64 div 64 < 16" using i by (auto simp: zdiv_zmult2_eq [symmetric])
  from four_range [OF this] show ?thesis by (rule escape_bytes [OF utf8_bytes_eq(2) [OF i]])
qed

lemma escape_pair:
  assumes "high_unit c" "low_unit d"
  shows "pct_point (65536 + (1024 * (uint c - 55296) + (uint d - 56320))) = Inr (concat (map (\<lambda>b. 37 # byte_text b) (utf8_encode [c, d])))"
proof -
  have a: "55296 \<le> uint c" "uint c \<le> 56319" "56320 \<le> uint d" "uint d \<le> 57343" using assms by (simp_all add: high_unit_def low_unit_def)
  have e: "1024 * (uint c - 55296) + uint d - 56320 + 65536 = 65536 + (1024 * (uint c - 55296) + (uint d - 56320))" by simp
  have "65536 \<le> 65536 + (1024 * (uint c - 55296) + (uint d - 56320))" using a by simp
  from escape_four [OF this pair_range(2) [OF a]] show ?thesis using assms
    by (simp only: utf8_encode.simps Let_def append_Nil2 if_True simp_thms e)
qed

section \<open>Decoding what was escaped\<close>

text \<open>Strings that survive: surrogates are paired and no character is below 16.\<close>

definition printable :: "jsstring \<Rightarrow> bool" where
  "printable s \<longleftrightarrow> wf16 s \<and> (\<forall>c\<in>set s. 16 \<le> uint c)"

lemma decode_plain: "c \<noteq> 37 \<Longrightarrow> decodeURIComponent (c # r) = js_bind (decodeURIComponent r) (\<lambda>u. Inr (c # u))"
  by (subst decodeURIComponent.simps) simp

lemma reserved_not_percent: "isRfc3986Reserved [c] \<Longrightarrow> c \<noteq> 37" "isRfc3986Unreserved [c] \<Longrightarrow> c \<noteq> 37"
  by (auto simp: isRfc3986Reserved_def isRfc3986Unreserved_def str_def alnum_def)

lemma escape_decode_unit:
  assumes "uint c < 55296 \<or> 57343 < uint c" "16 \<le> uint c"
  shows "decodeURIComponent (escape_char t [c] @ r) = js_bind (decodeURIComponent r) (\<lambda>u. Inr (c # u))"
proof (cases "isRfc3986Unreserved [c] \<or> isRfc3986Reserved [c] \<and> t = JStr (str ''unsafe'')")
  case True
  then have "escape_char t [c] = [c]" "c \<noteq> 37" using reserved_not_percent by (auto simp: escape_char_def)
  then show ?thesis by (simp add: decode_plain)
next
  case False
  then have e: "escape_char t [c] = concat (map (\<lambda>b. 37 # byte_text b) (utf8_encode [c]))" by (auto simp: escape_char_def)
  have n: "uint c < 1114112" using uint16(2) [of c] by linarith
  have "push_point (uint c) = [uint c]" using uint16(2) [of c] by (simp add: push_point_def)
  then show ?thesis using decode_point [OF uint16(1) n assms(1) escape_unit [OF assms(2)], of r] by (simp add: e del: utf8_encode.simps)
qed

lemma escape_decode_pair:
  assumes "high_unit c" "low_unit d"
  shows "decodeURIComponent (escape_char t [c, d] @ r) = js_bind (decodeURIComponent r) (\<lambda>u. Inr (c # d # u))"
proof -
  have a: "55296 \<le> uint c" "uint c \<le> 56319" "56320 \<le> uint d" "uint d \<le> 57343" using assms by (simp_all add: high_unit_def low_unit_def)
  have "\<not> alnum c" "c \<notin> set (str ''-._~'')" using a(1) by (auto simp: alnum_def str_def)
  then have e: "escape_char t [c, d] = concat (map (\<lambda>b. 37 # byte_text b) (utf8_encode [c, d]))"
    by (simp add: escape_char_def isRfc3986Unreserved_def isRfc3986Reserved_def del: utf8_encode.simps)
  show ?thesis
    using decode_point [OF pair_range(1,2) [OF a] disjI2 [OF pair_range(3) [OF a]] escape_pair [OF assms], of r]
    by (simp only: e push_pair(2) [OF a] list.map word_of_int_uint append_Cons append_Nil)
qed

lemma escape_decode:
  "printable s \<Longrightarrow>
   decodeURIComponent (concat (map (escape_char t) (stringToCharArray s)) @ r) = js_bind (decodeURIComponent r) (\<lambda>u. Inr (s @ u))"
proof (induction s rule: stringToCharArray.induct)
  case 1
  show ?case by (cases "decodeURIComponent r") simp_all
next
  case (2 c)
  then show ?case using escape_decode_unit [of c t r] by (auto simp: printable_def Let_def split: if_splits)
next
  case (3 c d cs)
  show ?case
  proof (cases "high_unit c \<and> low_unit d")
    case True
    then have "printable cs" using 3(3) by (auto simp: printable_def high_unit_def Let_def split: if_splits)
    then show ?thesis using True 3(1) escape_decode_pair [of c d t] by (cases "decodeURIComponent r") simp_all
  next
    case False
    then have n: "uint c < 55296 \<or> 57343 < uint c" "16 \<le> uint c"
      using 3(3) by (auto simp: printable_def high_unit_def low_unit_def Let_def split: if_splits)
    then have "printable (d # cs)" using 3(3) by (auto simp: printable_def)
    then have "decodeURIComponent (concat (map (escape_char t) (stringToCharArray (d # cs))) @ r) = js_bind (decodeURIComponent r) (\<lambda>u. Inr ((d # cs) @ u))"
      by (rule 3(2) [OF False])
    then show ?thesis using escape_decode_unit [OF n] unfolding stringToCharArray.simps if_not_P [OF False]
      by (cases "decodeURIComponent r") simp_all
  qed
qed

section \<open>Characters that the escaped text has\<close>

definition safe_unit :: "code_unit \<Rightarrow> bool" where
  "safe_unit c \<longleftrightarrow> alnum c \<or> c \<in> set (str ''-._~%'')"

lemma safe_HexDigit: "0 \<le> d \<Longrightarrow> d < 16 \<Longrightarrow> safe_unit (HexDigit d)"
proof -
  assume d: "0 \<le> d" "d < 16"
  then have "uint (HexDigit d) = (if d < 10 then 48 + d else 55 + d)"
    unfolding HexDigit_def uint_word_of_int by simp
  then show ?thesis using d by (auto simp: safe_unit_def alnum_def Let_def)
qed

lemma safe_byte_text:
  assumes "0 \<le> b" "b < 256" "c \<in> set (byte_text b)"
  shows "safe_unit c"
proof -
  have "0 \<le> b div 16" "b div 16 < 16" "0 \<le> b mod 16" "b mod 16 < 16" using assms(1,2) by auto
  then show ?thesis using assms safe_HexDigit by (auto simp: byte_text_def split: if_splits)
qed

lemma utf8_encode_range: "b \<in> set (utf8_encode e) \<Longrightarrow> 0 \<le> b \<and> b < 256"
proof (induction e rule: utf8_encode.induct)
  case (2 c)
  then show ?case using utf8_unit_range(1) [OF uint16, of c] by simp
next
  case (3 c d cs)
  show ?case
  proof (cases "high_unit c \<and> low_unit d")
    case True
    let ?i = "1024 * (uint c - 55296) + uint d - 56320 + 65536"
    have "55296 \<le> uint c" "uint c \<le> 56319" "56320 \<le> uint d" "uint d \<le> 57343" using True by (simp_all add: high_unit_def low_unit_def)
    then have "0 \<le> ?i" "?i < 1114112" using pair_range(1,2) [of "uint c" "uint d"] by simp_all
    then have "0 \<le> ?i div 64 div 64 div 64" "?i div 64 div 64 div 64 < 16" by (auto simp: zdiv_zmult2_eq [symmetric])
    note r = four_range(1) [OF this, of "?i div 64 div 64" "?i div 64" ?i]
    have "b \<in> set [240 + ?i div 64 div 64 div 64, 128 + ?i div 64 div 64 mod 64, 128 + ?i div 64 mod 64, 128 + ?i mod 64] \<or> b \<in> set (utf8_encode cs)"
      using 3(3) True by (simp only: utf8_encode.simps Let_def if_True simp_thms set_append Un_iff)
    then show ?thesis using r 3(1) [OF True refl] by blast
  next
    case False
    then have "b \<in> set (utf8_unit (uint c)) \<or> b \<in> set (utf8_encode (d # cs))"
      using 3(3) by (simp only: utf8_encode.simps if_False set_append Un_iff)
    then show ?thesis using utf8_unit_range(1) [OF uint16, of c] 3(2) [OF False] by blast
  qed
qed simp

lemma safe_escape:
  assumes "t \<noteq> JStr (str ''unsafe'')" "c \<in> set (escape_char t e)"
  shows "safe_unit c"
proof (cases "isRfc3986Unreserved e")
  case True
  then show ?thesis using assms by (auto simp: escape_char_def isRfc3986Unreserved_def safe_unit_def str_def)
next
  case False
  then have "c \<in> set (concat (map (\<lambda>b. 37 # byte_text b) (utf8_encode e)))" using assms by (simp add: escape_char_def)
  then obtain b where "b \<in> set (utf8_encode e)" "c \<in> set (37 # byte_text b)" by (auto simp del: set_simps split: if_splits)
  then show ?thesis using safe_byte_text utf8_encode_range by (auto simp: safe_unit_def str_def)
qed

section \<open>Arrays come back\<close>

definition escape_text :: "json \<Rightarrow> jsstring \<Rightarrow> jsstring" where
  "escape_text t s = concat (map (escape_char t) (stringToCharArray s))"

lemma encode_string: "truthy t \<Longrightarrow> encodeDisallowedCharacters t (JStr s) = JStr (escape_text t s)"
  by (cases s) (simp_all add: encodeDisallowedCharacters_def escape_text_def)

lemma decode_escape_text: "printable s \<Longrightarrow> decodeURIComponent (escape_text t s) = Inr s"
  using escape_decode [of s t "[]"] by (simp add: escape_text_def decodeURIComponent.simps)

lemma safe_escape_text: "t \<noteq> JStr (str ''unsafe'') \<Longrightarrow> c \<in> set (escape_text t s) \<Longrightarrow> safe_unit c"
  by (auto simp: escape_text_def dest: safe_escape)

text \<open>Escaped strings can be joined with a comma, a space or a bar.\<close>

lemma escaped_clear: "\<not> safe_unit sep \<Longrightarrow> sep \<notin> set (escape_text (JStr (str ''reserved'')) s)"
  using safe_escape_text [of "JStr (str ''reserved'')" sep s] by (auto simp: str_def)

lemma separators: "\<not> safe_unit 44" "\<not> safe_unit 32" "\<not> safe_unit 124"
  by (simp_all add: safe_unit_def alnum_def str_def)

interpretation comma_list: separated_text "escape_text (JStr (str ''reserved''))" decodeURIComponent printable Inr 44
  by unfold_locales (simp_all add: decode_escape_text escaped_clear separators)

interpretation space_list: separated_text "escape_text (JStr (str ''reserved''))" decodeURIComponent printable Inr 32
  by unfold_locales (simp_all add: decode_escape_text escaped_clear separators)

interpretation bar_list: separated_text "escape_text (JStr (str ''reserved''))" decodeURIComponent printable Inr 124
  by unfold_locales (simp_all add: decode_escape_text escaped_clear separators)



text \<open>
  A character below 16 is escaped with one digit, and the text is no longer one that decodes.
\<close>

lemma style_newline_is_malformed:
  "escape_text (JStr (str ''reserved'')) [10] = str ''%A''" "decodeURIComponent (str ''%A'') = Inl (OtherError ''URIError'')"
  by (simp_all add: escape_text_def escape_char_def isRfc3986Unreserved_def isRfc3986Reserved_def alnum_def str_def utf8_unit_def
    byte_text_def HexDigit_def decodeURIComponent.simps hex_pair_def)

end
