(* ===== verification/Qs_Props.thy ===== *)
theory Qs_Props
  imports Qs Swg_Style_Props
begin

text \<open>What \<open>qs\<close> guarantees: parsing a query string that it printed gives back the parameters.\<close>

section \<open>Escaped names and values\<close>

lemma qs_unit_eq:
  assumes "0 \<le> n" "n < 65536"
  shows "qs_unit n = concat (map pct (utf8_unit n))"
proof -
  have r: "n div 4096 < 16" "0 \<le> n div 4096" "n < 2048 \<Longrightarrow> n div 64 < 32" "0 \<le> n div 64" "n div 64 div 64 = n div 4096"
    using assms by (auto simp: zdiv_zmult2_eq [symmetric])
  note c = or.commute [of 192] or.commute [of 128] or.commute [of 224]
  show ?thesis
  proof (cases "n < 2048")
    case True
    then show ?thesis using r(3,4) by (simp add: qs_unit_def utf8_unit_def c and_low drop_bit_eq_div or_marks mod_64_small)
  qed (use r(1,2,5) in \<open>simp add: qs_unit_def utf8_unit_def c and_low drop_bit_eq_div or_marks mod_64_small\<close>)
qed

lemma qs_unit_point:
  assumes "0 \<le> n" "n < 65536"
  shows "pct_point n = Inr (qs_unit n)"
  unfolding qs_unit_eq [OF assms] by (rule pct_bytes [OF utf8_bytes_eq(1) [OF assms] utf8_unit_range(1) [OF assms]])

lemma qs_four:
  assumes i: "65536 \<le> i" "i < 1114112"
  shows "pct_point i = Inr (pct (240 OR drop_bit 18 i) @ pct (128 OR (drop_bit 12 i AND 63)) @ pct (128 OR (drop_bit 6 i AND 63)) @ pct (128 OR (63 AND i)))"
proof -
  have a: "0 \<le> i div 64 div 64 div 64" "i div 64 div 64 div 64 < 16" using i by (auto simp: zdiv_zmult2_eq [symmetric])
  have e: "i div 262144 = i div 64 div 64 div 64" "i div 4096 = i div 64 div 64" by (simp_all add: zdiv_zmult2_eq [symmetric])
  note c = or.commute [of 240] or.commute [of 128]
  have o: "240 OR drop_bit 18 i = 240 + i div 64 div 64 div 64" "128 OR (drop_bit 12 i AND 63) = 128 + i div 64 div 64 mod 64"
    "128 OR (drop_bit 6 i AND 63) = 128 + i div 64 mod 64" "128 OR (63 AND i) = 128 + i mod 64"
    using a by (simp_all add: c drop_bit_eq_div e and_low or_marks mod_64_small)
  show ?thesis using pct_bytes [OF utf8_bytes_eq(2) [OF i] four_range(1) [OF a]] by (simp add: o)
qed

lemma qs_pair_point:
  assumes "55296 \<le> c" "c \<le> 56319" "56320 \<le> d" "d \<le> (57343 :: int)"
  shows "pct_point (65536 + (1024 * (c - 55296) + (d - 56320))) = Inr (qs_pair c d)"
proof -
  have "c mod 1024 = c - 55296" "d mod 1024 = d - 56320"
    using assms mod_pos_pos_trivial [of "c - 55296" 1024] mod_pos_pos_trivial [of "d - 56320" 1024]
      mod_add_self2 [of "c - 55296" 1024] mod_mult_self2 [of "c - 55296" 1024 54] mod_mult_self2 [of "d - 56320" 1024 55] by simp_all
  then have "push_bit 10 (1023 AND c) OR (1023 AND d) = 1024 * (c - 55296) + (d - 56320)"
    using assms by (simp add: and_low or_parts(2))
  moreover have "65536 \<le> 65536 + (1024 * (c - 55296) + (d - 56320))" using assms by simp
  ultimately show ?thesis using qs_four [OF _ pair_range(2) [OF assms]] by (simp only: qs_pair_def Let_def)
qed

lemma qs_decode_encode_app:
  "wf16 s \<Longrightarrow> decodeURIComponent (qs_encode s @ r) = js_bind (decodeURIComponent r) (\<lambda>u. Inr (s @ u))"
proof (induction s rule: qs_encode.induct)
  case 1
  show ?case by (cases "decodeURIComponent r") simp_all
next
  case (2 c)
  then have n: "uint c < 55296 \<or> 57343 < uint c" by (auto simp: Let_def split: if_splits)
  have b: "uint c < 1114112" using uint16(2) [of c] by linarith
  have p: "push_point (uint c) = [uint c]" using uint16(2) [of c] by (simp add: push_point_def)
  have "c \<noteq> 37" if "qs_plain c" using that by (auto simp: qs_plain_def alnum_def)
  then show ?case using n decode_point [OF uint16(1) b n qs_unit_point [OF uint16], of r]
    by (auto simp: decode_plain p)
next
  case (3 c d cs)
  have b: "uint c < 1114112" using uint16(2) [of c] by linarith
  have p: "push_point (uint c) = [uint c]" using uint16(2) [of c] by (simp add: push_point_def)
  show ?case
  proof (cases "uint c < 55296 \<or> 57343 < uint c")
    case True
    then have w: "wf16 (d # cs)" using 3(4) by simp
    have "c \<noteq> 37" if "qs_plain c" using that by (auto simp: qs_plain_def alnum_def)
    then show ?thesis using True w 3(1,2) decode_point [OF uint16(1) b True qs_unit_point [OF uint16]]
      by (cases "qs_plain c"; cases "decodeURIComponent r") (auto simp: decode_plain p)
  next
    case False
    then have a: "55296 \<le> uint c" "uint c \<le> 56319" "56320 \<le> uint d" "uint d \<le> 57343" and w: "wf16 cs"
      using 3(4) by (auto simp: Let_def split: if_splits)
    have q: "\<not> qs_plain c" using a by (auto simp: qs_plain_def alnum_def)
    show ?thesis using q a 3(3) w push_pair(2) [OF a]
        decode_point [OF pair_range(1,2) [OF a] disjI2 [OF pair_range(3) [OF a]] qs_pair_point [OF a]]
      by (cases "decodeURIComponent r") auto
  qed
qed

lemma qs_decode_encode: "wf16 s \<Longrightarrow> decodeURIComponent (qs_encode s) = Inr s"
  using qs_decode_encode_app [of s "[]"] by (simp add: decodeURIComponent.simps)

lemma safe_pct: "0 \<le> b \<Longrightarrow> b < 256 \<Longrightarrow> c \<in> set (pct b) \<Longrightarrow> safe_unit c"
proof -
  assume b: "0 \<le> b" "b < 256" and c: "c \<in> set (pct b)"
  then have "0 \<le> b div 16" "b div 16 < 16" "0 \<le> b mod 16" "b mod 16 < 16" by auto
  note d = safe_HexDigit [OF this(1,2)] safe_HexDigit [OF this(3,4)]
  have "safe_unit 37" by (simp add: safe_unit_def str_def)
  then show ?thesis using c d by (auto simp: pct_def)
qed

lemma safe_pct_point: "pct_point n = Inr t \<Longrightarrow> c \<in> set t \<Longrightarrow> safe_unit c"
proof -
  assume "pct_point n = Inr t" "c \<in> set t"
  then obtain b :: u8 where "c \<in> set (pct (uint b))" by (auto simp: pct_point_def split: option.splits)
  then show ?thesis using safe_pct [of "uint b" c] uint_lt2p [of b] by simp
qed

lemma qs_encode_safe: "wf16 s \<Longrightarrow> c \<in> set (qs_encode s) \<Longrightarrow> safe_unit c"
proof (induction s rule: qs_encode.induct)
  case (2 d)
  then have n: "uint d < 55296 \<or> 57344 \<le> uint d" by (auto simp: Let_def split: if_splits)
  have "safe_unit d" if "qs_plain d" using that by (auto simp: qs_plain_def safe_unit_def str_def word_uint_eq_iff)
  then show ?case using 2 n safe_pct_point [OF qs_unit_point [OF uint16, of d]] by (auto split: if_splits)
next
  case (3 e d cs)
  have p: "safe_unit e" if "qs_plain e" using that by (auto simp: qs_plain_def safe_unit_def str_def word_uint_eq_iff)
  show ?case
  proof (cases "uint e < 55296 \<or> 57344 \<le> uint e")
    case True
    then have "uint e < 55296 \<or> 57343 < uint e" by linarith
    then have w: "wf16 (d # cs)" using 3(4) by (subst (asm) wf16.simps) (simp only: Let_def if_True)
    then show ?thesis using True p 3(1,2,5) safe_pct_point [OF qs_unit_point [OF uint16, of e]] by (auto split: if_splits)
  next
    case False
    then have a: "55296 \<le> uint e" "uint e \<le> 56319" "56320 \<le> uint d" "uint d \<le> 57343" and w: "wf16 cs"
      using 3(4) by (auto simp: Let_def split: if_splits)
    have "\<not> qs_plain e" using a by (auto simp: qs_plain_def alnum_def)
    then show ?thesis using False 3(3,5) w safe_pct_point [OF qs_pair_point [OF a]] by auto
  qed
qed simp

lemma not_safe: "\<not> safe_unit 38" "\<not> safe_unit 61" "\<not> safe_unit 43" "\<not> safe_unit 91" "\<not> safe_unit 93"
  by (simp_all add: safe_unit_def alnum_def str_def)

lemma qs_decode_back: "wf16 s \<Longrightarrow> qs_decode (qs_encode s) = s"
proof -
  assume w: "wf16 s"
  then have "map (\<lambda>c. if c = 43 then 32 else c) (qs_encode s) = qs_encode s"
    using qs_encode_safe not_safe(3) by (intro map_idI) auto
  then show ?thesis using qs_decode_encode [OF w] by (simp add: qs_decode_def)
qed

section \<open>Pairs\<close>

lemma index_of_app: "c \<notin> set xs \<Longrightarrow> index_of c (xs @ c # ys) = Some (length xs)"
  by (induction xs) auto

lemma bracket_eq_none: "93 \<notin> set xs \<Longrightarrow> bracket_eq xs = None"
  by (induction xs rule: bracket_eq.induct) auto

lemma qs_part_pair:
  assumes "wf16 k" "wf16 v"
  shows "qs_part (qs_encode k @ str ''='' @ qs_encode v) = (k, v)"
proof -
  have e: "str ''='' = [61]" by (simp add: str_def)
  have n: "x \<notin> set (qs_encode k)" "x \<notin> set (qs_encode v)" if "\<not> safe_unit x" for x
    using that qs_encode_safe assms by blast+
  have "bracket_eq (qs_encode k @ 61 # qs_encode v) = None" using n not_safe(5) by (intro bracket_eq_none) auto
  moreover have "index_of 61 (qs_encode k @ 61 # qs_encode v) = Some (length (qs_encode k))"
    using n(1) not_safe(2) by (intro index_of_app) auto
  ultimately show ?thesis using assms by (simp add: e qs_part_def qs_decode_back)
qed

lemma brackets_none: "91 \<notin> set e \<Longrightarrow> brackets e = []"
  by (induction e) auto

text \<open>The parameters that survive: names without brackets that are not inherited, and strings as values.\<close>

definition flat :: "jsstring \<times> json \<Rightarrow> bool" where
  "flat f \<longleftrightarrow> fst f \<noteq> [] \<and> wf16 (fst f) \<and> 91 \<notin> set (fst f) \<and> fst f \<notin> set object_prototype \<and> (\<exists>v. snd f = JStr v \<and> wf16 v)"

lemma parseKeys_flat: "flat (k, v) \<Longrightarrow> parseKeys k v = JObj [(k, v)]"
proof -
  assume f: "flat (k, v)"
  then have "k \<noteq> str ''[]''" by (auto simp: flat_def str_def)
  moreover have "inner_name k = k" using f by (cases k) (auto simp: inner_name_def flat_def)
  ultimately show ?thesis using f
    by (auto simp: parseKeys_def flat_def brackets_none before_brackets_def Let_def split: option.splits)
qed

text \<open>Objects whose properties are in the order of the language: adding them one by one gives them in this order.\<close>

fun in_key_order :: "(jsstring \<times> 'v) list \<Rightarrow> bool" where
  "in_key_order [] = True"
| "in_key_order (f # fs) = ((\<forall>g\<in>set fs. \<not> comes_before (fst g) (fst f)) \<and> in_key_order fs)"

lemma obj_put_last:
  "k \<notin> fst ` set fs \<Longrightarrow> \<forall>f\<in>set fs. \<not> comes_before k (fst f) \<Longrightarrow> obj_put k v fs = fs @ [(k, v)]"
proof -
  assume k: "k \<notin> fst ` set fs" and b: "\<forall>f\<in>set fs. \<not> comes_before k (fst f)"
  have "obj_insert k v fs = fs @ [(k, v)]" using b by (induction fs) auto
  then show ?thesis using k by (simp add: obj_put_def)
qed

lemma in_key_order_app:
  "in_key_order (fs @ gs) \<longleftrightarrow> in_key_order fs \<and> in_key_order gs \<and> (\<forall>f\<in>set fs. \<forall>g\<in>set gs. \<not> comes_before (fst g) (fst f))"
  by (induction fs) auto

text \<open>A loop that puts the properties of an object one after the other.\<close>

lemma fold_puts:
  assumes "distinct (map fst (acc @ fs))" "in_key_order (acc @ fs)"
    and "\<And>f done. f \<in> set fs \<Longrightarrow> fst f \<notin> fst ` set done \<Longrightarrow> step f done = obj_put (fst f) (snd f) done"
  shows "fold step fs acc = acc @ fs"
  using assms
proof (induction fs arbitrary: acc)
  case (Cons f fs)
  have "step f acc = obj_put (fst f) (snd f) acc" using Cons.prems by (intro Cons.prems(3)) auto
  also have "\<dots> = acc @ [f]" using obj_put_last [of "fst f" acc "snd f"] Cons.prems(1,2) by (auto simp: in_key_order_app)
  finally show ?case using Cons.IH [of "acc @ [f]"] Cons.prems by simp
qed simp

definition pair_text :: "jsstring \<times> json \<Rightarrow> jsstring" where
  "pair_text f = qs_encode (fst f) @ str ''='' @ qs_encode (js_text (snd f))"

lemma stringify_flat:
  "\<forall>f\<in>set fs. flat f \<Longrightarrow> qs_stringify True w (JObj fs) = join [38] (map pair_text fs)"
proof -
  assume "\<forall>f\<in>set fs. flat f"
  then have "concat (map (\<lambda>(k, x). qs_pairs True w k x) fs) = map pair_text fs"
    by (induction fs) (auto simp: flat_def pair_text_def qs_pair_text_def)
  then show ?thesis by (simp add: qs_stringify_def str_def)
qed

lemma pair_text_back: "flat f \<Longrightarrow> qs_part (pair_text f) = (fst f, js_text (snd f))"
  using qs_part_pair [of "fst f" "js_text (snd f)"] by (auto simp: flat_def pair_text_def)

interpretation query_pairs: separated_text pair_text qs_part flat "\<lambda>f. (fst f, js_text (snd f))" 38
proof
  show "38 \<notin> set (pair_text f)" if "flat f" for f
    using that qs_encode_safe not_safe(1) by (auto simp: flat_def pair_text_def str_def)
qed (rule pair_text_back)

lemma parseValues_flat:
  assumes "fs \<noteq> []" "\<forall>f\<in>set fs. flat f" "distinct (keys fs)" "in_key_order fs" "length fs \<le> 1000"
  shows "parseValues (join [38] (map pair_text fs)) = fs"
proof -
  have part: "qs_part (pair_text f) = (fst f, js_text (snd f))" "JStr (js_text (snd f)) = snd f" if "f \<in> set fs" for f
    using assms(2) that pair_text_back [of f] by (auto simp: flat_def)
  have "split_on 38 (join [38] (map pair_text fs)) = map pair_text fs" using assms(1,2) by (rule query_pairs.split_joined)
  moreover have "fold (\<lambda>f n. let (l, c) = qs_part (pair_text f) in qs_put_value l (JStr c) n) fs [] = [] @ fs"
  proof (rule fold_puts)
    fix f :: "jsstring \<times> json" and d :: obj
    assume f: "f \<in> set fs" "fst f \<notin> fst ` set d"
    then have "map_of d (fst f) = None" by (simp add: map_of_eq_None_iff)
    then show "(let (l, c) = qs_part (pair_text f) in qs_put_value l (JStr c) d) = obj_put (fst f) (snd f) d"
      using part [OF f(1)] by (simp add: qs_put_value_def)
  qed (use assms in \<open>simp_all add: keys_def\<close>)
  ultimately show ?thesis using assms(5) by (simp add: parseValues_def fold_map comp_def)
qed

lemma merge_flat:
  assumes "\<forall>f\<in>set fs. flat f" "distinct (keys fs)" "in_key_order fs"
  shows "fold (\<lambda>(f, v) s. qs_merge s (parseKeys f v)) fs (JObj []) = JObj fs"
proof -
  let ?step = "\<lambda>f n. obj_fields (qs_merge (JObj n) (parseKeys (fst f) (snd f)))"
  have "fold (\<lambda>(f, v) s. qs_merge s (parseKeys f v)) gs (JObj acc) = JObj (fold ?step gs acc)" if "set gs \<subseteq> set fs" for gs acc
    using that
  proof (induction gs arbitrary: acc)
    case (Cons g gs)
    then have "parseKeys (fst g) (snd g) = JObj [(fst g, snd g)]" using assms(1) parseKeys_flat [of "fst g" "snd g"] by auto
    then show ?case using Cons by (simp add: split_beta)
  qed simp
  moreover have "fold ?step fs [] = [] @ fs"
  proof (rule fold_puts)
    fix f :: "jsstring \<times> json" and d :: obj
    assume f: "f \<in> set fs" "fst f \<notin> fst ` set d"
    then have "map_of d (fst f) = None" "parseKeys (fst f) (snd f) = JObj [(fst f, snd f)]"
      using assms(1) parseKeys_flat [of "fst f" "snd f"] by (simp_all add: map_of_eq_None_iff)
    then show "?step f d = obj_put (fst f) (snd f) d" by (cases f) simp
  qed (use assms in \<open>simp_all add: keys_def\<close>)
  ultimately show ?thesis by simp
qed

text \<open>
  C14: query parameters survive: parsing the query string that is printed for up to 1000 parameters, with strings as
  values, gives the same parameters in the same order, whatever characters names and values hold. A name may not be
  empty, hold an opening bracket or be a name of \<open>Object.prototype\<close>, and surrogates are paired.
\<close>

theorem qs_roundtrip:
  assumes "\<forall>f\<in>set fs. flat f" "distinct (keys fs)" "in_key_order fs" "length fs \<le> 1000"
  shows "qs_parse (qs_stringify True w (JObj fs)) = fs"
proof (cases "fs = []")
  case True
  then show ?thesis by (simp add: qs_stringify_def qs_parse_def)
next
  case False
  have "pair_text f \<noteq> []" for f by (simp add: pair_text_def str_def)
  then have "join [38] (map pair_text fs) \<noteq> []" using False by (cases fs; cases "tl fs") auto
  moreover have "map (\<lambda>(k, x). (k, compact_value x)) fs = fs" using assms(1) by (intro map_idI) (auto simp: flat_def)
  ultimately show ?thesis
    using parseValues_flat [OF False assms] merge_flat [OF assms(1-3)] by (simp add: stringify_flat [OF assms(1)] qs_parse_def)
qed

theorem qs_roundtrip_witness:
  "qs_parse (qs_stringify True Indices (JObj [(str ''q'', JStr (str ''a&b=c'')), (str ''lang'', JStr [233])])) =
    [(str ''q'', JStr (str ''a&b=c'')), (str ''lang'', JStr [233])]"
  by (rule qs_roundtrip)
    (simp_all add: flat_def keys_def object_prototype_def comes_before_def index_key_def digit_value_def str_def)

end
