(* ===== verification/Punycode.thy ===== *)
theory Punycode
  imports JS_Uri
begin

text \<open>
  The package \<open>punycode\<close>: host names with letters outside ASCII, as \<open>url\<close> uses it (\<open>toASCII\<close>), and back (\<open>toUnicode\<close>).
  Numbers are integers; the code keeps them below \<open>2^31\<close> by raising its overflow error. Input of \<open>decode\<close> with a control character below U+0016, whose digit would be negative, is
  not considered.
\<close>

section \<open>Code points\<close>

definition maxInt :: int where "maxInt = 2147483647"

text \<open>\<open>A\<close> (\<open>ucs2decode\<close>) and \<open>O\<close> (\<open>ucs2encode\<close>).\<close>

fun ucs2decode :: "jsstring \<Rightarrow> int list" where
  "ucs2decode [] = []"
| "ucs2decode [t] = [uint t]"
| "ucs2decode (t # n # cs) =
     (if 55296 \<le> uint t \<and> uint t \<le> 56319 then
        (if 64512 AND uint n = 56320 then (push_bit 10 (1023 AND uint t) + (1023 AND uint n) + 65536) # ucs2decode cs
         else uint t # ucs2decode (n # cs))
      else uint t # ucs2decode (n # cs))"

definition ucs2encode :: "int list \<Rightarrow> jsstring" where
  "ucs2encode e = from_char_codes (concat (map push_point e))"

section \<open>Digits and bias\<close>

definition digitToBasic :: "int \<Rightarrow> int" where
  "digitToBasic e = e + 22 + (if e < 26 then 75 else 0)"

function adapt_loop :: "int \<Rightarrow> int \<Rightarrow> int \<times> int" where
  "adapt_loop e r = (if e > 455 then adapt_loop (e div 35) (r + 36) else (e, r))"
  by pat_completeness auto
termination by (relation "measure (\<lambda>(e, r). nat e)") auto

declare adapt_loop.simps [simp del]

definition adapt :: "int \<Rightarrow> int \<Rightarrow> bool \<Rightarrow> int" where
  "adapt e t n =
     (let e1 = (if n then e div 700 else drop_bit 1 e); (e2, r) = adapt_loop (e1 + e1 div t) 0
      in (r * (e2 + 38) + 36 * e2) div (e2 + 38))"

definition threshold :: "int \<Rightarrow> int \<Rightarrow> int" where
  "threshold d i = (if d \<le> i then 1 else if d \<ge> i + 26 then 26 else d - i)"

section \<open>Encoding\<close>

text \<open>The variable-length number \<open>p\<close> in digits: the inner loop of \<open>encode\<close>.\<close>

function put_number :: "int \<Rightarrow> int \<Rightarrow> int \<Rightarrow> jsstring" where
  "put_number p d i =
     (let g = threshold d i
      in if p < g \<or> p < 0 then [word_of_int (digitToBasic p)]
         else word_of_int (digitToBasic (g + (p - g) mod (36 - g))) # put_number ((p - g) div (36 - g)) (d + 36) i)"
  by pat_completeness auto
termination
proof (relation "measure (\<lambda>(p, d, i). nat p)")
  fix p d i g :: int
  assume "g = threshold d i" "\<not> (p < g \<or> p < 0)"
  moreover from this have "1 \<le> g" "g \<le> 26" by (auto simp: threshold_def split: if_splits)
  moreover have "(p - g) div (36 - g) \<le> p - g" using calculation zdiv_mono2 [of "p - g" 1 "36 - g"] by simp
  ultimately show "(((p - g) div (36 - g), d + 36, i), p, d, i) \<in> measure (\<lambda>(p, d, i). nat p)" by auto
qed simp

declare put_number.simps [simp del]

text \<open>The state of \<open>encode\<close>: \<open>t\<close> the code point reached, \<open>n\<close> the distance, \<open>i\<close> the bias, \<open>r\<close> how many are done, \<open>k\<close> the output.\<close>

record puny =
  pt :: int
  pn :: int
  pi :: int
  pr :: int
  pk :: jsstring

definition overflow :: js_error where "overflow = RangeError"

definition next_point :: "int list \<Rightarrow> int \<Rightarrow> int" where
  "next_point e t = fold (\<lambda>y u. if y \<ge> t \<and> y < u then y else u) e maxInt"

definition encode_point :: "int \<Rightarrow> int \<Rightarrow> int \<Rightarrow> puny \<Rightarrow> puny js" where
  "encode_point b0 w y s =
     (let n = (if y < pt s then pn s + 1 else pn s)
      in if y < pt s \<and> n > maxInt then Inl overflow
         else if y = pt s then
           Inr (s\<lparr>pn := 0, pi := adapt n w (pr s = b0), pr := pr s + 1, pk := pk s @ put_number n 36 (pi s)\<rparr>)
         else Inr (s\<lparr>pn := n\<rparr>))"

text \<open>
  One turn of the outer loop. The number of code points handled up to this turn, plus one, is \<open>w\<close>; in the source it is
  a variable assigned once in the turn.
\<close>

definition encode_turn :: "int list \<Rightarrow> int \<Rightarrow> puny \<Rightarrow> puny js" where
  "encode_turn e b0 s =
     (let u = next_point e (pt s); w = pr s + 1
      in if u - pt s > (maxInt - pn s) div w then Inl overflow
         else
           js_bind (js_fold (encode_point b0 w) e (s\<lparr>pn := pn s + (u - pt s) * w, pt := u\<rparr>)) (\<lambda>s'.
             Inr (s'\<lparr>pn := pn s' + 1, pt := pt s' + 1\<rparr>)))"

fun encode_turns :: "nat \<Rightarrow> int list \<Rightarrow> int \<Rightarrow> puny \<Rightarrow> puny js" where
  "encode_turns fuel e b0 s =
     (if pr s \<ge> int (length e) then Inr s
      else (case fuel of 0 \<Rightarrow> Inl NeverReturns | Suc f \<Rightarrow> js_bind (encode_turn e b0 s) (encode_turns f e b0)))"

declare encode_turns.simps [simp del]

definition puny_encode :: "jsstring \<Rightarrow> jsstring js" where
  "puny_encode e0 =
     (let e = ucs2decode e0; k = map word_of_int (filter (\<lambda>y. y < 128) e); b0 = int (length k)
      in js_bind (encode_turns (length e) e b0 \<lparr>pt = 128, pn = 0, pi = 72, pr = b0, pk = (if k \<noteq> [] then k @ [45] else k)\<rparr>)
           (\<lambda>s. Inr (pk s)))"

section \<open>Decoding\<close>

definition basicToDigit :: "int \<Rightarrow> int" where
  "basicToDigit y = (if y - 48 < 10 then y - 22 else if y - 65 < 26 then y - 65 else if y - 97 < 26 then y - 97 else 36)"

text \<open>
  One number of the input: the inner loop of \<open>decode\<close>, from the characters left, with the value \<open>w\<close>, the weight \<open>a\<close> and
  the position \<open>u\<close>.
\<close>

fun get_number :: "jsstring \<Rightarrow> int \<Rightarrow> int \<Rightarrow> int \<Rightarrow> int \<Rightarrow> (jsstring \<times> int) js" where
  "get_number [] w a u bias = Inl (OtherError ''Invalid input'')"
| "get_number (c # cs) w a u bias =
     (let p = basicToDigit (uint c); d = threshold u bias
      in if p \<ge> 36 \<or> p > (maxInt - w) div a then Inl overflow
         else if p < d then Inr (cs, w + p * a)
         else if a > maxInt div (36 - d) then Inl overflow
         else get_number cs (w + p * a) (a * (36 - d)) (u + 36) bias)"

lemma get_number_shrinks: "get_number cs w a u bias = Inr (cs', w') \<Longrightarrow> length cs' < length cs"
proof (induction cs w a u bias rule: get_number.induct)
  case (2 c cs w a u bias)
  then show ?case by (force simp: Let_def split: if_splits)
qed simp

definition insert_at :: "nat \<Rightarrow> 'a \<Rightarrow> 'a list \<Rightarrow> 'a list" where
  "insert_at i x xs = take i xs @ x # drop i xs"

function decode_numbers :: "jsstring \<Rightarrow> int \<Rightarrow> int \<Rightarrow> int \<Rightarrow> int list \<Rightarrow> int list js" where
  "decode_numbers cs w x bias b =
     (if cs = [] then Inr b
      else
        (case get_number cs w 1 36 bias of
           Inl e \<Rightarrow> Inl e
         | Inr (cs', w') \<Rightarrow>
             (let t = int (length b) + 1
              in if w' div t > maxInt - x then Inl overflow
                 else decode_numbers cs' (w' mod t + 1) (x + w' div t) (adapt (w' - w) t (w = 0))
                        (insert_at (nat (w' mod t)) (x + w' div t) b))))"
  by pat_completeness auto
termination
  by (relation "measure (\<lambda>(cs, w, x, bias, b). length cs)") (auto dest: get_number_shrinks)

declare decode_numbers.simps [simp del]

fun last_index_of :: "code_unit \<Rightarrow> jsstring \<Rightarrow> nat option" where
  "last_index_of c [] = None"
| "last_index_of c (x # xs) =
     (case last_index_of c xs of Some i \<Rightarrow> Some (Suc i) | None \<Rightarrow> if x = c then Some 0 else None)"

definition puny_decode :: "jsstring \<Rightarrow> jsstring js" where
  "puny_decode e =
     (let n = (case last_index_of 45 e of None \<Rightarrow> 0 | Some i \<Rightarrow> i); basic = take n e
      in if \<exists>c\<in>set basic. uint c \<ge> 128 then Inl (OtherError ''Illegal input >= 0x80 (not a basic code point)'')
         else js_bind (decode_numbers (if n > 0 then drop (n + 1) e else e) 0 128 72 (map uint basic)) (\<lambda>b. Inr (ucs2encode b)))"

section \<open>Domains\<close>

definition is_dot :: "code_unit \<Rightarrow> bool" where
  "is_dot c \<longleftrightarrow> uint c \<in> {46, 12290, 65294, 65377}"

fun map_labels :: "(jsstring \<Rightarrow> jsstring js) \<Rightarrow> jsstring list \<Rightarrow> jsstring list js" where
  "map_labels f [] = Inr []"
| "map_labels f (x # xs) = js_bind (f x) (\<lambda>y. js_bind (map_labels f xs) (\<lambda>ys. Inr (y # ys)))"

definition mapDomain :: "(jsstring \<Rightarrow> jsstring js) \<Rightarrow> jsstring \<Rightarrow> jsstring js" where
  "mapDomain t e0 =
     (let n = split_on 64 e0; r = (if length n > 1 then n ! 0 @ [64] else []); e = (if length n > 1 then n ! 1 else e0)
      in js_bind (map_labels t (split_on 46 (map (\<lambda>c. if is_dot c then 46 else c) e))) (\<lambda>ls. Inr (r @ join [46] ls)))"

definition asciiLabel :: "jsstring \<Rightarrow> jsstring js" where
  "asciiLabel e =
     (if \<exists>c\<in>set e. uint c < 32 \<or> uint c > 126 then js_bind (puny_encode e) (\<lambda>p. Inr (str ''xn--'' @ p)) else Inr e)"

definition toASCII :: "jsstring \<Rightarrow> jsstring js" where
  "toASCII e = mapDomain asciiLabel e"

definition toUnicode :: "jsstring \<Rightarrow> jsstring js" where
  "toUnicode e =
     mapDomain (\<lambda>e. if take 4 e = str ''xn--'' then puny_decode (map lower_unit (drop 4 e)) else Inr e) e"

end
