(* ===== verification/Url.thy ===== *)
theory Url
  imports Punycode
begin

text \<open>
  The package \<open>url\<close>: parsing, printing and resolving URLs. A field that is \<open>null\<close> is \<^const>\<open>None\<close>. The query is kept as
  a string: no caller asks for it to be parsed. Lower case is that of ASCII.
\<close>

section \<open>URLs\<close>

record Url =
  protocol :: "jsstring option"
  slashes :: bool
  auth :: "jsstring option"
  host :: "jsstring option"
  port :: "jsstring option"
  hostname :: "jsstring option"
  hash :: "jsstring option"
  search :: "jsstring option"
  url_query :: "jsstring option"
  pathname :: "jsstring option"
  path :: "jsstring option"
  href :: "jsstring option"

definition empty_url :: Url where
  "empty_url = \<lparr>protocol = None, slashes = False, auth = None, host = None, port = None, hostname = None, hash = None,
     search = None, url_query = None, pathname = None, path = None, href = None\<rparr>"

definition given :: "jsstring option \<Rightarrow> bool" where
  "given x = (case x of None \<Rightarrow> False | Some s \<Rightarrow> s \<noteq> [])"

definition or_empty :: "jsstring option \<Rightarrow> jsstring" where
  "or_empty x = (case x of None \<Rightarrow> [] | Some s \<Rightarrow> s)"

definition or_opt :: "jsstring option \<Rightarrow> jsstring option \<Rightarrow> jsstring option" where
  "or_opt a b = (if given a then a else b)"

definition slashedProtocol :: "jsstring option \<Rightarrow> bool" where
  "slashedProtocol p \<longleftrightarrow>
     p \<in> Some ` set (map str [''http'', ''https'', ''ftp'', ''gopher'', ''file'', ''http:'', ''https:'', ''ftp:'', ''gopher:'', ''file:''])"

definition hostlessProtocol :: "jsstring option \<Rightarrow> bool" where
  "hostlessProtocol p \<longleftrightarrow> p \<in> {Some (str ''javascript''), Some (str ''javascript:'')}"

section \<open>Printing\<close>

fun replace_first :: "jsstring \<Rightarrow> jsstring \<Rightarrow> jsstring \<Rightarrow> jsstring" where
  "replace_first a b [] = []"
| "replace_first a b (c # cs) = (if take (length a) (c # cs) = a then b @ drop (length a) (c # cs) else c # replace_first a b cs)"

text \<open>\<open>encodeURIComponent\<close> prints \<open>%3A\<close> with an upper-case letter, so the case-insensitive search finds the same.\<close>

definition auth_text :: "jsstring option \<Rightarrow> jsstring js" where
  "auth_text a =
     (if given a then js_bind (encodeURIComponent (or_empty a)) (\<lambda>e. Inr (replace_first (str ''%3A'') (str '':'') e @ str ''@''))
      else Inr [])"

definition host_text :: "Url \<Rightarrow> jsstring \<Rightarrow> jsstring option" where
  "host_text u e =
     (if given (host u) then Some (e @ or_empty (host u))
      else if given (hostname u) then
        Some (e @ (let h = or_empty (hostname u) in if 58 \<notin> set h then h else str ''['' @ h @ str '']'') @
              (if given (port u) then str '':'' @ or_empty (port u) else []))
      else None)"

definition escape_path :: "jsstring \<Rightarrow> jsstring" where
  "escape_path n = concat (map (\<lambda>c. if c = 63 \<or> c = 35 then pct (uint c) else [c]) n)"

definition with_front :: "code_unit \<Rightarrow> jsstring \<Rightarrow> jsstring" where
  "with_front c r = (if r \<noteq> [] \<and> hd r \<noteq> c then c # r else r)"

definition format :: "Url \<Rightarrow> jsstring js" where
  "format u =
     js_bind (auth_text (auth u)) (\<lambda>e.
       let t0 = or_empty (protocol u); t = (if t0 \<noteq> [] \<and> last t0 \<noteq> 58 then t0 @ [58] else t0);
           i = host_text u e; n = or_empty (pathname u);
           sl = slashes u \<or> ((t = [] \<or> slashedProtocol (Some t)) \<and> i \<noteq> None);
           i' = (if sl then str ''//'' @ or_empty i else or_empty i);
           n' = (if sl then with_front 47 n else n)
       in Inr (t @ i' @ escape_path n' @ replace_first (str ''#'') (str ''%23'') (with_front 63 (or_empty (search u))) @
               with_front 35 (or_empty (hash u))))"

section \<open>Parsing\<close>

fun index_of_unit :: "code_unit \<Rightarrow> jsstring \<Rightarrow> nat option" where
  "index_of_unit c [] = None"
| "index_of_unit c (x # xs) = (if x = c then Some 0 else map_option Suc (index_of_unit c xs))"

definition fix_backslashes :: "jsstring \<Rightarrow> jsstring" where
  "fix_backslashes e =
     (let u = (case (index_of_unit 63 e, index_of_unit 35 e) of (Some i, Some j) \<Rightarrow> if i < j then 63 else 35 | _ \<Rightarrow> 35);
          l = split_on u e
      in join [u] (map (\<lambda>c. if c = 92 then 47 else c) (hd l) # tl l))"

definition trim_spaces :: "jsstring \<Rightarrow> jsstring" where
  "trim_spaces s = rev (dropWhile is_space (rev (dropWhile is_space s)))"

text \<open>\<open>s\<close>: a path, with a query or not, that holds no white space and does not start with three slashes.\<close>

definition simple_path :: "jsstring \<Rightarrow> (jsstring \<times> jsstring) option" where
  "simple_path b =
     (if take 1 b = [47] \<and> take 3 b \<noteq> [47, 47, 47] \<and> (\<forall>c\<in>set b. \<not> is_space c)
      then Some (takeWhile (\<lambda>c. c \<noteq> 63) b, dropWhile (\<lambda>c. c \<noteq> 63) b) else None)"

definition scheme_unit :: "code_unit \<Rightarrow> bool" where
  "scheme_unit c \<longleftrightarrow> alnum c \<or> uint c \<in> {46, 43, 45}"

definition scheme :: "jsstring \<Rightarrow> jsstring option" where
  "scheme b =
     (let p = takeWhile scheme_unit b
      in if p \<noteq> [] \<and> take 1 (drop (length p) b) = [58] then Some (p @ [58]) else None)"

text \<open>\<open>/^\/\/[^@\/]+@[^@\/]+/\<close>.\<close>

definition auth_like :: "jsstring \<Rightarrow> bool" where
  "auth_like b \<longleftrightarrow>
     (let r = drop 2 b; u = takeWhile (\<lambda>c. c \<noteq> 64 \<and> c \<noteq> 47) r; r' = drop (length u) r
      in take 2 b = [47, 47] \<and> u \<noteq> [] \<and> take 1 r' = [64] \<and> length r' > 1 \<and> r' ! 1 \<noteq> 64 \<and> r' ! 1 \<noteq> 47)"

text \<open>The first position of one of some characters.\<close>

definition first_of :: "code_unit list \<Rightarrow> jsstring \<Rightarrow> nat" where
  "first_of cs b = length (takeWhile (\<lambda>c. c \<notin> set cs) b)"

fun last_at :: "code_unit \<Rightarrow> jsstring \<Rightarrow> nat option" where
  "last_at c [] = None"
| "last_at c (x # xs) = (case last_at c xs of Some i \<Rightarrow> Some (Suc i) | None \<Rightarrow> if x = c then Some 0 else None)"

definition autoEscape :: "code_unit list" where
  "autoEscape = [39, 123, 125, 124, 92, 94, 96, 60, 62, 34, 96, 32, 13, 10, 9]"

definition nonHostChars :: "code_unit list" where
  "nonHostChars = [37, 47, 63, 59, 35] @ autoEscape"

text \<open>The authority: the user information ends at the last \<open>@\<close> before the path.\<close>

definition split_auth :: "jsstring \<Rightarrow> (jsstring option \<times> jsstring) js" where
  "split_auth b =
     (let k = first_of [47, 63, 35] b
      in case last_at 64 (if k = length b then b else take (k + 1) b) of
           None \<Rightarrow> Inr (None, b)
         | Some C \<Rightarrow> js_bind (decodeURIComponent (take C b)) (\<lambda>a. Inr (Some a, drop (C + 1) b)))"

definition is_digit :: "code_unit \<Rightarrow> bool" where
  "is_digit c \<longleftrightarrow> 48 \<le> uint c \<and> uint c \<le> 57"

text \<open>\<open>parseHost\<close>: the port and the name of a host.\<close>

definition parseHost :: "jsstring \<Rightarrow> jsstring option \<times> jsstring option" where
  "parseHost e =
     (let ds = rev (takeWhile is_digit (rev e)); front = take (length e - length ds) e
      in if front \<noteq> [] \<and> last front = 58 then
           (let h = butlast front in ((if ds \<noteq> [] then Some ds else None), (if h \<noteq> [] then Some h else None)))
         else (None, (if e \<noteq> [] then Some e else None)))"

definition label_unit :: "code_unit \<Rightarrow> bool" where
  "label_unit c \<longleftrightarrow> alnum c \<or> uint c \<in> {43, 95, 45}"

definition hostnamePart :: "jsstring \<Rightarrow> bool" where
  "hostnamePart s \<longleftrightarrow> length s \<le> 63 \<and> (\<forall>c\<in>set s. label_unit c)"

definition line_break :: "code_unit \<Rightarrow> bool" where
  "line_break c \<longleftrightarrow> uint c \<in> {10, 13, 8232, 8233}"

text \<open>
  The labels of a host name up to the first that is not one, and what the rest puts in front of the path. A label
  outside ASCII passes.
\<close>

fun check_labels :: "jsstring list \<Rightarrow> jsstring list \<Rightarrow> (jsstring \<times> jsstring) option" where
  "check_labels D [] = None"
| "check_labels D (I # L) =
     (if I = [] \<or> hostnamePart I \<or> hostnamePart (map (\<lambda>c. if uint c > 127 then 120 else c) I) then check_labels (D @ [I]) L
      else
        (let g = take 63 (takeWhile label_unit I); r = drop (length g) I; m = (\<forall>c\<in>set r. \<not> line_break c);
             D' = (if m then D @ [g] else D); L' = (if m then r # L else L)
         in Some (join [46] D', if L' \<noteq> [] then [47] @ join [46] L' else [])))"

definition is_ipv6 :: "jsstring \<Rightarrow> bool" where
  "is_ipv6 h \<longleftrightarrow> h \<noteq> [] \<and> hd h = 91 \<and> last h = 93"

definition parse_authority :: "Url \<Rightarrow> jsstring \<Rightarrow> (Url \<times> jsstring) js" where
  "parse_authority u b0 =
     js_bind (split_auth b0) (\<lambda>(a, b1).
       let k = first_of nonHostChars b1; (p, h0) = parseHost (take k b1); b2 = drop k b1; h1 = or_empty h0; P = is_ipv6 h1;
           (h2, b3) = (if P then (h1, b2) else (case check_labels [] (split_on 46 h1) of None \<Rightarrow> (h1, b2) | Some (h, r) \<Rightarrow> (h, r @ b2)));
           h3 = (if length h2 > 255 then [] else map lower_unit h2)
       in js_bind (if P then Inr h3 else toASCII h3) (\<lambda>h4.
            let hst = h4 @ (if given p then [58] @ or_empty p else []);
                h5 = (if P then butlast (tl h4) else h4);
                b4 = (if P \<and> take 1 b3 \<noteq> [47] then 47 # b3 else b3)
            in Inr (u\<lparr>auth := a, host := Some hst, port := p, hostname := Some h5\<rparr>, b4)))"

definition replace_unit :: "code_unit \<Rightarrow> jsstring \<Rightarrow> jsstring" where
  "replace_unit z b = concat (map (\<lambda>c. if c = z then pct (uint z) else [c]) b)"

definition parse_rest :: "Url \<Rightarrow> jsstring \<Rightarrow> Url" where
  "parse_rest u b0 =
     (let b1 = (if hostlessProtocol (protocol u) then b0 else fold replace_unit autoEscape b0);
          (b2, hs) = (case index_of_unit 35 b1 of None \<Rightarrow> (b1, None) | Some V \<Rightarrow> (take V b1, Some (drop V b1)));
          (b3, se) = (case index_of_unit 63 b2 of None \<Rightarrow> (b2, None) | Some H \<Rightarrow> (take H b2, Some (drop H b2)));
          pn0 = (if b3 \<noteq> [] then Some b3 else None);
          pn1 = (if slashedProtocol (protocol u) \<and> given (hostname u) \<and> \<not> given pn0 then Some [47] else pn0)
      in u\<lparr>hash := hs, search := se, url_query := map_option (drop 1) se, pathname := pn1,
           path := (if given pn1 \<or> given se then Some (or_empty pn1 @ or_empty se) else None)\<rparr>)"

definition url_parse :: "jsstring \<Rightarrow> bool \<Rightarrow> Url js" where
  "url_parse e0 n =
     (let e = fix_backslashes e0; b = trim_spaces e
      in case (if \<not> n \<and> 35 \<notin> set e then simple_path b else None) of
           Some (p, s) \<Rightarrow>
             Inr (empty_url\<lparr>path := Some b, href := Some b, pathname := Some p,
                    search := (if s \<noteq> [] then Some s else None), url_query := (if s \<noteq> [] then Some (drop 1 s) else None)\<rparr>)
         | None \<Rightarrow>
             (let w = scheme b; b1 = (case w of None \<Rightarrow> b | Some p \<Rightarrow> drop (length p) b);
                  x = (n \<or> w \<noteq> None \<or> auth_like b1) \<and> take 2 b1 = [47, 47]; sl = x \<and> \<not> hostlessProtocol w;
                  b2 = (if sl then drop 2 b1 else b1);
                  u0 = empty_url\<lparr>protocol := map_option (map lower_unit) w, slashes := sl\<rparr>
              in js_bind (if \<not> hostlessProtocol w \<and> (x \<or> w \<noteq> None \<and> \<not> slashedProtocol w) then parse_authority u0 b2 else Inr (u0, b2))
                   (\<lambda>(u1, b3).
                     let u2 = parse_rest u1 b3 in js_bind (format u2) (\<lambda>h. Inr (u2\<lparr>href := Some h\<rparr>)))))"

end
