(* ===== verification/Url_Resolve.thy ===== *)
theory Url_Resolve
  imports Url
begin

text \<open>
  Resolving one URL against another: \<open>resolve\<close> and \<open>resolveObject\<close> of the package \<open>url\<close>. The segments of a path are
  the strings between its slashes.
\<close>

section \<open>Segments\<close>

definition segments :: "jsstring option \<Rightarrow> jsstring list" where
  "segments p = (if given p then split_on 47 (or_empty p) else [])"

definition starts_slash :: "jsstring option \<Rightarrow> bool" where
  "starts_slash p \<longleftrightarrow> given p \<and> hd (or_empty p) = 47"

text \<open>
  The loop over the segments, from the last to the first (the argument is reversed): a dot goes, two dots go and take
  the next segment with them. The number of segments that are still to be taken is returned.
\<close>

fun remove_dots :: "nat \<Rightarrow> jsstring list \<Rightarrow> jsstring list \<times> nat" where
  "remove_dots A [] = ([], A)"
| "remove_dots A (C # x) =
     (if C = str ''.'' then remove_dots A x
      else if C = str ''..'' then remove_dots (Suc A) x
      else if A > 0 then remove_dots (A - 1) x
      else (let (y, a) = remove_dots A x in (C # y, a)))"

definition slash_head :: "jsstring list \<Rightarrow> bool" where
  "slash_head x \<longleftrightarrow> x \<noteq> [] \<and> (hd x = [] \<or> hd (hd x) = 47)"

text \<open>The host in front of the path of a URL without slashes.\<close>

definition push_host :: "jsstring option \<Rightarrow> jsstring list \<Rightarrow> jsstring list" where
  "push_host h x =
     (if \<not> given h then x else if x \<noteq> [] \<and> hd x = [] then or_empty h # tl x else or_empty h # x)"

text \<open>A host with user information, \<open>n.host.split("@")\<close>.\<close>

definition split_host :: "Url \<Rightarrow> Url" where
  "split_host n =
     (let h = or_empty (host n)
      in case index_of_unit 64 h of
           Some (Suc i) \<Rightarrow> n\<lparr>auth := Some (split_on 64 h ! 0), host := Some (split_on 64 h ! 1), hostname := Some (split_on 64 h ! 1)\<rparr>
         | _ \<Rightarrow> n)"

definition set_path :: "Url \<Rightarrow> Url" where
  "set_path n =
     (if pathname n = None \<and> search n = None then n else n\<lparr>path := Some (or_empty (pathname n) @ or_empty (search n))\<rparr>)"

definition finish :: "Url \<Rightarrow> Url js" where
  "finish n = js_bind (format n) (\<lambda>h. Inr (n\<lparr>href := Some h\<rparr>))"

section \<open>Resolving\<close>

text \<open>A reference to another protocol: the first segment is the host when it has none.\<close>

definition host_from_path :: "Url \<Rightarrow> Url \<times> jsstring option" where
  "host_from_path e =
     (let h = split_on 47 (or_empty (pathname e)); r = dropWhile (\<lambda>s. s = []) h;
          hst = (case r of [] \<Rightarrow> [] | x # _ \<Rightarrow> x); h1 = (case r of [] \<Rightarrow> [] | _ # xs \<Rightarrow> xs);
          h2 = (if take 1 h1 = [[]] then h1 else [] # h1); h3 = (if length h2 < 2 then [] # h2 else h2)
      in (e\<lparr>host := Some hst, hostname := Some (or_empty (hostname e))\<rparr>, Some (join [47] h3)))"

definition other_protocol :: "Url \<Rightarrow> Url \<Rightarrow> Url" where
  "other_protocol n e0 =
     (let (e, p) = (if given (host e0) \<or> hostlessProtocol (protocol e0) then (e0, pathname e0) else host_from_path e0);
          n1 = n\<lparr>protocol := protocol e, pathname := p, search := search e, url_query := url_query e,
                 host := Some (or_empty (host e)), auth := auth e, hostname := or_opt (hostname e) (host e), port := port e\<rparr>;
          n2 = (if given (pathname n1) \<or> given (search n1) then n1\<lparr>path := Some (or_empty (pathname n1) @ or_empty (search n1))\<rparr> else n1)
      in n2\<lparr>slashes := slashes n2 \<or> slashes e\<rparr>)"

text \<open>
  The segments of the result, from those of both URLs, and the fields of the reference that it takes: the reference has
  a host or an absolute path (\<open>ab\<close>), or a relative path.
\<close>

definition keep_or :: "jsstring option \<Rightarrow> jsstring option \<Rightarrow> jsstring option" where
  "keep_or a b = (if a \<noteq> None then a else b)"

definition clean_segments :: "Url \<Rightarrow> Url \<Rightarrow> bool \<Rightarrow> bool \<Rightarrow> jsstring list \<Rightarrow> jsstring list" where
  "clean_segments n e w E x =
     (let C = last x; k = ((given (host n) \<or> given (host e) \<or> length x > 1) \<and> (C = str ''.'' \<or> C = str ''..'')) \<or> C = [];
          (y, A) = remove_dots 0 (rev x); x1 = rev y;
          x2 = (if \<not> w \<and> \<not> E then replicate A (str ''..'') @ x1 else x1);
          x3 = (if w \<and> \<not> slash_head x2 then [] # x2 else x2);
          j = join [47] x3
      in if k \<and> (j = [] \<or> last j \<noteq> 47) then x3 @ [[]] else x3)"

definition put_segments :: "Url \<Rightarrow> Url \<Rightarrow> bool \<Rightarrow> bool \<Rightarrow> jsstring list \<Rightarrow> Url js" where
  "put_segments n0 e w S x0 =
     (let T = slash_head x0;
          (n1, x1) = (if S then (if T then (n0\<lparr>host := Some [], hostname := Some []\<rparr>, x0)
                                 else (case x0 of [] \<Rightarrow> (n0\<lparr>host := Some [], hostname := Some []\<rparr>, [])
                                       | h # t \<Rightarrow> (split_host (n0\<lparr>host := Some h, hostname := Some h\<rparr>), t)))
                      else (n0, x0));
          w' = (w \<or> given (host n1) \<and> x1 \<noteq> []);
          x2 = (if w' \<and> \<not> T then [] # x1 else x1);
          n2 = (if x2 \<noteq> [] then n1\<lparr>pathname := Some (join [47] x2)\<rparr> else n1\<lparr>pathname := None, path := None\<rparr>);
          n3 = set_path n2
      in finish (n3\<lparr>auth := or_opt (auth e) (auth n3), slashes := slashes n3 \<or> slashes e\<rparr>))"

definition resolve_path :: "Url \<Rightarrow> Url \<Rightarrow> Url js" where
  "resolve_path n0 e0 =
     (let b = starts_slash (pathname n0); ab = given (host e0) \<or> starts_slash (pathname e0);
          w0 = (ab \<or> b \<or> given (host n0) \<and> given (pathname e0));
          S = (given (protocol n0) \<and> \<not> slashedProtocol (protocol n0));
          x0 = segments (pathname n0); h0 = segments (pathname e0);
          x1 = (if S then push_host (host n0) x0 else x0);
          h1 = (if S \<and> given (protocol e0) then push_host (host e0) h0 else h0);
          n1 = (if S then n0\<lparr>hostname := Some [], port := None, host := Some []\<rparr> else n0);
          e = (if S \<and> given (protocol e0) then e0\<lparr>hostname := None, port := None, host := None\<rparr> else e0);
          w = (if S then w0 \<and> (take 1 h1 = [[]] \<or> take 1 x1 = [[]]) else w0)
      in if \<not> ab \<and> h1 = [] \<and> search e \<noteq> None then
           (let n2 = (if S then (case x1 of [] \<Rightarrow> n1\<lparr>host := None, hostname := None\<rparr>
                                 | h # _ \<Rightarrow> split_host (n1\<lparr>host := Some h, hostname := Some h\<rparr>)) else n1)
            in finish (set_path (n2\<lparr>search := search e, url_query := url_query e\<rparr>)))
         else
           (let (n2, x2) =
                  (if ab then (n1\<lparr>host := keep_or (host e) (host n1), hostname := keep_or (hostname e) (hostname n1),
                                  search := search e, url_query := url_query e\<rparr>, h1)
                   else if h1 \<noteq> [] then (n1\<lparr>search := search e, url_query := url_query e\<rparr>, butlast x1 @ h1)
                   else (n1, x1))
            in if x2 = [] then
                 finish (n2\<lparr>pathname := None, path := (if given (search n2) then Some (47 # or_empty (search n2)) else None)\<rparr>)
               else put_segments n2 e w S (clean_segments n2 e w w0 x2)))"

definition resolveObject :: "Url \<Rightarrow> Url \<Rightarrow> Url js" where
  "resolveObject this e =
     (let n = this\<lparr>hash := hash e\<rparr>
      in if href e = Some [] then finish n
         else if slashes e \<and> \<not> given (protocol e) then
           (let n1 = e\<lparr>protocol := protocol n\<rparr>;
                n2 = (if slashedProtocol (protocol n1) \<and> given (hostname n1) \<and> \<not> given (pathname n1)
                      then n1\<lparr>pathname := Some [47], path := Some [47]\<rparr> else n1)
            in finish n2)
         else if given (protocol e) \<and> protocol e \<noteq> protocol n then
           (if \<not> slashedProtocol (protocol e) then finish e else finish (other_protocol n e))
         else resolve_path n e)"

definition url_resolve :: "jsstring \<Rightarrow> jsstring \<Rightarrow> jsstring js" where
  "url_resolve e t =
     js_bind (url_parse e True) (\<lambda>b. js_bind (url_parse t True) (\<lambda>r. js_bind (resolveObject b r) format))"

section \<open>No dots are left\<close>

lemma remove_dots_clean: "C \<in> set (fst (remove_dots A x)) \<Longrightarrow> C \<in> set x \<and> C \<noteq> str ''.'' \<and> C \<noteq> str ''..''"
proof (induction A x rule: remove_dots.induct)
  case (2 A C x)
  then show ?case by (auto simp: split_beta Let_def split: if_splits)
qed simp

lemma split_on_parts: "s \<in> set (split_on c xs) \<Longrightarrow> c \<notin> set s"
proof (induction xs arbitrary: s)
  case (Cons x xs)
  obtain p ps where p: "split_on c xs = p # ps" using split_nonempty by (meson list.exhaust)
  then have "s = [] \<or> s \<in> set (p # ps) \<or> (s = x # p \<and> x \<noteq> c)" using Cons.prems by (auto split: if_splits)
  then show ?case using Cons.IH [of s] Cons.IH [of p] p by auto
qed simp

lemma segments_parts: "s \<in> set (segments p) \<Longrightarrow> 47 \<notin> set s"
  by (auto simp: segments_def split_on_parts split: if_splits)

definition tidy :: "jsstring list \<Rightarrow> bool" where
  "tidy x \<longleftrightarrow> (\<forall>C\<in>set x. 47 \<notin> set C \<and> C \<noteq> str ''.'' \<and> C \<noteq> str ''..'')"

lemma clean_segments_tidy:
  assumes "\<forall>s\<in>set x. 47 \<notin> set s"
  shows "tidy (clean_segments n e True E x) \<and> take 1 (clean_segments n e True E x) = [[]]"
proof -
  let ?x1 = "rev (fst (remove_dots 0 (rev x)))"
  have "C \<in> set ?x1 \<Longrightarrow> 47 \<notin> set C \<and> C \<noteq> str ''.'' \<and> C \<noteq> str ''..''" for C
    using remove_dots_clean [of C 0 "rev x"] assms by auto
  then have t: "tidy ?x1" by (auto simp: tidy_def)
  have "[] \<noteq> str ''.''" "[] \<noteq> str ''..''" by (simp_all add: str_def)
  then have c: "tidy ([] # ?x1)" "tidy ([] # ?x1 @ [[]])" "tidy (?x1 @ [[]])" using t by (auto simp: tidy_def)
  have "\<exists>ys. clean_segments n e True E x = ([] # ys) \<and> ([] # ys = ?x1 \<or> [] # ys = [] # ?x1 \<or> [] # ys = ?x1 @ [[]] \<or> [] # ys = [] # ?x1 @ [[]])"
  proof (cases "slash_head ?x1")
    case True
    then obtain ys where "?x1 = [] # ys" using t by (cases ?x1; cases "hd ?x1") (auto simp: slash_head_def tidy_def)
    then show ?thesis using True by (simp add: clean_segments_def Let_def split_beta)
  qed (simp add: clean_segments_def Let_def split_beta)
  then obtain ys where "clean_segments n e True E x = [] # ys" "tidy ([] # ys)" using t c by metis
  then show ?thesis by simp
qed

lemma put_segments_pathname:
  assumes "put_segments n e True False x = Inr u" "take 1 x = [[]]"
  shows "pathname u = Some (join [47] x)"
proof -
  obtain xs where x: "x = [] # xs" using assms(2) by (cases x) auto
  then have "slash_head x" by (simp add: slash_head_def)
  then show ?thesis using assms(1) x by (auto simp: put_segments_def Let_def finish_def set_path_def js_bind_eq_Inr)
qed


lemma finish_returns: "auth n = None \<Longrightarrow> \<exists>u. finish n = Inr u"
  by (simp add: finish_def format_def auth_text_def given_def Let_def)

lemma put_segments_returns: "auth n = None \<Longrightarrow> auth e = None \<Longrightarrow> \<exists>u. put_segments n e w False x = Inr u"
  unfolding put_segments_def Let_def by (auto intro!: finish_returns simp: set_path_def or_opt_def given_def)

lemma resolve_returns:
  assumes "slashedProtocol (protocol b)" "\<not> slashes e" "protocol e = None" "auth b = None" "auth e = None"
  shows "\<exists>u. resolveObject b e = Inr u"
  using assms by (auto simp: resolveObject_def resolve_path_def given_def Let_def set_path_def split: prod.splits
    intro!: finish_returns put_segments_returns)

definition sample_base :: Url where
  "sample_base = empty_url\<lparr>protocol := Some (str ''http:''), slashes := True, host := Some (str ''h''), hostname := Some (str ''h''),
     pathname := Some (str ''/x/a'')\<rparr>"

definition sample_reference :: Url where
  "sample_reference = empty_url\<lparr>pathname := Some (str ''../../b''), href := Some (str ''../../b'')\<rparr>"


end
