(* ===== verification/Swg_Ops.thy ===== *)
theory Swg_Ops
  imports Swg_Style
begin

text \<open>
  The helpers of the API client (\<open>helpers\<close> of \<open>swagger-client\<close>): identifiers of operations, the enumeration of the
  operations of a specification, and the normalisation of a specification.

  Upper and lower case are those of ASCII; they are only applied to the names of HTTP methods.
\<close>

section \<open>Identifiers of operations\<close>

definition toLowerCase :: "jsstring \<Rightarrow> jsstring" where
  "toLowerCase s = map lower_unit s"

definition toUpperCase :: "jsstring \<Rightarrow> jsstring" where
  "toUpperCase s = map upper_unit s"

text \<open>\<open>h\<close> (\<open>escapeString\<close>): what is not a letter, a digit or an underscore becomes an underscore.\<close>

definition escapeString :: "jsstring \<Rightarrow> jsstring" where
  "escapeString e = map (\<lambda>c. if alnum c \<or> c = 95 then c else 95) e"

text \<open>The characters that the compatibility mode replaces, runs of underscores made one, and the ends trimmed.\<close>

definition v2_special :: "code_unit \<Rightarrow> bool" where
  "v2_special c \<longleftrightarrow> is_space c \<or> c \<in> set (str ''!@#$%^&*()_+=[{]};:<>|./?,'-'') \<or> c = 34 \<or> c = 92"

fun squeeze :: "jsstring \<Rightarrow> jsstring" where
  "squeeze (c # d # cs) = (if c = 95 \<and> d = 95 then squeeze (d # cs) else c # squeeze (d # cs))"
| "squeeze s = s"

definition strip_ends :: "jsstring \<Rightarrow> jsstring" where
  "strip_ends s = rev (dropWhile (\<lambda>c. c = 95) (rev (dropWhile (\<lambda>c. c = 95) s)))"

definition idFromPathMethod :: "jsstring \<Rightarrow> jsstring \<Rightarrow> bool \<Rightarrow> jsstring" where
  "idFromPathMethod e t v2 =
     (if v2 then
        (let n = map (\<lambda>c. if v2_special c then 95 else c) (toLowerCase t @ [95] @ e);
             n' = (if n = [] then drop 1 e @ [95] @ t else n)
         in strip_ends (squeeze n'))
      else toLowerCase t @ escapeString e)"

definition legacyIdFromPathMethod :: "jsstring \<Rightarrow> jsstring \<Rightarrow> jsstring" where
  "legacyIdFromPathMethod e t = toLowerCase t @ str ''-'' @ e"

definition is_objectlike :: "json \<Rightarrow> bool" where
  "is_objectlike v \<longleftrightarrow> truthy v \<and> type_of v = ''object''"

definition opId :: "json \<Rightarrow> jsstring \<Rightarrow> jsstring \<Rightarrow> bool \<Rightarrow> jsstring option js" where
  "opId e t n v2 =
     (if is_objectlike e then
        js_bind (get_prop e ''operationId'') (\<lambda>i.
          case js_or i (JStr []) of
            JStr s \<Rightarrow> Inr (Some (if filter (\<lambda>c. \<not> is_space c) s \<noteq> [] then escapeString s else idFromPathMethod t n v2))
          | _ \<Rightarrow> Inl TypeError)
      else Inr None)"

section \<open>Enumerating operations\<close>

text \<open>The pairs that \<open>for ... in\<close> visits.\<close>

fun enum_from :: "nat \<Rightarrow> 'a list \<Rightarrow> (jsstring \<times> 'a) list" where
  "enum_from i [] = []"
| "enum_from i (x # xs) = (nat_text i, x) # enum_from (Suc i) xs"

definition for_in :: "json \<Rightarrow> (jsstring \<times> json) list" where
  "for_in v =
     (case v of JObj fs \<Rightarrow> fs | JArr xs \<Rightarrow> enum_from 0 xs | JStr s \<Rightarrow> enum_from 0 (map (\<lambda>c. JStr [c]) s) | _ \<Rightarrow> [])"

lemma for_in_JObj [simp]: "for_in (JObj fs) = fs"
  by (simp add: for_in_def)

record operation_ref =
  pathName :: jsstring
  op_method :: jsstring
  operation :: json

definition path_operations :: "jsstring \<Rightarrow> json \<Rightarrow> operation_ref list" where
  "path_operations p v =
     concat (map (\<lambda>(i, a).
       if toUpperCase i \<noteq> str ''PARAMETERS'' \<and> is_objectlike a
       then [\<lparr>pathName = p, op_method = toUpperCase i, operation = a\<rparr>] else []) (for_in v))"

text \<open>The operations that \<open>s\<close> (\<open>eachOperation\<close>) visits, in order.\<close>

definition operations :: "json \<Rightarrow> operation_ref list" where
  "operations e =
     (if \<not> is_objectlike e then []
      else (let r = field (obj_fields e) ''paths''
            in if is_objectlike r then concat (map (\<lambda>(p, v). path_operations p v) (for_in r)) else []))"

fun find_first :: "('a \<Rightarrow> bool js) \<Rightarrow> 'a list \<Rightarrow> 'a option js" where
  "find_first p [] = Inr None"
| "find_first p (x # xs) = js_bind (p x) (\<lambda>b. if b then Inr (Some x) else find_first p xs)"

definition findOperation :: "json \<Rightarrow> (operation_ref \<Rightarrow> bool js) \<Rightarrow> operation_ref option js" where
  "findOperation e t = find_first t (operations e)"

definition eachOperation :: "json \<Rightarrow> (operation_ref \<Rightarrow> 's \<Rightarrow> 's js) \<Rightarrow> 's \<Rightarrow> 's js" where
  "eachOperation e t s = js_fold t (operations e) s"

definition names_operation :: "json \<Rightarrow> operation_ref \<Rightarrow> bool js" where
  "names_operation t e =
     js_bind (opId (operation e) (pathName e) (op_method e) False) (\<lambda>i.
       let ids = [(case i of None \<Rightarrow> JNull | Some s \<Rightarrow> JStr s), JStr (legacyIdFromPathMethod (pathName e) (op_method e)),
                  field (obj_fields (operation e)) ''operationId'']
       in Inr (\<exists>x\<in>set ids. truthy x \<and> x = t))"

definition getOperationRaw :: "json \<Rightarrow> json \<Rightarrow> operation_ref option js" where
  "getOperationRaw e t =
     (if \<not> truthy e then Inr None
      else js_bind (get_prop e ''paths'') (\<lambda>p. if truthy p then findOperation e (names_operation t) else Inr None))"

section \<open>Versions\<close>

text \<open>\<open>startsWith\<close> of lodash, whose first argument is turned into a string (\<open>undefined\<close> and \<open>null\<close> into the empty one).\<close>

definition to_string :: "json \<Rightarrow> jsstring" where
  "to_string v = (if v = JUndef \<or> v = JNull then [] else js_text v)"

definition startsWith :: "json \<Rightarrow> jsstring \<Rightarrow> bool" where
  "startsWith e t \<longleftrightarrow> take (length t) (to_string e) = t"

definition isOAS3 :: "json \<Rightarrow> bool js" where
  "isOAS3 e = js_bind (get_prop e ''openapi'') (\<lambda>t. Inr (truthy t \<and> startsWith t (str ''3'')))"

definition isSwagger2 :: "json \<Rightarrow> bool js" where
  "isSwagger2 e = js_bind (get_prop e ''swagger'') (\<lambda>t. Inr (truthy t \<and> startsWith t (str ''2'')))"

end
