(* ===== verification/JS_Json.thy ===== *)
theory JS_Json
  imports Swg_Style
begin

text \<open>\<open>JSON.stringify\<close>, as far as values of \<^typ>\<open>json\<close> go: \<open>None\<close> stands for the result \<open>undefined\<close>.\<close>

definition hex4 :: "int \<Rightarrow> jsstring" where
  "hex4 n = [hex_digit (n div 4096 mod 16), hex_digit (n div 256 mod 16), hex_digit (n div 16 mod 16), hex_digit (n mod 16)]"

definition quote_char :: "jsstring \<Rightarrow> jsstring" where
  "quote_char e =
     (case e of
        [c] \<Rightarrow>
          (if c = 34 \<or> c = 92 then [92, c]
           else if c = 8 then [92, 98] else if c = 9 then [92, 116] else if c = 10 then [92, 110]
           else if c = 12 then [92, 102] else if c = 13 then [92, 114]
           else if uint c < 32 \<or> (55296 \<le> uint c \<and> uint c \<le> 57343) then [92, 117] @ hex4 (uint c)
           else [c])
      | _ \<Rightarrow> e)"

definition json_quote :: "jsstring \<Rightarrow> jsstring" where
  "json_quote s = [34] @ concat (map quote_char (stringToCharArray s)) @ [34]"

definition field_text :: "jsstring \<times> jsstring option \<Rightarrow> jsstring list" where
  "field_text f = (case snd f of None \<Rightarrow> [] | Some t \<Rightarrow> [json_quote (fst f) @ str '':'' @ t])"

fun json_stringify :: "json \<Rightarrow> jsstring option" where
  "json_stringify JNull = Some (str ''null'')"
| "json_stringify (JBool b) = Some (if b then str ''true'' else str ''false'')"
| "json_stringify (JNum t) =
     Some (if t \<in> {str ''NaN'', str ''Infinity'', str ''-Infinity''} then str ''null'' else t)"
| "json_stringify (JStr s) = Some (json_quote s)"
| "json_stringify (JArr xs) =
     Some (str ''['' @ join (str '','') (map (\<lambda>x. case json_stringify x of None \<Rightarrow> str ''null'' | Some t \<Rightarrow> t) xs) @ str '']'')"
| "json_stringify (JObj fs) =
     Some (str ''{'' @ join (str '','') (concat (map field_text (map (\<lambda>(k, x). (k, json_stringify x)) fs))) @ str ''}'')"
| "json_stringify (JFile n) = Some (str ''{}'')"
| "json_stringify JUndef = None"
| "json_stringify (JFun n) = None"

end
