(* ===== verification/Swg_Http.thy ===== *)
theory Swg_Http
  imports Swg_Ops JS_Json Qs
begin

text \<open>
  The HTTP part of the API client (\<open>http\<close> of \<open>swagger-client\<close>): how the query and the form of a request become its
  URL and body, how the headers and the body of a response are read, and the steps of one request.

  The network (\<open>fetch\<close>), the interceptors and the parsers of JSON and YAML are arguments. A promise that rejects
  is a value \<open>Inl\<close>.
\<close>

section \<open>Requests\<close>

datatype body = NoBody | Body json | FormData "(jsstring \<times> json) list"

record request =
  url :: jsstring
  credentials :: jsstring
  headers :: obj
  cookies :: obj
  query :: json
  form :: json
  req_body :: body
  http_method :: jsstring

definition isFile :: "json \<Rightarrow> bool" where
  "isFile e = (case e of JFile _ \<Rightarrow> True | _ \<Rightarrow> False)"

text \<open>The separators of the collection formats; \<open>join(undefined)\<close> puts commas.\<close>

definition format_separator :: "json \<Rightarrow> jsstring" where
  "format_separator n =
     (case obj_at [(str ''csv'', JStr (str '','')), (str ''ssv'', JStr (str ''%20'')), (str ''tsv'', JStr (str ''%09'')),
                   (str ''pipes'', JStr (str ''|''))] (js_text n) of
        JUndef \<Rightarrow> str '',''
      | v \<Rightarrow> js_text v)"

definition encode_uri :: "json \<Rightarrow> json js" where
  "encode_uri v = js_bind (encodeURIComponent (js_text v)) (\<lambda>s. Inr (JStr s))"

definition stringify_value :: "json \<Rightarrow> json js" where
  "stringify_value v = Inr (case json_stringify v of None \<Rightarrow> JUndef | Some s \<Rightarrow> JStr s)"

fun map_js :: "('a \<Rightarrow> 'b js) \<Rightarrow> 'a list \<Rightarrow> 'b list js" where
  "map_js f [] = Inr []"
| "map_js f (x # xs) = js_bind (f x) (\<lambda>y. js_bind (map_js f xs) (\<lambda>ys. Inr (y # ys)))"

text \<open>\<open>u\<close> (\<open>formatValue\<close>).\<close>

definition formatValue :: "json \<Rightarrow> bool \<Rightarrow> json js" where
  "formatValue e t =
     js_bind (get_prop e ''collectionFormat'') (\<lambda>n.
     js_bind (get_prop e ''allowEmptyValue'') (\<lambda>r.
       let v = (case e of JObj fs \<Rightarrow> field fs ''value'' | JArr _ \<Rightarrow> JUndef | JFile _ \<Rightarrow> JUndef | _ \<Rightarrow> e);
           i = (if t then (if type_of v = ''string'' then Inr else stringify_value) else encode_uri)
       in if v = JUndef \<and> truthy r then Inr (JStr [])
          else if isFile v \<or> type_of v = ''boolean'' then Inr v
          else
            (case v of
               JArr xs \<Rightarrow>
                 js_bind (map_js i xs) (\<lambda>ys.
                   if \<not> truthy n then Inr (JStr (join_items (str '','') ys))
                   else if n = JStr (str ''multi'') then Inr (JArr ys)
                   else Inr (JStr (join_items (format_separator n) ys)))
             | _ \<Rightarrow> if type_of v = ''object'' then Inr (JStr []) else i v)))"

text \<open>\<open>s\<close> (\<open>encodeFormOrQuery\<close>).\<close>

definition encode_field :: "jsstring \<times> json \<Rightarrow> obj \<Rightarrow> obj js" where
  "encode_field f t =
     (let (n, r) = f
      in js_bind (get_prop r ''skipEncoding'') (\<lambda>sk.
           js_bind (if truthy sk then Inr n else encodeURIComponent n) (\<lambda>i.
             js_bind (formatValue (if is_objectlike r \<and> \<not> is_arr r then r else JObj [(str ''value'', r)]) (truthy sk)) (\<lambda>v.
               Inr (obj_put i v t)))))"

definition encodeFormOrQuery :: "json \<Rightarrow> jsstring js" where
  "encodeFormOrQuery e = js_bind (js_fold encode_field (for_in e) []) (\<lambda>t. Inr (qs_stringify False Repeat (JObj t)))"

fun has_sub :: "jsstring \<Rightarrow> jsstring \<Rightarrow> bool" where
  "has_sub p [] \<longleftrightarrow> p = []"
| "has_sub p (c # cs) \<longleftrightarrow> take (length p) (c # cs) = p \<or> has_sub p cs"

definition is_multipart :: "json \<Rightarrow> bool" where
  "is_multipart p \<longleftrightarrow> has_sub (str ''multipart/form-data'') (toLowerCase (js_text p))"

definition content_type :: "obj \<Rightarrow> json" where
  "content_type h = js_or (field h ''content-type'') (field h ''Content-Type'')"

text \<open>\<open>append\<close> of a \<open>FormData\<close> turns what is not a file into a string.\<close>

definition form_entry :: "jsstring \<times> json \<Rightarrow> (jsstring \<times> json) js" where
  "form_entry f = js_bind (formatValue (snd f) True) (\<lambda>v. Inr (fst f, if isFile v then v else JStr (js_text v)))"

definition file_field :: "jsstring \<times> json \<Rightarrow> bool js" where
  "file_field f = js_bind (get_prop (snd f) ''value'') (\<lambda>v. Inr (isFile v))"

fun any_of :: "('a \<Rightarrow> bool js) \<Rightarrow> 'a list \<Rightarrow> bool js" where
  "any_of p [] = Inr False"
| "any_of p (x # xs) = js_bind (p x) (\<lambda>b. if b then Inr True else any_of p xs)"

definition merge_form :: "request \<Rightarrow> request js" where
  "merge_form e =
     (let i = form e
      in if \<not> truthy i then Inr e
         else
           js_bind (any_of file_field (for_in i)) (\<lambda>l.
             if l \<or> is_multipart (content_type (headers e)) then
               js_bind (map_js form_entry (for_in i)) (\<lambda>fs. Inr (e\<lparr>req_body := FormData fs, form := JUndef\<rparr>))
             else js_bind (encodeFormOrQuery i) (\<lambda>s. Inr (e\<lparr>req_body := Body (JStr s), form := JUndef\<rparr>))))"

definition join_queries :: "jsstring list \<Rightarrow> jsstring" where
  "join_queries ts =
     (let r = join (str ''&'') (filter (\<lambda>t. t \<noteq> []) ts) in if r \<noteq> [] then str ''?'' @ r else [])"

definition without_keys :: "obj \<Rightarrow> jsstring list \<Rightarrow> obj" where
  "without_keys fs ks = fold obj_del ks fs"

definition merge_query :: "request \<Rightarrow> request js" where
  "merge_query e =
     (let q = query e
      in if \<not> truthy q then Inr e
         else
           (let v = split_on 63 (url e); g = v ! 0; y = (if length v > 1 then v ! 1 else []);
                b = (if y \<noteq> [] then qs_stringify True Indices (JObj (without_keys (qs_parse y) (map fst (for_in q)))) else [])
            in js_bind (encodeFormOrQuery q) (\<lambda>s. Inr (e\<lparr>url := g @ join_queries [b, s], query := JUndef\<rparr>))))"

definition mergeInQueryOrForm :: "request \<Rightarrow> request js" where
  "mergeInQueryOrForm e = js_bind (merge_form e) merge_query"

section \<open>Responses\<close>

record fetch_response =
  f_ok :: bool
  f_url :: jsstring
  f_status :: json
  f_statusText :: json
  f_headers :: "(jsstring \<times> jsstring) list"
  f_text :: jsstring

record http_response =
  ok :: bool
  res_url :: jsstring
  status :: json
  statusText :: json
  res_headers :: obj
  res_text :: jsstring
  res_body :: "json option"
  parseError :: "js_error option"

text \<open>\<open>i\<close> (\<open>serializeHeaders\<close>): a header that comes twice becomes an array.\<close>

definition add_header :: "jsstring \<times> jsstring \<Rightarrow> obj \<Rightarrow> obj" where
  "add_header f t =
     (let (n, e) = f
      in case obj_at t n of
           JUndef \<Rightarrow> obj_put n (JStr e) t
         | JArr xs \<Rightarrow> obj_put n (JArr (xs @ [JStr e])) t
         | old \<Rightarrow> obj_put n (JArr [old, JStr e]) t)"

definition serializeHeaders :: "(jsstring \<times> jsstring) list \<Rightarrow> obj" where
  "serializeHeaders e = fold add_header e []"

text \<open>\<open>/(json|xml|yaml|text)\b/\<close>.\<close>

definition word_unit :: "code_unit \<Rightarrow> bool" where
  "word_unit c \<longleftrightarrow> alnum c \<or> c = 95"

definition word_at :: "jsstring \<Rightarrow> jsstring \<Rightarrow> bool" where
  "word_at w s \<longleftrightarrow> take (length w) s = w \<and> (case drop (length w) s of [] \<Rightarrow> True | c # _ \<Rightarrow> \<not> word_unit c)"

fun has_word :: "jsstring \<Rightarrow> jsstring \<Rightarrow> bool" where
  "has_word w [] \<longleftrightarrow> False"
| "has_word w (c # cs) \<longleftrightarrow> word_at w (c # cs) \<or> has_word w cs"

definition shouldDownloadAsText :: "json \<Rightarrow> bool" where
  "shouldDownloadAsText e \<longleftrightarrow>
     (\<exists>w\<in>set [str ''json'', str ''xml'', str ''yaml'', str ''text'']. has_word w (if e = JUndef then [] else js_text e))"

definition serializeRes ::
    "(jsstring \<Rightarrow> json js) \<Rightarrow> (jsstring \<Rightarrow> json js) \<Rightarrow> fetch_response \<Rightarrow> jsstring \<Rightarrow> bool \<Rightarrow> http_response" where
  "serializeRes json_parse safeLoad e t loadSpec =
     (let h = serializeHeaders (f_headers e); a = field h ''content-type''; u = loadSpec \<or> shouldDownloadAsText a;
          p = (if a = JStr (str ''application/json'') then json_parse (f_text e) else safeLoad (f_text e))
      in \<lparr>ok = f_ok e, res_url = (if f_url e \<noteq> [] then f_url e else t), status = f_status e, statusText = f_statusText e,
          res_headers = h, res_text = f_text e,
          res_body = (if u then (case p of Inl _ \<Rightarrow> None | Inr b \<Rightarrow> Some b) else None),
          parseError = (if u then (case p of Inl x \<Rightarrow> Some x | Inr _ \<Rightarrow> None) else None)\<rparr>)"

section \<open>One request\<close>

datatype http_failure = Raised js_error | ResponseError json json js_error | NotOk http_response

record http_options =
  requestInterceptor :: "(request \<Rightarrow> request option js) option"
  responseInterceptor :: "(http_response \<Rightarrow> http_response option js) option"
  loadSpec :: bool

definition intercept :: "('a \<Rightarrow> 'a option js) option \<Rightarrow> 'a \<Rightarrow> 'a js" where
  "intercept f a =
     (case f of
        None \<Rightarrow> Inr a
      | Some g \<Rightarrow> js_bind (g a) (\<lambda>x. Inr (case x of None \<Rightarrow> a | Some b \<Rightarrow> b)))"

definition drop_multipart :: "request \<Rightarrow> request" where
  "drop_multipart a =
     (if is_multipart (content_type (headers a))
      then a\<lparr>headers := obj_del (str ''Content-Type'') (obj_del (str ''content-type'') (headers a))\<rparr> else a)"

text \<open>
  The steps of \<open>http\<close>. An error after the response has come (in the response interceptor) is reported with the status
  of the response; an error before that, as it is.
\<close>

definition http ::
    "(request \<Rightarrow> fetch_response js) \<Rightarrow> (jsstring \<Rightarrow> json js) \<Rightarrow> (jsstring \<Rightarrow> json js) \<Rightarrow> http_options \<Rightarrow> request \<Rightarrow>
     http_failure + http_response" where
  "http fetch json_parse safeLoad opts a0 =
     (case js_bind (mergeInQueryOrForm a0) (intercept (requestInterceptor opts)) of
        Inl e \<Rightarrow> Inl (Raised e)
      | Inr a1 \<Rightarrow>
          (case fetch (drop_multipart a1) of
             Inl e \<Rightarrow> Inl (Raised e)
           | Inr f \<Rightarrow>
               (let r = serializeRes json_parse safeLoad f (url a0) (loadSpec opts)
                in case intercept (responseInterceptor opts) r of
                     Inl e \<Rightarrow> Inl (ResponseError (statusText r) (status r) e)
                   | Inr r' \<Rightarrow> if ok r' then Inr r' else Inl (NotOk r'))))"

definition makeHttp :: "(request \<Rightarrow> 'r) \<Rightarrow> (request \<Rightarrow> request) \<Rightarrow> ('r \<Rightarrow> 'r) \<Rightarrow> request \<Rightarrow> 'r js" where
  "makeHttp e t n r = js_bind (mergeInQueryOrForm r) (\<lambda>r'. Inr (n (e (t r'))))"

end
