(* ===== verification/Swg_Normalize.thy ===== *)
theory Swg_Normalize
  imports Swg_Ops
begin

text \<open>
  \<open>normalizeSwagger\<close>: every operation of a specification gets the defaults of the specification and of its path, and
  operations that would share an identifier get numbered ones.

  The code updates the specification in place and keeps references to operations; here an operation is its place, the
  name of its path and its key there. A property that the code assigns to an array is not kept.
\<close>

section \<open>Places in a specification\<close>

type_synonym place = "jsstring \<times> jsstring"

definition child :: "json \<Rightarrow> jsstring \<Rightarrow> json" where
  "child v k =
     (case v of
        JObj fs \<Rightarrow> (case map_of fs k of None \<Rightarrow> JUndef | Some x \<Rightarrow> x)
      | JArr xs \<Rightarrow> (case index_key k of None \<Rightarrow> JUndef | Some i \<Rightarrow> if i < length xs then xs ! i else JUndef)
      | _ \<Rightarrow> JUndef)"

definition set_child :: "json \<Rightarrow> jsstring \<Rightarrow> json \<Rightarrow> json" where
  "set_child v k x =
     (case v of
        JObj fs \<Rightarrow> JObj (obj_put k x fs)
      | JArr xs \<Rightarrow> (case index_key k of None \<Rightarrow> v | Some i \<Rightarrow> JArr (xs[i := x]))
      | _ \<Rightarrow> v)"

definition op_get :: "json \<Rightarrow> place \<Rightarrow> json" where
  "op_get n p = child (child n (fst p)) (snd p)"

definition op_put :: "json \<Rightarrow> place \<Rightarrow> json \<Rightarrow> json" where
  "op_put n p x = set_child n (fst p) (set_child (child n (fst p)) (snd p) x)"

text \<open>Reading and assigning a property of an operation.\<close>

definition own :: "json \<Rightarrow> string \<Rightarrow> json" where
  "own v k = field (obj_fields v) k"

definition set_own :: "string \<Rightarrow> json \<Rightarrow> json \<Rightarrow> json" where
  "set_own k x v = (case v of JObj fs \<Rightarrow> JObj (set_field k x fs) | _ \<Rightarrow> v)"

section \<open>Numbering\<close>

text \<open>The operations that have an identifier so far, by identifier.\<close>

type_synonym ids = "(jsstring \<times> place list) list"

definition number_one :: "jsstring \<Rightarrow> nat \<Rightarrow> json \<Rightarrow> json" where
  "number_one s t e =
     set_own ''operationId'' (JStr (s @ nat_text (t + 1)))
       (set_own ''__originalOperationId'' (js_or (own e ''__originalOperationId'') (own e ''operationId'')) e)"

fun number_from :: "jsstring \<Rightarrow> nat \<Rightarrow> place list \<Rightarrow> json \<Rightarrow> json" where
  "number_from s t [] n = n"
| "number_from s t (p # ps) n = number_from s (Suc t) ps (op_put n p (number_one s t (op_get n p)))"

definition number_alone :: "jsstring \<Rightarrow> json \<Rightarrow> json" where
  "number_alone s e =
     (if own e ''operationId'' = JUndef then e
      else set_own ''operationId'' (JStr s)
             (set_own ''__originalOperationId'' (js_or (own e ''__originalOperationId'') (own e ''operationId'')) e))"

text \<open>A name that the collecting object inherits is a function, which has no \<open>push\<close>.\<close>

definition identify :: "place \<Rightarrow> json \<times> ids \<Rightarrow> (json \<times> ids) js" where
  "identify p nr =
     (let (n, r) = nr
      in js_bind (opId (op_get n p) (fst p) (snd p) False) (\<lambda>i.
           case i of
             None \<Rightarrow> Inr (n, r)
           | Some s \<Rightarrow>
               if s = [] then Inr (n, r)
               else
                 (case map_of r s of
                    None \<Rightarrow>
                      if s \<in> set object_prototype then Inl TypeError
                      else Inr (op_put n p (number_alone s (op_get n p)), obj_put s [p] r)
                  | Some c \<Rightarrow> Inr (number_from s 0 (c @ [p]) n, obj_put s (c @ [p]) r))))"

section \<open>Defaults\<close>

text \<open>The defaults of the specification, in the order of its keys, then those of the path.\<close>

definition inherits :: "obj \<Rightarrow> json \<Rightarrow> obj" where
  "inherits t u =
     (let h = filter (\<lambda>(v, _). v = str ''produces'' \<or> v = str ''consumes'' \<or> v = str ''security'') t
      in if truthy u then obj_put (str ''parameters'') u h else h)"

definition inherit_passes :: "obj \<Rightarrow> json \<Rightarrow> nat" where
  "inherit_passes t u =
     length (filter (\<lambda>(v, _). v = str ''produces'' \<or> v = str ''consumes'' \<or> v = str ''security'') t) + (if truthy u then 1 else 0)"

text \<open>
  A parameter of an operation, with its position in the list of its path when it came from there: that is when two
  objects are the same.
\<close>

type_synonym param = "json \<times> nat option"

definition strictly_equal :: "json \<Rightarrow> json \<Rightarrow> bool" where
  "strictly_equal x y \<longleftrightarrow> x = y \<and> x \<noteq> JNum (str ''NaN'') \<and> (x = JNull \<or> type_of x \<noteq> ''object'' \<and> type_of x \<noteq> ''function'')"

definition same_named :: "json \<Rightarrow> json \<Rightarrow> string \<Rightarrow> bool js" where
  "same_named t e k =
     js_bind (get_prop t k) (\<lambda>x. if truthy x then js_bind (get_prop e k) (\<lambda>y. Inr (strictly_equal x y)) else Inr False)"

definition js_or_else :: "bool js \<Rightarrow> bool js \<Rightarrow> bool js" where
  "js_or_else a b = js_bind a (\<lambda>x. if x then Inr True else b)"

definition same_param :: "json \<Rightarrow> nat \<Rightarrow> param \<Rightarrow> bool js" where
  "same_param e j t =
     js_or_else (same_named (fst t) e ''name'')
       (js_or_else (same_named (fst t) e ''$ref'')
         (js_or_else (same_named (fst t) e ''$$ref'')
           (Inr (if type_of (fst t) = ''object'' \<and> fst t \<noteq> JNull then snd t = Some j else fst t = e))))"

fun any_js :: "('a \<Rightarrow> bool js) \<Rightarrow> 'a list \<Rightarrow> bool js" where
  "any_js p [] = Inr False"
| "any_js p (x # xs) = js_or_else (p x) (any_js p xs)"

fun add_params :: "json list \<Rightarrow> nat \<Rightarrow> param list \<Rightarrow> param list js" where
  "add_params [] j ps = Inr ps"
| "add_params (e # es) j ps =
     js_bind (any_js (same_param e j) ps) (\<lambda>b. add_params es (Suc j) (if b then ps else ps @ [(e, Some j)]))"

text \<open>
  One property \<open>E\<close> of the defaults on an operation \<open>n\<close>. The parameters of the operation carry their origins from one
  pass to the next.
\<close>

definition iterable :: "json \<Rightarrow> json list js" where
  "iterable v = (case v of JArr xs \<Rightarrow> Inr xs | JStr s \<Rightarrow> Inr (map JStr (stringToCharArray s)) | _ \<Rightarrow> Inl TypeError)"

fun tag_from :: "nat \<Rightarrow> json list \<Rightarrow> param list" where
  "tag_from j [] = []"
| "tag_from j (x # xs) = (x, Some j) # tag_from (Suc j) xs"

definition inherit_one :: "jsstring \<times> json \<Rightarrow> json \<times> param list \<Rightarrow> (json \<times> param list) js" where
  "inherit_one w st =
     (let (E, x) = w; (n, ps) = st; cur = (case map_of (obj_fields n) E of None \<Rightarrow> JUndef | Some y \<Rightarrow> y)
      in if truthy cur then
           (if E = str ''parameters'' then
              js_bind (iterable x) (\<lambda>es.
                if es = [] then Inr (n, ps)
                else if \<not> is_arr cur then Inl TypeError
                else js_bind (add_params es 0 ps) (\<lambda>ps'. Inr (set_own ''parameters'' (JArr (map fst ps')) n, ps')))
            else Inr (n, ps))
         else
           Inr ((case n of JObj fs \<Rightarrow> JObj (obj_put E x fs) | _ \<Rightarrow> n),
                (if E = str ''parameters'' then tag_from 0 (arr_items x) else ps)))"

fun passes :: "nat \<Rightarrow> obj \<Rightarrow> json \<times> param list \<Rightarrow> (json \<times> param list) js" where
  "passes 0 h st = Inr st"
| "passes (Suc k) h st = js_bind (js_fold inherit_one h st) (passes k h)"

definition inherit :: "obj \<Rightarrow> json \<Rightarrow> json \<Rightarrow> json js" where
  "inherit t u n =
     js_bind (passes (inherit_passes t u) (inherits t u) (n, map (\<lambda>p. (p, None)) (arr_items (own n ''parameters''))))
       (\<lambda>st. Inr (fst st))"

section \<open>The whole specification\<close>

definition isObject_lodash :: "json \<Rightarrow> bool" where
  "isObject_lodash e \<longleftrightarrow> e \<noteq> JNull \<and> (type_of e = ''object'' \<or> type_of e = ''function'')"

definition normalize_op :: "obj \<Rightarrow> place \<Rightarrow> json \<times> ids \<Rightarrow> (json \<times> ids) js" where
  "normalize_op t p nr =
     (if \<not> isObject_lodash (op_get (fst nr) p) then Inr nr
      else
        js_bind (identify p nr) (\<lambda>(n, r).
          if snd p = str ''parameters'' then Inr (n, r)
          else js_bind (inherit t (own (child n (fst p)) ''parameters'') (op_get n p)) (\<lambda>x. Inr (op_put n p x, r))))"

definition normalize_path :: "obj \<Rightarrow> jsstring \<Rightarrow> json \<times> ids \<Rightarrow> (json \<times> ids) js" where
  "normalize_path t i nr =
     (let a = child (fst nr) i
      in if isObject_lodash a then js_fold (\<lambda>e. normalize_op t (i, e)) (map fst (for_in a)) nr else Inr nr)"

definition normalizeSwagger :: "json \<Rightarrow> json js" where
  "normalizeSwagger t =
     js_bind (get_prop t ''paths'') (\<lambda>n.
       if \<not> truthy n \<or> truthy (own t ''$$normalized'') then Inr t
       else
         js_bind (js_fold (normalize_path (obj_fields t)) (map fst (for_in n)) (n, [])) (\<lambda>(n', r).
           Inr (set_own ''$$normalized'' (JBool True) (set_own ''paths'' n' t))))"

end
