(* ===== verification/Swg_Params.thy ===== *)
theory Swg_Params
  imports Swg_Http Swg_Normalize
begin

text \<open>
  The parameter builders of the API client: how the value of a parameter is put into a request, for Swagger 2
  (\<open>swagger2/parameter-builders\<close>) and OpenAPI 3 (\<open>oas3/parameter-builders\<close>).
\<close>

section \<open>Replacing in a string\<close>

text \<open>
  \<open>s.replace(pattern, text)\<close> with a string as pattern: the first occurrence is replaced, and \<open>$$\<close>, \<open>$&\<close>, \<open>$`\<close> and \<open>$'\<close> in
  the text stand for a dollar sign, the pattern, what is before it and what is after it.
\<close>

fun expand_dollar :: "jsstring \<Rightarrow> jsstring \<Rightarrow> jsstring \<Rightarrow> jsstring \<Rightarrow> jsstring" where
  "expand_dollar p before after (a # b # t) =
     (if a = 36 \<and> b = 36 then 36 # expand_dollar p before after t
      else if a = 36 \<and> b = 38 then p @ expand_dollar p before after t
      else if a = 36 \<and> b = 96 then before @ expand_dollar p before after t
      else if a = 36 \<and> b = 39 then after @ expand_dollar p before after t
      else a # expand_dollar p before after (b # t))"
| "expand_dollar p before after t = t"

fun find_sub :: "jsstring \<Rightarrow> jsstring \<Rightarrow> nat option" where
  "find_sub p [] = (if p = [] then Some 0 else None)"
| "find_sub p (c # cs) = (if take (length p) (c # cs) = p then Some 0 else map_option Suc (find_sub p cs))"

definition js_replace :: "jsstring \<Rightarrow> jsstring \<Rightarrow> jsstring \<Rightarrow> jsstring" where
  "js_replace s p t =
     (case find_sub p s of
        None \<Rightarrow> s
      | Some i \<Rightarrow> take i s @ expand_dollar p (take i s) (drop (i + length p) s) t @ drop (i + length p) s)"

section \<open>Swagger 2\<close>

definition prop_name :: "json \<Rightarrow> jsstring" where
  "prop_name p = js_text (own p ''name'')"

definition template :: "json \<Rightarrow> jsstring" where
  "template p = str ''{'' @ prop_name p @ str ''}''"

definition put_query :: "jsstring \<Rightarrow> json \<Rightarrow> request \<Rightarrow> request" where
  "put_query k v req = req\<lparr>query := JObj (obj_put k v (obj_fields (query req)))\<rparr>"

definition put_header :: "jsstring \<Rightarrow> json \<Rightarrow> request \<Rightarrow> request" where
  "put_header k v req = req\<lparr>headers := obj_put k v (headers req)\<rparr>"

text \<open>A parameter that may be empty: \<open>query[name] = query[name] || {}\<close>, then its property \<open>allowEmptyValue\<close> is set.\<close>

definition allow_empty :: "json \<Rightarrow> request \<Rightarrow> request" where
  "allow_empty p req =
     (let cur = js_or (obj_at (obj_fields (query req)) (prop_name p)) (JObj [])
      in put_query (prop_name p) (set_own ''allowEmptyValue'' (JBool True) cur) req)"

definition with_query :: "request \<Rightarrow> request" where
  "with_query req = req\<lparr>query := js_or (query req) (JObj [])\<rparr>"

definition v2_body :: "json \<Rightarrow> json \<Rightarrow> request \<Rightarrow> request js" where
  "v2_body p v req = Inr (req\<lparr>req_body := Body v\<rparr>)"

definition v2_header :: "json \<Rightarrow> json \<Rightarrow> request \<Rightarrow> request js" where
  "v2_header p v req = Inr (if v = JUndef then req else put_header (prop_name p) v req)"

definition v2_query :: "json \<Rightarrow> json \<Rightarrow> request \<Rightarrow> request js" where
  "v2_query p n0 req0 =
     (let req = with_query req0;
          n1 = (if n0 = JBool False \<and> own p ''type'' = JStr (str ''boolean'') then JStr (str ''false'') else n0);
          n = (if n1 = JNum (str ''0'') \<and> own p ''type'' \<in> {JStr (str ''number''), JStr (str ''integer'')} then JStr (str ''0'') else n1)
      in Inr (if truthy n then
                put_query (prop_name p) (JObj [(str ''collectionFormat'', own p ''collectionFormat''), (str ''value'', n)]) req
              else if truthy (own p ''allowEmptyValue'') \<and> n \<noteq> JUndef then allow_empty p req
              else req))"

definition v2_path :: "json \<Rightarrow> json \<Rightarrow> request \<Rightarrow> request js" where
  "v2_path p v req =
     js_bind (encodeURIComponent (js_text v)) (\<lambda>s. Inr (req\<lparr>url := js_replace (url req) (template p) s\<rparr>))"

definition v2_formData :: "json \<Rightarrow> json \<Rightarrow> request \<Rightarrow> request js" where
  "v2_formData p v req =
     Inr (if truthy v \<or> truthy (own p ''allowEmptyValue'') then
            req\<lparr>form := JObj (obj_put (prop_name p)
              (JObj [(str ''value'', v), (str ''allowEmptyValue'', own p ''allowEmptyValue''), (str ''collectionFormat'', own p ''collectionFormat'')])
              (obj_fields (form req)))\<rparr>
          else req)"

definition v2_builder :: "json \<Rightarrow> (json \<Rightarrow> json \<Rightarrow> request \<Rightarrow> request js) option" where
  "v2_builder l =
     (if l = JStr (str ''body'') then Some v2_body
      else if l = JStr (str ''header'') then Some v2_header
      else if l = JStr (str ''query'') then Some v2_query
      else if l = JStr (str ''path'') then Some v2_path
      else if l = JStr (str ''formData'') then Some v2_formData
      else None)"

section \<open>OpenAPI 3\<close>

definition oas3_path :: "json \<Rightarrow> json \<Rightarrow> request \<Rightarrow> request js" where
  "oas3_path p v req =
     js_bind (stylize \<lparr>key = prop_name p, style = js_or (own p ''style'') (JStr (str ''simple'')),
                       explode = js_or (own p ''explode'') (JBool False), escape = JBool False\<rparr> v)
       (\<lambda>s. Inr (req\<lparr>url := js_replace (url req) (template p) (js_text s)\<rparr>))"

definition escape_mode :: "json \<Rightarrow> json" where
  "escape_mode p = (if truthy (own p ''allowReserved'') then JStr (str ''unsafe'') else JStr (str ''reserved''))"

definition ready_value :: "json \<Rightarrow> json" where
  "ready_value v = JObj [(str ''value'', v), (str ''skipEncoding'', JBool True)]"

text \<open>One property of a value that is an object: under a name of its own.\<close>

definition oas3_query_field :: "json \<Rightarrow> json \<Rightarrow> (jsstring \<Rightarrow> jsstring) \<Rightarrow> jsstring \<times> json \<Rightarrow> request \<Rightarrow> request js" where
  "oas3_query_field p st name f req =
     js_bind (stylize \<lparr>key = fst f, style = st, explode = JUndef, escape = escape_mode p\<rparr> (snd f))
       (\<lambda>s. Inr (put_query (name (fst f)) (ready_value s) req))"

definition oas3_query :: "json \<Rightarrow> json \<Rightarrow> request \<Rightarrow> request js" where
  "oas3_query p n0 req0 =
     (let req = with_query req0;
          n = (if n0 = JBool False then JStr (str ''false'') else if n0 = JNum (str ''0'') then JStr (str ''0'') else n0);
          st = own p ''style''; ex = own p ''explode''
      in if truthy n then
           (if st = JStr (str ''deepObject'') then
              js_fold (oas3_query_field p (JStr (str ''deepObject'')) (\<lambda>e. prop_name p @ str ''['' @ e @ str '']'')) (for_in n) req
            else if type_of n \<noteq> ''object'' \<or> is_arr n \<or> (st \<noteq> JStr (str ''form'') \<and> truthy st) \<or> (\<not> truthy ex \<and> ex \<noteq> JUndef) then
              js_bind (stylize \<lparr>key = prop_name p, style = js_or st (JStr (str ''form'')),
                                explode = (if ex = JUndef then JBool True else ex), escape = escape_mode p\<rparr> n)
                (\<lambda>s. Inr (put_query (prop_name p) (ready_value s) req))
            else js_fold (oas3_query_field p (js_or st (JStr (str ''form''))) (\<lambda>e. e)) (for_in n) req)
         else if truthy (own p ''allowEmptyValue'') \<and> n \<noteq> JUndef then Inr (allow_empty p req)
         else Inr req)"

definition defined_explode :: "json \<Rightarrow> json" where
  "defined_explode p = (if own p ''explode'' = JUndef then JBool False else own p ''explode'')"

definition oas3_header :: "json \<Rightarrow> json \<Rightarrow> request \<Rightarrow> request js" where
  "oas3_header p v req =
     (case own p ''name'' of
        JStr k \<Rightarrow>
          if toLowerCase k \<in> {str ''accept'', str ''authorization'', str ''content-type''} \<or> v = JUndef then Inr req
          else js_bind (stylize \<lparr>key = k, style = js_or (own p ''style'') (JStr (str ''simple'')),
                                 explode = defined_explode p, escape = JBool False\<rparr> v)
                 (\<lambda>s. Inr (put_header k s req))
      | _ \<Rightarrow> Inl TypeError)"

definition oas3_cookie :: "json \<Rightarrow> json \<Rightarrow> request \<Rightarrow> request js" where
  "oas3_cookie p v req =
     (if v = JUndef then Inr req
      else
        js_bind (stylize \<lparr>key = prop_name p, style = js_or (own p ''style'') (JStr (str ''form'')),
                          explode = defined_explode p, escape = JBool False\<rparr> v)
          (\<lambda>s. Inr (put_header (str ''Cookie'')
             (JStr ((if type_of v = ''object'' \<and> \<not> is_arr v \<and> truthy (own p ''explode'') then [] else prop_name p @ str ''='') @ js_text s)) req)))"

definition oas3_builder :: "json \<Rightarrow> (json \<Rightarrow> json \<Rightarrow> request \<Rightarrow> request js) option" where
  "oas3_builder l =
     (if l = JStr (str ''path'') then Some oas3_path
      else if l = JStr (str ''query'') then Some oas3_query
      else if l = JStr (str ''header'') then Some oas3_header
      else if l = JStr (str ''cookie'') then Some oas3_cookie
      else None)"

end
