(* ===== verification/Swg_Security.thy ===== *)
theory Swg_Security
  imports Swg_Params Base64
begin

text \<open>
  What the API client adds to a request for the security requirements of an operation, and the content type and body:
  \<open>oas3/build-request\<close> and \<open>swagger2/build-request\<close> of \<open>swagger-client\<close>.
\<close>

section \<open>Security\<close>

text \<open>\<open>btoa\<close> over \<open>Buffer\<close>: a code unit gives its low byte.\<close>

definition btoa :: "jsstring \<Rightarrow> jsstring" where
  "btoa e = fromByteArray (asciiToBytes e)"

record securities =
  authorized :: json
  specSecurity :: json
  sec_keys :: bool

text \<open>\<open>sec_keys\<close>: the object \<open>securities\<close> has some property.\<close>

definition put_cookie :: "jsstring \<Rightarrow> json \<Rightarrow> request \<Rightarrow> request" where
  "put_cookie k v req = req\<lparr>cookies := obj_put k v (cookies req)\<rparr>"

text \<open>\<open>v && "bearer" !== v.toLowerCase() ? v : "Bearer"\<close>.\<close>

definition token_scheme :: "json \<Rightarrow> jsstring js" where
  "token_scheme v =
     (if \<not> truthy v then Inr (str ''Bearer'')
      else (case v of
              JStr s \<Rightarrow> Inr (if toLowerCase s \<noteq> str ''bearer'' then s else str ''Bearer'')
            | _ \<Rightarrow> Inl TypeError))"

definition basic_auth :: "json \<Rightarrow> jsstring" where
  "basic_auth i = str ''Basic '' @ btoa (js_text (own i ''username'') @ str '':'' @ js_text (own i ''password''))"

text \<open>One authorization \<open>r\<close> for a scheme \<open>s\<close> of OpenAPI 3.\<close>

definition oas3_apply :: "json \<Rightarrow> json \<Rightarrow> request \<Rightarrow> request js" where
  "oas3_apply r s f =
     js_bind (get_prop s ''type'') (\<lambda>a.
       let i = js_or (own r ''value'') r; nm = js_text (own s ''name'')
       in if a = JStr (str ''apiKey'') then
            Inr (let l = own s ''in''
                 in if l = JStr (str ''query'') then put_query nm i f
                    else if l = JStr (str ''header'') then put_header nm i f
                    else if l = JStr (str ''cookie'') then put_cookie nm i f
                    else f)
          else if a = JStr (str ''http'') then
            Inr (let sc = own s ''scheme''
                 in if sc = JStr (str ''basic'') then put_header (str ''Authorization'') (JStr (basic_auth i)) f
                    else if sc = JStr (str ''bearer'') then put_header (str ''Authorization'') (JStr (str ''Bearer '' @ js_text i)) f
                    else f)
          else if a = JStr (str ''oauth2'') then
            (let p = js_or (own r ''token'') (JObj [])
             in js_bind (token_scheme (own p ''token_type'')) (\<lambda>v.
                  Inr (put_header (str ''Authorization'') (JStr (v @ str '' '' @ js_text (own p ''access_token''))) f)))
          else Inr f)"

text \<open>
  One authorization for a scheme of Swagger 2. The code stores the text that it computes for a basic scheme in the
  authorization, which throws when that is a string, a number or a boolean.
\<close>

definition v2_apply :: "json \<Rightarrow> json \<Rightarrow> request \<Rightarrow> request js" where
  "v2_apply r u c =
     js_bind (get_prop u ''type'') (\<lambda>s.
       let i = js_or (own r ''value'') r; nm = js_text (own u ''name''); tk = own r ''token''
       in if s = JStr (str ''apiKey'') then
            Inr (if own u ''in'' = JStr (str ''query'') then put_query nm i c else put_header nm i c)
          else if s = JStr (str ''basic'') then
            (if truthy (own i ''header'') then Inr (put_header (str ''authorization'') (own i ''header'') c)
             else if type_of i = ''string'' \<or> type_of i = ''number'' \<or> type_of i = ''boolean'' then Inl TypeError
             else Inr (put_header (str ''authorization'') (JStr (basic_auth i)) c))
          else if s = JStr (str ''oauth2'') \<and> truthy tk \<and> truthy (own tk ''access_token'') then
            js_bind (token_scheme (own tk ''token_type'')) (\<lambda>f.
              Inr (put_header (str ''authorization'') (JStr (f @ str '' '' @ js_text (own tk ''access_token''))) c))
          else Inr c)"

text \<open>The requirements, one after the other, and the schemes that each names. A scheme without authorization is skipped.\<close>

definition apply_scheme ::
    "(json \<Rightarrow> json \<Rightarrow> request \<Rightarrow> request js) \<Rightarrow> json \<Rightarrow> json \<Rightarrow> jsstring \<Rightarrow> request \<Rightarrow> request js" where
  "apply_scheme ap d m n f =
     (let r = obj_at (obj_fields d) n
      in if \<not> truthy r then Inr f
         else if m = JUndef \<or> m = JNull then Inl TypeError
         else ap r (obj_at (obj_fields m) n) f)"

definition apply_requirements ::
    "(json \<Rightarrow> json \<Rightarrow> request \<Rightarrow> request js) \<Rightarrow> json \<Rightarrow> json \<Rightarrow> json list \<Rightarrow> request \<Rightarrow> request js" where
  "apply_requirements ap d m h f = js_fold (apply_scheme ap d m) (concat (map (\<lambda>e. map fst (for_in e)) h)) f"

text \<open>
  \<open>applySecurities\<close>: nothing is added without authorizations, and nothing to an operation whose own list of
  requirements is empty.
\<close>

definition applySecurities ::
    "(json \<Rightarrow> json \<Rightarrow> request \<Rightarrow> request js) \<Rightarrow> securities \<Rightarrow> json \<Rightarrow> json \<Rightarrow> json \<Rightarrow> request \<Rightarrow> request js" where
  "applySecurities ap sec oper m h t =
     (if sec_keys sec \<and> for_in (authorized sec) \<noteq> [] \<and> truthy h \<and> own oper ''security'' \<noteq> JArr [] then
        (case h of
           JArr es \<Rightarrow> apply_requirements ap (authorized sec) m es (with_query t)
         | _ \<Rightarrow> Inl TypeError)
      else Inr t)"

definition oas3_applySecurities :: "securities \<Rightarrow> json \<Rightarrow> json \<Rightarrow> request \<Rightarrow> request js" where
  "oas3_applySecurities sec oper spec t =
     applySecurities oas3_apply sec oper
       (js_or (own (own spec ''components'') ''securitySchemes'') (JObj []))
       (js_or (js_or (own oper ''security'') (own spec ''security'')) (JArr [])) t"

definition v2_applySecurities :: "securities \<Rightarrow> json \<Rightarrow> json \<Rightarrow> request \<Rightarrow> request js" where
  "v2_applySecurities sec oper spec t =
     applySecurities v2_apply sec oper (own spec ''securityDefinitions'')
       (js_or (own oper ''security'') (if specSecurity sec = JUndef then JArr [] else specSecurity sec)) t"

section \<open>Content type and body\<close>

definition set_content_type :: "json \<Rightarrow> request \<Rightarrow> request" where
  "set_content_type v t = put_header (str ''Content-Type'') v t"

text \<open>\<open>oas3/build-request\<close>: the type that was asked for if the operation has it, or the first one it has.\<close>

definition form_value :: "json \<Rightarrow> json" where
  "form_value v =
     (case v of
        JArr xs \<Rightarrow> JStr (js_text v)
      | JObj fs \<Rightarrow> (case json_stringify v of None \<Rightarrow> JUndef | Some s \<Rightarrow> JStr s)
      | JNull \<Rightarrow> JStr (str ''null'')
      | _ \<Rightarrow> v)"

definition oas3_body :: "json \<Rightarrow> jsstring list \<Rightarrow> json \<Rightarrow> request \<Rightarrow> request js" where
  "oas3_body p h r t =
     (if \<not> truthy r then Inr t
      else if \<not> truthy p then Inr (t\<lparr>req_body := Body r\<rparr>)
      else if js_text p \<notin> set h then Inr t
      else if p = JStr (str ''application/x-www-form-urlencoded'') \<or> take 10 (js_text p) = str ''multipart/'' then
        (if type_of r = ''object''
         then Inr (t\<lparr>form := JObj (fold (\<lambda>(k, x). obj_put k (JObj [(str ''value'', form_value x)])) (for_in r) [])\<rparr>)
         else Inr (t\<lparr>form := r\<rparr>))
      else Inr (t\<lparr>req_body := Body r\<rparr>))"

definition oas3_buildRequest :: "securities \<Rightarrow> json \<Rightarrow> json \<Rightarrow> json \<Rightarrow> bool \<Rightarrow> json \<Rightarrow> request \<Rightarrow> request js" where
  "oas3_buildRequest sec oper spec r attach p t0 =
     js_bind (oas3_applySecurities sec oper spec t0) (\<lambda>t.
       let d = js_or (own oper ''requestBody'') (JObj []); h = map fst (for_in (js_or (own d ''content'') (JObj [])));
           v = truthy p \<and> js_text p \<in> set h;
           (t', p') =
             (if truthy r \<or> attach then
                (if v then (set_content_type p t, p)
                 else if \<not> truthy p then
                   (case h of [] \<Rightarrow> (t, p) | m # _ \<Rightarrow> if m \<noteq> [] then (set_content_type (JStr m) t, JStr m) else (t, p))
                 else (t, p))
              else if v then (set_content_type p t, p) else (t, p))
       in oas3_body p' h r t')"

definition some_param :: "json \<Rightarrow> string \<Rightarrow> string \<Rightarrow> bool" where
  "some_param oper k v \<longleftrightarrow> (\<exists>e\<in>set (arr_items (own oper ''parameters'')). own e k = JStr (str v))"

definition first_item :: "json \<Rightarrow> json" where
  "first_item v = (case v of JArr (x # _) \<Rightarrow> x | _ \<Rightarrow> JUndef)"

definition has_body :: "request \<Rightarrow> bool" where
  "has_body t \<longleftrightarrow> (case req_body t of NoBody \<Rightarrow> False | Body v \<Rightarrow> truthy v | FormData _ \<Rightarrow> True)"

definition v2_buildRequest :: "securities \<Rightarrow> json \<Rightarrow> json \<Rightarrow> bool \<Rightarrow> json \<Rightarrow> request \<Rightarrow> request js" where
  "v2_buildRequest sec r n attach a t0 =
     js_bind (v2_applySecurities sec r n t0) (\<lambda>t.
       Inr (if has_body t \<or> truthy (form t) \<or> attach then
              (if truthy a then set_content_type a t
               else if is_arr (own r ''consumes'') then set_content_type (first_item (own r ''consumes'')) t
               else if is_arr (own n ''consumes'') then set_content_type (first_item (own n ''consumes'')) t
               else if some_param r ''type'' ''file'' then set_content_type (JStr (str ''multipart/form-data'')) t
               else if some_param r ''in'' ''formData'' then set_content_type (JStr (str ''application/x-www-form-urlencoded'')) t
               else t)
            else if truthy a \<and> (some_param r ''in'' ''body'' \<or> some_param r ''in'' ''formData'') then set_content_type a t
            else t))"

end
