(* ===== verification/Swg_Execute.thy ===== *)
theory Swg_Execute
  imports Swg_Security Url
begin

text \<open>
  Building and sending the request of an operation: \<open>execute\<close> of \<open>swagger-client\<close>. The network is an argument, and so
  is \<open>JSON.parse\<close>.
\<close>

section \<open>The URL of the server\<close>

text \<open>\<open>P\<close> (\<open>stripNonAlpha\<close>).\<close>

definition stripNonAlpha :: "jsstring option \<Rightarrow> jsstring option" where
  "stripNonAlpha e = (if given e then Some (filter word_unit (or_empty e)) else None)"

definition strip_slash :: "jsstring \<Rightarrow> jsstring" where
  "strip_slash u = (if u \<noteq> [] \<and> last u = 47 then butlast u else u)"

text \<open>The names between braces in a server URL.\<close>

function variable_names :: "jsstring \<Rightarrow> jsstring list" where
  "variable_names [] = []"
| "variable_names (c # cs) =
     (let v = takeWhile (\<lambda>x. x \<noteq> 125) cs; r = dropWhile (\<lambda>x. x \<noteq> 125) cs
      in if c = 123 \<and> v \<noteq> [] \<and> r \<noteq> [] then v # variable_names (tl r) else variable_names cs)"
  by pat_completeness auto
termination
  by (relation "measure length") (auto simp: Let_def less_Suc_eq_le intro: le_trans [OF diff_le_self length_dropWhile_le])

declare variable_names.simps(2) [simp del]

text \<open>
  The source makes a regular expression of the name. It matches just the name when the name consists of letters,
  digits, underscores and hyphens and does not start with a digit; other names are not modelled.
\<close>

definition plain_name :: "jsstring \<Rightarrow> bool" where
  "plain_name e \<longleftrightarrow> e \<noteq> [] \<and> (\<forall>c\<in>set e. word_unit c \<or> c = 45) \<and> digit_value (hd e) = None"

function replace_all :: "jsstring \<Rightarrow> jsstring \<Rightarrow> jsstring \<Rightarrow> jsstring \<Rightarrow> jsstring" where
  "replace_all done s p t =
     (case find_sub p s of
        None \<Rightarrow> s
      | Some i \<Rightarrow>
          if p = [] then s
          else take i s @ expand_dollar p (done @ take i s) (drop (i + length p) s) t @
               replace_all (done @ take (i + length p) s) (drop (i + length p) s) p t)"
  by pat_completeness auto
termination
proof (relation "measure (\<lambda>(d, s, p, t). length s)")
  have "find_sub p s = Some i \<Longrightarrow> p \<noteq> [] \<Longrightarrow> s \<noteq> []" for p s i by (cases s) (auto split: if_splits)
  then show "find_sub p s = Some i \<Longrightarrow> p \<noteq> [] \<Longrightarrow> ((d @ take (i + length p) s, drop (i + length p) s, p, t), d, s, p, t) \<in> measure (\<lambda>(d, s, p, t). length s)"
    for d s p t i by auto
qed simp

declare replace_all.simps [simp del]

definition server_variable :: "json \<Rightarrow> obj \<Rightarrow> jsstring \<Rightarrow> jsstring \<Rightarrow> jsstring js" where
  "server_variable c u e l =
     (let vs = own c ''variables''
      in if \<not> truthy vs then Inr l
         else
           (let t = obj_at (obj_fields vs) e
            in if \<not> truthy t then Inr l
               else if \<not> plain_name e then Inl (OtherError ''pattern'')
               else Inr (replace_all [] l (str ''{'' @ e @ str ''}'') (js_text (js_or (obj_at u e) (own t ''default''))))))"

definition url_text :: "json \<Rightarrow> jsstring js" where
  "url_text v = (case v of JStr s \<Rightarrow> Inr s | _ \<Rightarrow> Inl TypeError)"

text \<open>The server that was asked for if the list has it, or the first one of the list.\<close>

definition pick_server :: "json \<Rightarrow> json \<Rightarrow> (jsstring \<times> json) js" where
  "pick_server server s =
     (case s of
        JArr (x # xs) \<Rightarrow>
          js_bind (map_js (\<lambda>e. get_prop e ''url'') (if truthy server then x # xs else [])) (\<lambda>us.
            case filter (\<lambda>(u, e). u = server) (zip us (x # xs)) of
              (u, e) # _ \<Rightarrow> js_bind (url_text u) (\<lambda>l. Inr (l, e))
            | [] \<Rightarrow> js_bind (get_prop x ''url'') (\<lambda>u. js_bind (url_text u) (\<lambda>l. Inr (l, x))))
      | JStr (c # cs) \<Rightarrow> Inl TypeError
      | _ \<Rightarrow> Inr ([], JNull))"

definition oas3_server_url :: "jsstring \<Rightarrow> jsstring \<Rightarrow> jsstring js" where
  "oas3_server_url e t =
     js_bind (url_parse e False) (\<lambda>n. js_bind (url_parse t False) (\<lambda>r.
       let pr = or_opt (stripNonAlpha (protocol n)) (stripNonAlpha (protocol r)); i = or_opt (host n) (host r);
           a = or_empty (pathname n)
       in Inr (strip_slash (if given pr \<and> given i then or_empty pr @ str ''://'' @ or_empty i @ a else a))))"

definition oas3BaseUrl :: "json \<Rightarrow> jsstring \<Rightarrow> jsstring \<Rightarrow> json \<Rightarrow> jsstring \<Rightarrow> obj \<Rightarrow> jsstring js" where
  "oas3BaseUrl spec path_name meth server context vars =
     (let item = (case map_of (obj_fields (own spec ''paths'')) path_name of None \<Rightarrow> JUndef | Some v \<Rightarrow> v);
          op = (case map_of (obj_fields item) (toLowerCase meth) of None \<Rightarrow> JUndef | Some v \<Rightarrow> v);
          s = js_or (js_or (own op ''servers'') (own item ''servers'')) (own spec ''servers'')
      in js_bind (pick_server server s) (\<lambda>(l, c).
           js_bind (js_fold (server_variable c vars) (if 123 \<in> set l then variable_names l else []) l) (\<lambda>l'.
             oas3_server_url l' context)))"

definition text_or :: "json \<Rightarrow> jsstring \<Rightarrow> jsstring" where
  "text_or v d = (if truthy v then js_text v else d)"

definition swagger2BaseUrl :: "json \<Rightarrow> json \<Rightarrow> jsstring \<Rightarrow> jsstring js" where
  "swagger2BaseUrl spec scheme0 context =
     js_bind (url_parse context False) (\<lambda>i.
       let a = (case own spec ''schemes'' of JArr (x # _) \<Rightarrow> x | _ \<Rightarrow> JNull);
           u = text_or scheme0 (text_or a (if given (stripNonAlpha (protocol i)) then or_empty (stripNonAlpha (protocol i)) else str ''http''));
           s = text_or (own spec ''host'') (or_empty (host i)); l = text_or (own spec ''basePath'') []
       in Inr (strip_slash (if u \<noteq> [] \<and> s \<noteq> [] then u @ str ''://'' @ s @ l else l)))"

section \<open>Parameters\<close>

text \<open>\<open>A\<close> (\<open>deduplicateParameters\<close>): one parameter for each place and name, the last one.\<close>

definition add_param :: "json \<Rightarrow> (jsstring \<times> obj) list \<Rightarrow> (jsstring \<times> obj) list js" where
  "add_param e t =
     js_bind (get_prop e ''in'') (\<lambda>l.
       let k = js_text l
       in case map_of t k of
            Some fs \<Rightarrow> Inr (obj_put k (obj_put (prop_name e) e fs) t)
          | None \<Rightarrow> if k \<in> set object_prototype then Inr t else Inr (obj_put k [(prop_name e, e)] t))"

definition deduplicateParameters :: "json list \<Rightarrow> json list js" where
  "deduplicateParameters es = js_bind (js_fold add_param es []) (\<lambda>t. Inr (concat (map (\<lambda>(k, fs). map snd fs) t)))"

text \<open>The value that was passed for a parameter: under its name, or under its place and name.\<close>

definition passed_value :: "obj \<Rightarrow> json \<Rightarrow> json" where
  "passed_value g e =
     (let nm = own e ''name'';
          r = (if truthy nm then obj_at g (js_text nm) else nm)
      in if r \<noteq> JUndef then r
         else if truthy nm then obj_at g (js_text (own e ''in'') @ str ''.'' @ js_text nm) else nm)"

definition required_missing :: "json \<Rightarrow> json \<Rightarrow> bool" where
  "required_missing e r \<longleftrightarrow> r = JUndef \<and> truthy (own e ''required'') \<and> \<not> truthy (own e ''allowEmptyValue'')"

definition parse_object :: "(jsstring \<Rightarrow> json js) \<Rightarrow> bool \<Rightarrow> json \<Rightarrow> json \<Rightarrow> json js" where
  "parse_object json_parse v3 e r =
     (case r of
        JStr s \<Rightarrow>
          if v3 \<and> truthy (own e ''schema'') \<and> own (own e ''schema'') ''type'' = JStr (str ''object'') then
            (case json_parse s of
               Inl _ \<Rightarrow> Inl (OtherError ''Could not parse object parameter value string as JSON'')
             | Inr v \<Rightarrow> Inr v)
          else Inr r
      | _ \<Rightarrow> Inr r)"

definition put_parameter :: "(jsstring \<Rightarrow> json js) \<Rightarrow> bool \<Rightarrow> obj \<Rightarrow> json \<Rightarrow> request \<Rightarrow> request js" where
  "put_parameter json_parse v3 g e req =
     (let r0 = passed_value g e; r = (if r0 = JUndef then own e ''default'' else r0)
      in if r0 = JNull then Inr req
         else if required_missing e r then Inl (OtherError ''Required parameter is not provided'')
         else
           js_bind (parse_object json_parse v3 e r) (\<lambda>v.
             case (if v3 then oas3_builder else v2_builder) (own e ''in'') of
               None \<Rightarrow> Inr req
             | Some f \<Rightarrow> f e v req))"

section \<open>Requests\<close>

record request_options =
  o_operationId :: json
  o_parameters :: obj
  o_securities :: securities
  requestContentType :: json
  responseContentType :: json
  o_scheme :: json
  contextUrl :: jsstring
  requestBody :: json
  o_server :: json
  serverVariables :: obj
  attachContentTypeForEmptyPayload :: bool
  withCredentials :: bool

definition start_request :: "request_options \<Rightarrow> jsstring \<Rightarrow> request" where
  "start_request opts u =
     \<lparr>url = u, credentials = (if withCredentials opts then str ''include'' else str ''same-origin''), headers = [], cookies = [],
      query = JUndef, form = JUndef, req_body = NoBody, http_method = []\<rparr>"

text \<open>\<open>serialize\<close> of the package \<open>cookie\<close>, without options.\<close>

definition cookie_char :: "code_unit \<Rightarrow> bool" where
  "cookie_char c \<longleftrightarrow> (let n = uint c in n = 9 \<or> (32 \<le> n \<and> n \<le> 126) \<or> (128 \<le> n \<and> n \<le> 255))"

definition cookie_serialize :: "jsstring \<Rightarrow> json \<Rightarrow> jsstring js" where
  "cookie_serialize e t =
     (if e = [] \<or> (\<exists>c\<in>set e. \<not> cookie_char c) then Inl TypeError
      else js_bind (encodeURIComponent (js_text t)) (\<lambda>u.
             if \<exists>c\<in>set u. \<not> cookie_char c then Inl TypeError else Inr (e @ str ''='' @ u)))"

definition put_cookies :: "request \<Rightarrow> request js" where
  "put_cookies req =
     (if cookies req = [] then Inr req
      else js_bind (js_fold (\<lambda>(t, n) e. js_bind (cookie_serialize t n) (\<lambda>c. Inr (e @ (if e \<noteq> [] then str ''&'' else []) @ c))) (cookies req) [])
             (\<lambda>U. Inr (put_header (str ''Cookie'') (JStr U) req\<lparr>cookies := []\<rparr>)))"

definition buildRequest :: "(jsstring \<Rightarrow> json js) \<Rightarrow> json \<Rightarrow> request_options \<Rightarrow> request js" where
  "buildRequest json_parse t opts =
     js_bind (isOAS3 t) (\<lambda>v3.
     js_bind (getOperationRaw t (o_operationId opts)) (\<lambda>T.
       case T of
         None \<Rightarrow> Inl (OtherError ''OperationNotFoundError'')
       | Some M \<Rightarrow>
           js_bind (if v3 then oas3BaseUrl t (pathName M) (op_method M) (o_server opts) (contextUrl opts) (serverVariables opts)
                    else swagger2BaseUrl t (o_scheme opts) (contextUrl opts)) (\<lambda>base.
             let I = operation M; R = js_or (child (own t ''paths'') (pathName M)) (JObj []);
                 P0 = (start_request opts (base @ pathName M))\<lparr>http_method := toUpperCase (op_method M)\<rparr>;
                 P1 = (if truthy (responseContentType opts) then put_header (str ''accept'') (responseContentType opts) P0 else P0)
             in js_bind (deduplicateParameters (arr_items (own I ''parameters'') @ arr_items (own R ''parameters''))) (\<lambda>D.
                js_bind (js_fold (put_parameter json_parse v3 (o_parameters opts)) D P1) (\<lambda>P2.
                js_bind (if v3 then oas3_buildRequest (o_securities opts) I t (requestBody opts) (attachContentTypeForEmptyPayload opts)
                                      (requestContentType opts) P2
                         else v2_buildRequest (o_securities opts) I t (attachContentTypeForEmptyPayload opts) (requestContentType opts) P2)
                  (\<lambda>P3. js_bind (put_cookies P3) mergeInQueryOrForm))))))"

text \<open>\<open>execute\<close>: the identifier may be given by path and method, and a body that is an array or an object is sent as JSON.\<close>

definition body_text :: "request \<Rightarrow> request" where
  "body_text m =
     (case req_body m of
        Body v \<Rightarrow>
          (if is_arr v \<or> (case v of JObj _ \<Rightarrow> True | _ \<Rightarrow> False)
           then m\<lparr>req_body := Body (case json_stringify v of None \<Rightarrow> JUndef | Some s \<Rightarrow> JStr s)\<rparr> else m)
      | _ \<Rightarrow> m)"

definition execute ::
    "(request \<Rightarrow> 'r js) \<Rightarrow> (jsstring \<Rightarrow> json js) \<Rightarrow> json \<Rightarrow> jsstring \<Rightarrow> jsstring \<Rightarrow> request_options \<Rightarrow> 'r js" where
  "execute send json_parse spec path_name meth opts =
     (let i = (if path_name \<noteq> [] \<and> meth \<noteq> [] \<and> \<not> truthy (o_operationId opts)
               then JStr (legacyIdFromPathMethod path_name meth) else o_operationId opts)
      in js_bind (buildRequest json_parse spec (opts\<lparr>o_operationId := i\<rparr>)) (\<lambda>m. send (body_text m)))"

end
