(* ===== verification/Swg_Execute_Props.thy ===== *)
theory Swg_Execute_Props
  imports Swg_Execute
begin

text \<open>
  What a request that the client builds is like, when it is not built at all, and which of the credentials that the
  user has entered it may depend on.
\<close>

section \<open>Loops that keep a property, and loops that fail\<close>

lemma js_fold_keeps:
  assumes "js_fold f xs s = Inr t" "P s" "\<And>x s t. x \<in> set xs \<Longrightarrow> f x s = Inr t \<Longrightarrow> P s \<Longrightarrow> P t"
  shows "P t"
  using assms
proof (induction xs arbitrary: s)
  case (Cons x xs)
  from Cons.prems(1) obtain u where u: "f x s = Inr u" "js_fold f xs u = Inr t" by (auto simp: js_bind_eq_Inr)
  show ?case
  proof (rule Cons.IH [OF u(2)])
    show "P u" using Cons.prems(2,3) u(1) by (meson list.set_intros(1))
    show "\<And>y s t. y \<in> set xs \<Longrightarrow> f y s = Inr t \<Longrightarrow> P s \<Longrightarrow> P t" using Cons.prems(3) by (meson list.set_intros(2))
  qed
qed simp

lemma js_fold_fails:
  assumes "x \<in> set xs" "\<And>s. \<exists>e. f x s = Inl e"
  shows "\<exists>e. js_fold f xs s = Inl e"
  using assms(1)
proof (induction xs arbitrary: s)
  case (Cons y ys)
  show ?case
  proof (cases "f y s")
    case (Inr u)
    then have "x \<in> set ys" using Cons.prems assms(2) [of s] by auto
    then show ?thesis using Cons.IH [of u] Inr by simp
  qed simp
qed simp

lemma js_fold_cong: "(\<And>x s. x \<in> set xs \<Longrightarrow> f x s = g x s) \<Longrightarrow> js_fold f xs s = js_fold g xs s"
proof (induction xs arbitrary: s)
  case (Cons x xs)
  have "js_fold f xs = js_fold g xs" using Cons by (intro ext) simp
  then show ?case using Cons.prems [of x s] by simp
qed simp

section \<open>Requests that are ready to be sent\<close>

text \<open>What every part of the builder keeps: one header of a name, the method, and the mode of the credentials.\<close>

definition kept :: "jsstring \<Rightarrow> jsstring \<Rightarrow> request \<Rightarrow> bool" where
  "kept m c r \<longleftrightarrow> distinct (keys (headers r)) \<and> http_method r = m \<and> credentials r = c"

lemma kept_updates [simp]:
  "kept m c (r\<lparr>url := u\<rparr>) = kept m c r" "kept m c (r\<lparr>cookies := k\<rparr>) = kept m c r" "kept m c (r\<lparr>query := q\<rparr>) = kept m c r"
  "kept m c (r\<lparr>form := q\<rparr>) = kept m c r" "kept m c (r\<lparr>req_body := b\<rparr>) = kept m c r"
  by (simp_all add: kept_def)

lemma kept_put [simp]:
  "kept m c r \<Longrightarrow> kept m c (put_header k v r)" "kept m c (put_query k v r) = kept m c r" "kept m c (put_cookie k v r) = kept m c r"
  "kept m c (with_query r) = kept m c r" "kept m c (allow_empty p r) = kept m c r" "kept m c r \<Longrightarrow> kept m c (set_content_type v r)"
  by (simp_all add: put_header_def put_query_def put_cookie_def with_query_def allow_empty_def Let_def set_content_type_def)
     (simp_all add: kept_def)

lemma query_field_keeps: "oas3_query_field p st nm f r = Inr t \<Longrightarrow> kept m c r \<Longrightarrow> kept m c t"
  by (auto simp: oas3_query_field_def js_bind_eq_Inr)

lemma query_fields_keep: "js_fold (oas3_query_field p st nm) fs r = Inr t \<Longrightarrow> kept m c r \<Longrightarrow> kept m c t"
  by (rule js_fold_keeps [where P = "kept m c"]) (auto intro: query_field_keeps)

lemma oas3_query_keeps: "oas3_query p v r = Inr t \<Longrightarrow> kept m c r \<Longrightarrow> kept m c t"
  unfolding oas3_query_def Let_def
  by (auto simp: js_bind_eq_Inr split: if_splits elim!: query_fields_keep)

lemma oas3_header_keeps: "oas3_header p v r = Inr t \<Longrightarrow> kept m c r \<Longrightarrow> kept m c t"
  by (auto simp: oas3_header_def js_bind_eq_Inr split: json.splits if_splits)

lemma oas3_builder_keeps: "oas3_builder l = Some f \<Longrightarrow> f p v r = Inr t \<Longrightarrow> kept m c r \<Longrightarrow> kept m c t"
  by (auto simp: oas3_builder_def oas3_path_def oas3_cookie_def js_bind_eq_Inr
      split: if_splits intro: oas3_query_keeps oas3_header_keeps)

lemma v2_builder_keeps: "v2_builder l = Some f \<Longrightarrow> f p v r = Inr t \<Longrightarrow> kept m c r \<Longrightarrow> kept m c t"
  by (auto simp: v2_builder_def v2_body_def v2_header_def v2_path_def v2_formData_def v2_query_def Let_def js_bind_eq_Inr
      split: if_splits)

lemma put_parameter_keeps: "put_parameter jp v3 g e r = Inr t \<Longrightarrow> kept m c r \<Longrightarrow> kept m c t"
  by (auto simp: put_parameter_def Let_def js_bind_eq_Inr split: if_splits option.splits
      intro: oas3_builder_keeps v2_builder_keeps)

lemma oas3_apply_keeps: "oas3_apply a s r = Inr t \<Longrightarrow> kept m c r \<Longrightarrow> kept m c t"
  by (auto simp: oas3_apply_def Let_def js_bind_eq_Inr split: if_splits)

lemma v2_apply_keeps: "v2_apply a s r = Inr t \<Longrightarrow> kept m c r \<Longrightarrow> kept m c t"
  by (auto simp: v2_apply_def Let_def js_bind_eq_Inr split: if_splits)

lemma applySecurities_keeps:
  assumes "applySecurities ap sec oper m' h r = Inr t" "kept m c r" "\<And>a s r t. ap a s r = Inr t \<Longrightarrow> kept m c r \<Longrightarrow> kept m c t"
  shows "kept m c t"
proof -
  have s: "apply_scheme ap d m' n r = Inr t \<Longrightarrow> kept m c r \<Longrightarrow> kept m c t" for d n r t
    using assms(3) by (auto simp: apply_scheme_def Let_def split: if_splits)
  have "apply_requirements ap d m' es r = Inr t \<Longrightarrow> kept m c r \<Longrightarrow> kept m c t" for d es r t
    unfolding apply_requirements_def by (rule js_fold_keeps [where P = "kept m c"]) (auto intro: s)
  then show ?thesis using assms(1,2) by (auto simp: applySecurities_def split: if_splits json.splits)
qed

lemma oas3_body_keeps: "oas3_body p h b r = Inr t \<Longrightarrow> kept m c r \<Longrightarrow> kept m c t"
  by (auto simp: oas3_body_def split: if_splits)

lemma oas3_buildRequest_keeps: "oas3_buildRequest sec oper spec b att p r = Inr t \<Longrightarrow> kept m c r \<Longrightarrow> kept m c t"
  by (auto simp: oas3_buildRequest_def oas3_applySecurities_def Let_def js_bind_eq_Inr split: if_splits list.splits
      dest!: applySecurities_keeps [OF _ _ oas3_apply_keeps] elim!: oas3_body_keeps)

lemma v2_buildRequest_keeps: "v2_buildRequest sec oper spec att a r = Inr t \<Longrightarrow> kept m c r \<Longrightarrow> kept m c t"
  by (auto simp: v2_buildRequest_def v2_applySecurities_def js_bind_eq_Inr dest!: applySecurities_keeps [OF _ _ v2_apply_keeps])

lemma put_cookies_ready: "put_cookies r = Inr t \<Longrightarrow> kept m c r \<Longrightarrow> kept m c t \<and> cookies t = []"
  by (auto simp: put_cookies_def js_bind_eq_Inr split: if_splits)

lemma merge_form_ready: "merge_form r = Inr t \<Longrightarrow> kept m c r \<Longrightarrow> kept m c t \<and> cookies t = cookies r \<and> \<not> truthy (form t)"
  by (auto simp: merge_form_def Let_def js_bind_eq_Inr split: if_splits)

lemma merge_query_ready:
  "merge_query r = Inr t \<Longrightarrow> kept m c r \<Longrightarrow> kept m c t \<and> cookies t = cookies r \<and> form t = form r \<and> \<not> truthy (query t)"
  by (auto simp: merge_query_def Let_def js_bind_eq_Inr split: if_splits)

text \<open>
  C17: a request that is built is complete. It has the method of the operation that was asked for, the mode of the
  credentials that was asked for, at most one header of a name, and nothing is left in its cookies, its query and its
  form: they have become a header, a part of the URL and a body.
\<close>

theorem built_request_ready:
  assumes "buildRequest json_parse spec opts = Inr req"
  shows "\<exists>M. getOperationRaw spec (o_operationId opts) = Inr (Some M) \<and> http_method req = toUpperCase (op_method M) \<and>
    credentials req = (if withCredentials opts then str ''include'' else str ''same-origin'') \<and>
    distinct (map fst (headers req)) \<and> cookies req = [] \<and> \<not> truthy (query req) \<and> \<not> truthy (form req)"
proof -
  obtain v3 M base D P1 P2 P3 P4 P5 where M: "getOperationRaw spec (o_operationId opts) = Inr (Some M)"
    and P1: "P1 = (let P0 = (start_request opts (base @ pathName M))\<lparr>http_method := toUpperCase (op_method M)\<rparr>
                   in if truthy (responseContentType opts) then put_header (str ''accept'') (responseContentType opts) P0 else P0)"
    and P2: "js_fold (put_parameter json_parse v3 (o_parameters opts)) D P1 = Inr P2"
    and P3: "(if v3 then oas3_buildRequest (o_securities opts) (operation M) spec (requestBody opts)
                           (attachContentTypeForEmptyPayload opts) (requestContentType opts) P2
              else v2_buildRequest (o_securities opts) (operation M) spec (attachContentTypeForEmptyPayload opts)
                     (requestContentType opts) P2) = Inr P3"
    and P4: "put_cookies P3 = Inr P4" and P5: "merge_form P4 = Inr P5" "merge_query P5 = Inr req"
    using assms by (auto simp: buildRequest_def mergeInQueryOrForm_def Let_def js_bind_eq_Inr split: option.splits)
  define m c where "m = toUpperCase (op_method M)"
    and "c = (if withCredentials opts then str ''include'' else str ''same-origin'')"
  have "kept m c ((start_request opts (base @ pathName M))\<lparr>http_method := toUpperCase (op_method M)\<rparr>)"
    by (simp add: kept_def start_request_def m_def c_def keys_def)
  then have "kept m c P1" by (simp add: P1 Let_def)
  with P2 have "kept m c P2" by (rule js_fold_keeps) (rule put_parameter_keeps)
  then have "kept m c P3" using P3 by (auto split: if_splits elim: oas3_buildRequest_keeps v2_buildRequest_keeps)
  then have "kept m c P4" "cookies P4 = []" using put_cookies_ready [OF P4] by auto
  then have "kept m c req" "cookies req = []" "\<not> truthy (form req)" "\<not> truthy (query req)"
    using merge_form_ready [OF P5(1), of m c] merge_query_ready [OF P5(2), of m c] by auto
  then show ?thesis using M by (simp add: kept_def m_def c_def keys_def)
qed

section \<open>Required parameters\<close>

text \<open>The parameters of an operation: its own ones and those of its path.\<close>

definition operation_parameters :: "json \<Rightarrow> operation_ref \<Rightarrow> json list js" where
  "operation_parameters spec M =
     deduplicateParameters (arr_items (own (operation M) ''parameters'') @
       arr_items (own (js_or (child (own spec ''paths'') (pathName M)) (JObj [])) ''parameters''))"

text \<open>
  C11: when a parameter of the operation is required, has no value among those that were passed and no default, and may
  not be empty, \<open>execute\<close> fails, with an error that does not depend on the network: no request is sent.
\<close>

theorem required_parameter_error:
  assumes "truthy (o_operationId opts)" "getOperationRaw spec (o_operationId opts) = Inr (Some M)"
    "operation_parameters spec M = Inr D" "e \<in> set D" "truthy (own e ''required'')" "\<not> truthy (own e ''allowEmptyValue'')"
    "passed_value (o_parameters opts) e = JUndef" "own e ''default'' = JUndef"
  shows "\<exists>err. \<forall>send. execute send json_parse spec path_name meth opts = Inl err"
proof -
  have "\<exists>x. js_fold (put_parameter json_parse v3 (o_parameters opts)) D r = Inl x" for v3 r
    using assms(4) by (rule js_fold_fails) (simp add: put_parameter_def Let_def assms(5-8) required_missing_def)
  then have "\<not> (\<exists>req. buildRequest json_parse spec opts = Inr req)"
    using assms(2,3) by (auto simp: buildRequest_def operation_parameters_def Let_def js_bind_eq_Inr)
       (metis Inl_Inr_False)+
  then obtain x where "buildRequest json_parse spec opts = Inl x" by (metis sumE)
  then show ?thesis using assms(1) by (simp add: execute_def Let_def)
qed

section \<open>Credentials\<close>

text \<open>The security requirements that count for an operation: its own ones, or else those of the specification.\<close>

definition requirements :: "bool \<Rightarrow> json \<Rightarrow> securities \<Rightarrow> json \<Rightarrow> json" where
  "requirements v3 spec sec oper =
     (if v3 then js_or (js_or (own oper ''security'') (own spec ''security'')) (JArr [])
      else js_or (own oper ''security'') (if specSecurity sec = JUndef then JArr [] else specSecurity sec))"

definition requirement_names :: "json \<Rightarrow> jsstring set" where
  "requirement_names h = set (concat (map (\<lambda>e. map fst (for_in e)) (arr_items h)))"

text \<open>
  Two sets of credentials that an operation cannot tell apart: it asks for none, or they agree on the schemes that it
  names.
\<close>

definition same_for :: "bool \<Rightarrow> json \<Rightarrow> json \<Rightarrow> securities \<Rightarrow> securities \<Rightarrow> bool" where
  "same_for v3 spec oper s s' \<longleftrightarrow>
     own oper ''security'' = JArr [] \<or>
     sec_keys s = sec_keys s' \<and> specSecurity s = specSecurity s' \<and> (for_in (authorized s) = [] \<longleftrightarrow> for_in (authorized s') = []) \<and>
     (\<forall>n\<in>requirement_names (requirements v3 spec s oper).
        obj_at (obj_fields (authorized s)) n = obj_at (obj_fields (authorized s')) n)"

lemma apply_requirements_cong:
  assumes "\<And>n. n \<in> requirement_names (JArr es) \<Longrightarrow> obj_at (obj_fields d) n = obj_at (obj_fields d') n"
  shows "apply_requirements ap d m es r = apply_requirements ap d' m es r"
  unfolding apply_requirements_def
  by (rule js_fold_cong) (use assms in \<open>auto simp: apply_scheme_def requirement_names_def\<close>)

lemma applySecurities_cong:
  assumes "own oper ''security'' = JArr [] \<or>
     sec_keys s = sec_keys s' \<and> (for_in (authorized s) = [] \<longleftrightarrow> for_in (authorized s') = []) \<and>
     (\<forall>n\<in>requirement_names h. obj_at (obj_fields (authorized s)) n = obj_at (obj_fields (authorized s')) n)"
  shows "applySecurities ap s oper m h r = applySecurities ap s' oper m h r"
proof (cases "own oper ''security'' = JArr []")
  case False
  then show ?thesis using assms apply_requirements_cong [of _ "authorized s" "authorized s'" ap m]
    by (auto simp: applySecurities_def split: json.split)
qed (simp add: applySecurities_def)

lemma buildRequest_parts_cong:
  "same_for True spec oper s s' \<Longrightarrow> oas3_buildRequest s oper spec b att p r = oas3_buildRequest s' oper spec b att p r"
  "same_for False spec oper s s' \<Longrightarrow> v2_buildRequest s oper spec att p r = v2_buildRequest s' oper spec att p r"
proof -
  show "same_for True spec oper s s' \<Longrightarrow> oas3_buildRequest s oper spec b att p r = oas3_buildRequest s' oper spec b att p r"
    unfolding oas3_buildRequest_def oas3_applySecurities_def
    by (subst applySecurities_cong [of oper s s']) (auto simp: same_for_def requirements_def)
  assume a: "same_for False spec oper s s'"
  have "v2_applySecurities s oper spec r = v2_applySecurities s' oper spec r"
  proof (cases "own oper ''security'' = JArr []")
    case False
    then have e: "specSecurity s' = specSecurity s" using a by (simp add: same_for_def)
    show ?thesis unfolding v2_applySecurities_def e
      by (rule applySecurities_cong) (use a in \<open>auto simp: same_for_def requirements_def\<close>)
  qed (simp add: v2_applySecurities_def applySecurities_def)
  then show "v2_buildRequest s oper spec att p r = v2_buildRequest s' oper spec att p r" by (simp add: v2_buildRequest_def)
qed

text \<open>
  C4: a credential goes only where it is asked for. What is built, and so what is sent, is the same for two sets of
  credentials that agree on the schemes in the security requirements of the operation, and for all sets when the
  operation says that it needs none.
\<close>

theorem credentials_only_where_required:
  assumes "\<forall>v3 M. isOAS3 spec = Inr v3 \<longrightarrow> getOperationRaw spec (o_operationId opts) = Inr (Some M) \<longrightarrow>
             same_for v3 spec (operation M) s s'"
  shows "buildRequest json_parse spec (opts\<lparr>o_securities := s\<rparr>) = buildRequest json_parse spec (opts\<lparr>o_securities := s'\<rparr>)"
proof (cases "isOAS3 spec")
  case (Inr v3)
  show ?thesis
  proof (cases "getOperationRaw spec (o_operationId opts)")
    case g: (Inr T)
    show ?thesis
    proof (cases T)
      case (Some M)
      then have "same_for v3 spec (operation M) s s'" using assms Inr g by blast
      then show ?thesis using Inr g Some
        by (cases v3) (simp_all add: buildRequest_def start_request_def Let_def buildRequest_parts_cong [of spec _ s s'] cong: if_cong)
    qed (simp add: buildRequest_def Inr g)
  qed (simp add: buildRequest_def Inr)
qed (simp add: buildRequest_def)

section \<open>A specification with one operation\<close>

text \<open>
  An operation \<open>GET /pets\<close> with a required parameter \<open>limit\<close>. It asks for the scheme \<open>key\<close>; the specification has another
  one, \<open>admin\<close>.
\<close>

definition sample_limit :: json where
  "sample_limit = JObj [(str ''name'', JStr (str ''limit'')), (str ''in'', JStr (str ''query'')), (str ''required'', JBool True)]"

definition sample_operation :: json where
  "sample_operation =
     JObj [(str ''operationId'', JStr (str ''listPets'')), (str ''parameters'', JArr [sample_limit]),
           (str ''security'', JArr [JObj [(str ''key'', JArr [])]])]"

definition sample_scheme :: "jsstring \<Rightarrow> json" where
  "sample_scheme n = JObj [(str ''type'', JStr (str ''apiKey'')), (str ''in'', JStr (str ''header'')), (str ''name'', JStr n)]"

definition sample_spec :: json where
  "sample_spec =
     JObj [(str ''openapi'', JStr (str ''3.0.0'')), (str ''servers'', JArr [JObj [(str ''url'', JStr (str ''/v1''))]]),
           (str ''paths'', JObj [(str ''/pets'', JObj [(str ''get'', sample_operation)])]),
           (str ''components'', JObj [(str ''securitySchemes'',
              JObj [(str ''key'', sample_scheme (str ''X-Key'')), (str ''admin'', sample_scheme (str ''X-Admin''))])])]"

definition sample_ref :: operation_ref where
  "sample_ref = \<lparr>pathName = str ''/pets'', op_method = str ''GET'', operation = sample_operation\<rparr>"

definition sample_securities :: "obj \<Rightarrow> securities" where
  "sample_securities a = \<lparr>authorized = JObj a, specSecurity = JUndef, sec_keys = True\<rparr>"

definition sample_options :: "obj \<Rightarrow> obj \<Rightarrow> request_options" where
  "sample_options ps a =
     \<lparr>o_operationId = JStr (str ''listPets''), o_parameters = ps, o_securities = sample_securities a,
      requestContentType = JUndef, responseContentType = JUndef, o_scheme = JUndef, contextUrl = str ''/'',
      requestBody = JUndef, o_server = JUndef, serverVariables = [], attachContentTypeForEmptyPayload = False,
      withCredentials = False\<rparr>"

lemmas sample_defs = sample_limit_def sample_operation_def sample_scheme_def sample_spec_def sample_ref_def
  sample_securities_def sample_options_def own_def field_def str_def of_char_def

lemma sample_operation_found: "getOperationRaw sample_spec (JStr (str ''listPets'')) = Inr (Some sample_ref)"
  by (simp add: getOperationRaw_def findOperation_def operations_def is_objectlike_def path_operations_def names_operation_def
      opId_def js_or_def toUpperCase_def upper_unit_def escapeString_def is_space_def alnum_def sample_defs)

lemma sample_is_oas3: "isOAS3 sample_spec = Inr True"
  by (simp add: isOAS3_def startsWith_def to_string_def sample_defs)

lemma sample_parameters: "operation_parameters sample_spec sample_ref = Inr [sample_limit]"
  by (simp add: operation_parameters_def deduplicateParameters_def add_param_def prop_name_def object_prototype_def js_or_def
      child_def obj_put_def arr_items_def Let_def sample_defs)

theorem required_parameter_error_witness:
  "\<exists>err. \<forall>send :: request \<Rightarrow> unit js. execute send (\<lambda>s. Inl TypeError) sample_spec [] [] (sample_options [] []) = Inl err"
proof -
  have e: "own sample_limit ''required'' = JBool True" "own sample_limit ''allowEmptyValue'' = JUndef" "own sample_limit ''default'' = JUndef"
    "passed_value [] sample_limit = JUndef"
    by (simp_all add: passed_value_def Let_def obj_at_def object_prototype_def sample_defs)
  have i: "o_operationId (sample_options [] []) = JStr (str ''listPets'')" "o_parameters (sample_options [] []) = []"
    "truthy (JStr (str ''listPets''))" by (simp_all add: sample_options_def) (simp add: str_def)
  show ?thesis
    by (rule required_parameter_error [of _ _ sample_ref "[sample_limit]" sample_limit])
       (simp_all add: e i [simplified] i(1,2) sample_operation_found sample_parameters)
qed

lemma sample_base: "oas3BaseUrl sample_spec (str ''/pets'') (str ''GET'') JUndef (str ''/'') [] = Inr (str ''/v1'')"
  by (simp add: oas3BaseUrl_def Let_def pick_server_def js_or_def toLowerCase_def lower_unit_def oas3_server_url_def url_text_def
   url_parse_def fix_backslashes_def trim_spaces_def simple_path_def is_space_def stripNonAlpha_def given_def or_empty_def strip_slash_def or_opt_def empty_url_def
   sample_defs)

lemma sample_parameter_put:
  "put_parameter json_parse True [(str ''limit'', JNum (str ''5''))] sample_limit r =
     Inr (put_query (str ''limit'') (ready_value (JStr (str ''5''))) (with_query r))"
  by (simp add: put_parameter_def Let_def passed_value_def obj_at_def required_missing_def parse_object_def oas3_builder_def
     oas3_query_def stylize_def encodePrimitive_def encodeDisallowedCharacters_def prop_name_def js_or_def escape_mode_def 
     escape_char_def isRfc3986Unreserved_def alnum_def truthy_def sample_defs)

lemma sample_secured:
  "oas3_buildRequest (sample_securities [(str ''key'', JStr (str ''secret''))]) sample_operation sample_spec JUndef False JUndef r =
     Inr (put_header (str ''X-Key'') (JStr (str ''secret'')) (with_query r))"
  by (simp add: oas3_buildRequest_def oas3_applySecurities_def applySecurities_def apply_requirements_def apply_scheme_def Let_def
     js_or_def obj_at_def obj_fields_def oas3_apply_def oas3_body_def sample_defs)

lemma sample_query: 
  "encodeFormOrQuery (JObj [(str ''limit'', ready_value (JStr (str ''5'')))]) = Inr (str ''limit=5'')"
  by (simp add: encodeFormOrQuery_def encode_field_def Let_def ready_value_def formatValue_def is_objectlike_def isFile_def obj_put_def qs_stringify_def qs_pair_text_def
   field_def str_def of_char_def)

definition sample_request :: request where
  "sample_request =
     \<lparr>url = str ''/v1/pets?limit=5'', credentials = str ''same-origin'', headers = [(str ''X-Key'', JStr (str ''secret''))],
      cookies = [], query = JUndef, form = JUndef, req_body = NoBody, http_method = str ''GET''\<rparr>"

lemma sample_request_built:
  "buildRequest json_parse sample_spec (sample_options [(str ''limit'', JNum (str ''5''))] [(str ''key'', JStr (str ''secret''))]) =
     Inr sample_request"
proof -
  let ?r = "put_header (str ''X-Key'') (JStr (str ''secret'')) (with_query (put_query (str ''limit'') (ready_value (JStr (str ''5'')))
     (with_query (\<lparr>url = str ''/v1/pets'', credentials = str ''same-origin'', headers = [],
      cookies = [], query = JUndef, form = JUndef, req_body = NoBody, http_method = str ''GET''\<rparr>))))"
  have r: "cookies ?r = []" "form ?r = JUndef" "query ?r = JObj [(str ''limit'', ready_value (JStr (str ''5'')))]" "url ?r = str ''/v1/pets''"
    by (simp_all add: put_header_def with_query_def put_query_def js_or_def obj_put_def obj_fields_def)
  have "split_on 63 (str ''/v1/pets'') = [str ''/v1/pets'']" by (simp add: str_def of_char_def)
  then have "js_bind (put_cookies ?r) mergeInQueryOrForm = Inr sample_request"
    using sample_query by (simp add: put_cookies_def mergeInQueryOrForm_def merge_form_def merge_query_def r Let_def)
      (simp add: join_queries_def sample_request_def put_header_def put_query_def with_query_def obj_put_def str_def of_char_def)
  moreover have "str ''/v1'' @ str ''/pets'' = str ''/v1/pets''" "toUpperCase (str ''GET'') = str ''GET''"
    by (simp_all add: str_def of_char_def toUpperCase_def upper_unit_def)
  ultimately show ?thesis using sample_parameters sample_base
    by (simp add: buildRequest_def operation_parameters_def sample_is_oas3 sample_options_def sample_operation_found
       sample_ref_def start_request_def sample_parameter_put sample_secured)
qed

theorem built_request_ready_witness:
  "\<exists>M. getOperationRaw sample_spec (JStr (str ''listPets'')) = Inr (Some M) \<and> http_method sample_request = toUpperCase (op_method M) \<and>
     distinct (map fst (headers sample_request)) \<and> cookies sample_request = [] \<and> \<not> truthy (query sample_request)"
  using built_request_ready [OF sample_request_built] by (auto simp: sample_options_def)

theorem credentials_only_where_required_witness:
  "buildRequest (\<lambda>s. Inl TypeError) sample_spec (sample_options [] []\<lparr>o_securities := sample_securities [(str ''key'', JStr (str ''secret''))]\<rparr>) =
   buildRequest (\<lambda>s. Inl TypeError) sample_spec (sample_options [] []\<lparr>o_securities :=
     sample_securities [(str ''key'', JStr (str ''secret'')), (str ''admin'', JStr (str ''root''))]\<rparr>)"
proof (rule credentials_only_where_required, intro allI impI)
  fix v3 M
  assume "isOAS3 sample_spec = Inr v3" "getOperationRaw sample_spec (o_operationId (sample_options [] [])) = Inr (Some M)"
  then have "v3" "M = sample_ref" by (simp_all add: sample_is_oas3 sample_options_def sample_operation_found)
  then show "same_for v3 sample_spec (operation M) (sample_securities [(str ''key'', JStr (str ''secret''))])
      (sample_securities [(str ''key'', JStr (str ''secret'')), (str ''admin'', JStr (str ''root''))])"
    by (simp add: same_for_def requirements_def requirement_names_def js_or_def obj_at_def sample_defs)
qed

end
