(* ===== verification/JS_Access.thy ===== *)
theory JS_Access
  imports Swg_Normalize
begin

text \<open>
  Reading, assigning and deleting a property of any JavaScript value by a computed name, as \<open>v[k]\<close>, \<open>v[k] = x\<close> and
  \<open>delete v[k]\<close> do, and deep copies.

  An array is the list of its elements: a hole is \<open>undefined\<close>, and a property that is not an element is not kept.
  The methods of strings, numbers and booleans are not properties here; those of arrays are \<open>JFun 0\<close>. In code that is
  not in strict mode an assignment to a property of a string, a number or a boolean does nothing.
\<close>

section \<open>Properties\<close>

definition array_prototype :: "jsstring list" where
  "array_prototype = map str
     [''concat'', ''copyWithin'', ''entries'', ''every'', ''fill'', ''filter'', ''find'', ''findIndex'', ''forEach'',
      ''includes'', ''indexOf'', ''join'', ''keys'', ''lastIndexOf'', ''map'', ''pop'', ''push'', ''reduce'',
      ''reduceRight'', ''reverse'', ''shift'', ''slice'', ''some'', ''sort'', ''splice'', ''unshift'', ''values'']"

definition inherited_at :: "jsstring list \<Rightarrow> jsstring \<Rightarrow> json" where
  "inherited_at ps k = (if k \<in> set ps then JFun 0 else JUndef)"

definition arr_elem :: "json list \<Rightarrow> nat \<Rightarrow> json" where
  "arr_elem xs i = (if i < length xs then xs ! i else JUndef)"

definition js_index :: "json \<Rightarrow> jsstring \<Rightarrow> json js" where
  "js_index v k =
     (case v of
        JUndef \<Rightarrow> Inl TypeError
      | JNull \<Rightarrow> Inl TypeError
      | JObj fs \<Rightarrow> Inr (obj_at fs k)
      | JArr xs \<Rightarrow>
          Inr (case index_key k of
                 Some i \<Rightarrow> arr_elem xs i
               | None \<Rightarrow> if k = str ''length'' then JNat (length xs) else inherited_at (array_prototype @ object_prototype) k)
      | JStr s \<Rightarrow>
          Inr (case index_key k of
                 Some i \<Rightarrow> if i < length s then JStr [s ! i] else JUndef
               | None \<Rightarrow> if k = str ''length'' then JNat (length s) else inherited_at object_prototype k)
      | _ \<Rightarrow> Inr (inherited_at object_prototype k))"

definition store_elem :: "json list \<Rightarrow> nat \<Rightarrow> json \<Rightarrow> json list" where
  "store_elem xs i x = (if i < length xs then xs[i := x] else xs @ replicate (i - length xs) JUndef @ [x])"

definition js_store :: "json \<Rightarrow> jsstring \<Rightarrow> json \<Rightarrow> json js" where
  "js_store v k x =
     (case v of
        JUndef \<Rightarrow> Inl TypeError
      | JNull \<Rightarrow> Inl TypeError
      | JObj fs \<Rightarrow> Inr (JObj (obj_put k x fs))
      | JArr xs \<Rightarrow> Inr (case index_key k of Some i \<Rightarrow> JArr (store_elem xs i x) | None \<Rightarrow> v)
      | _ \<Rightarrow> Inr v)"

definition js_delete :: "json \<Rightarrow> jsstring \<Rightarrow> json js" where
  "js_delete v k =
     (case v of
        JUndef \<Rightarrow> Inl TypeError
      | JNull \<Rightarrow> Inl TypeError
      | JObj fs \<Rightarrow> Inr (JObj (obj_del k fs))
      | JArr xs \<Rightarrow> Inr (case index_key k of Some i \<Rightarrow> if i < length xs then JArr (xs[i := JUndef]) else v | None \<Rightarrow> v)
      | _ \<Rightarrow> Inr v)"

definition has_own :: "json \<Rightarrow> jsstring \<Rightarrow> bool" where
  "has_own v k \<longleftrightarrow> k \<in> fst ` set (for_in v) \<or> k = str ''length'' \<and> (is_arr v \<or> type_of v = ''string'')"

section \<open>Copies\<close>

text \<open>
  \<open>JSON.parse(JSON.stringify(v))\<close>: what is \<open>undefined\<close> or a function is left out of an object and is \<open>null\<close> in an array,
  and numbers that are not finite are \<open>null\<close>.
\<close>

definition unprintable :: "json \<Rightarrow> bool" where
  "unprintable v \<longleftrightarrow> type_of v = ''undefined'' \<or> type_of v = ''function''"

fun reparse :: "json \<Rightarrow> json" where
  "reparse (JArr xs) = JArr (map (\<lambda>x. if unprintable x then JNull else reparse x) xs)"
| "reparse (JObj fs) = JObj (map (\<lambda>(k, x). (k, reparse x)) (filter (\<lambda>(k, x). \<not> unprintable x) fs))"
| "reparse (JNum t) = (if t \<in> {str ''NaN'', str ''Infinity'', str ''-Infinity''} then JNull else JNum t)"
| "reparse (JFile n) = JObj []"
| "reparse v = v"

text \<open>Values that JSON has, in which every object has each property once.\<close>

fun plain_json :: "json \<Rightarrow> bool" where
  "plain_json JUndef \<longleftrightarrow> False"
| "plain_json (JFile n) \<longleftrightarrow> False"
| "plain_json (JFun n) \<longleftrightarrow> False"
| "plain_json (JNum t) \<longleftrightarrow> t \<notin> {str ''NaN'', str ''Infinity'', str ''-Infinity''}"
| "plain_json (JArr xs) \<longleftrightarrow> (\<forall>x\<in>set xs. plain_json x)"
| "plain_json (JObj fs) \<longleftrightarrow> distinct (keys fs) \<and> (\<forall>f\<in>set fs. plain_json (snd f))"
| "plain_json v \<longleftrightarrow> True"

lemma plain_printable: "plain_json v \<Longrightarrow> \<not> unprintable v"
  by (cases v) (simp_all add: unprintable_def)

lemma reparse_plain: "plain_json v \<Longrightarrow> reparse v = v"
proof (induction v)
  case (JArr xs)
  then show ?case by (simp add: plain_printable map_idI)
next
  case (JObj fs)
  have "filter (\<lambda>(k, x). \<not> unprintable x) fs = fs"
    using JObj.prems by (auto simp: filter_id_conv plain_printable)
  moreover have "map (\<lambda>(k, x). (k, reparse x)) fs = fs"
    using JObj by (intro map_idI) (auto simp: snds.simps)
  ultimately show ?case by simp
qed auto

end
