(* ===== verification/Json_Patch.thy ===== *)
theory Json_Patch
  imports JS_Access
begin

text \<open>
  JSON Patch (the package \<open>fast-json-patch\<close>): operations on a document at a path, sequences of them, their validation,
  and the patch that leads from one document to another. A patch is a JavaScript object, read as the code reads it.

  The code changes the document in place; here the changed document is the result. Names of operations that the table
  of operations inherits, a validator given as a function, and the observers of documents are not modelled.
\<close>

section \<open>Paths\<close>

definition replace_chars :: "code_unit \<Rightarrow> jsstring \<Rightarrow> jsstring \<Rightarrow> jsstring" where
  "replace_chars c t s = concat (map (\<lambda>x. if x = c then t else [x]) s)"

text \<open>\<open>replace(/~d/g, t)\<close> for a character \<open>d\<close>.\<close>

fun replace_tilde :: "code_unit \<Rightarrow> jsstring \<Rightarrow> jsstring \<Rightarrow> jsstring" where
  "replace_tilde d t (a # b # s) = (if a = 126 \<and> b = d then t @ replace_tilde d t s else a # replace_tilde d t (b # s))"
| "replace_tilde d t s = s"

definition escapePathComponent :: "jsstring \<Rightarrow> jsstring" where
  "escapePathComponent e =
     (if 47 \<notin> set e \<and> 126 \<notin> set e then e else replace_chars 47 (str ''~1'') (replace_chars 126 (str ''~0'') e))"

definition unescapePathComponent :: "jsstring \<Rightarrow> jsstring" where
  "unescapePathComponent e = replace_tilde 48 (str ''~'') (replace_tilde 49 (str ''/'') e)"

definition isInteger :: "jsstring \<Rightarrow> bool" where
  "isInteger e = list_all (\<lambda>c. 48 \<le> uint c \<and> uint c \<le> 57) e"

section \<open>Values\<close>

definition deepClone :: "json \<Rightarrow> json" where
  "deepClone e = (if type_of e = ''object'' then reparse e else if e = JUndef then JNull else e)"

fun hasUndefined :: "json \<Rightarrow> bool" where
  "hasUndefined JUndef = True"
| "hasUndefined (JArr xs) = list_ex hasUndefined xs"
| "hasUndefined (JObj fs) = list_ex (\<lambda>(k, x). hasUndefined x) fs"
| "hasUndefined v = False"

definition objectKeys :: "json \<Rightarrow> jsstring list" where
  "objectKeys e = map fst (for_in e)"

text \<open>
  \<open>deep-equal\<close> in strict mode. Two objects with the same keys are compared key by key; an array equals an object that
  has its elements under their indices.
\<close>

lemma for_in_smaller: "(k, x) \<in> set (for_in v) \<Longrightarrow> type_of v = ''object'' \<Longrightarrow> size x < size v"
proof -
  have arr: "(k, x) \<in> set (enum_from i xs) \<Longrightarrow> x \<in> set xs" for i and xs :: "json list"
    by (induction i xs rule: enum_from.induct) auto
  assume "(k, x) \<in> set (for_in v)" "type_of v = ''object''"
  then show ?thesis
  proof (cases v)
    case (JArr xs)
    then have "x \<in> set xs" using \<open>(k, x) \<in> set (for_in v)\<close> arr by (simp add: for_in_def)
    then show ?thesis using JArr size_list_estimation' [of x xs "size x" size] by simp
  next
    case (JObj fs)
    then have "(k, x) \<in> set fs" using \<open>(k, x) \<in> set (for_in v)\<close> by (simp add: for_in_def)
    then have "size x < size_list (size_prod (\<lambda>_. 0) size) fs"
      by (intro size_list_estimation [of "(k, x)" fs]) simp_all
    then show ?thesis using JObj by simp
  qed (simp_all add: for_in_def)
qed

definition same_value :: "json \<Rightarrow> json \<Rightarrow> bool" where
  "same_value e t \<longleftrightarrow> e = t \<and> type_of e \<noteq> ''object'' \<and> e \<noteq> JNum (str ''NaN'') \<or> e = JNull \<and> t = JNull"

definition at_key :: "json \<Rightarrow> jsstring \<Rightarrow> json" where
  "at_key v k = (case map_of (for_in v) k of None \<Rightarrow> JUndef | Some x \<Rightarrow> x)"

function deep_equal :: "json \<Rightarrow> json \<Rightarrow> bool" where
  "deep_equal e t \<longleftrightarrow>
     (if \<not> truthy e \<or> \<not> truthy t \<or> (type_of e \<noteq> ''object'' \<and> type_of t \<noteq> ''object'') then same_value e t
      else if type_of e \<noteq> ''object'' \<or> type_of t \<noteq> ''object'' then False
      else
        strictly_equal (own e ''prototype'') (own t ''prototype'') \<and>
        length (for_in e) = length (for_in t) \<and> set (objectKeys e) = set (objectKeys t) \<and>
        (\<forall>f\<in>set (for_in e). deep_equal (snd f) (at_key t (fst f))))"
  by pat_completeness auto
termination
  by (relation "measure (\<lambda>(e, t). size e)") (auto simp: for_in_smaller)

declare deep_equal.simps [simp del]

section \<open>Operations at the end of a path\<close>

text \<open>What an operation reports beside the document: what was there before, the outcome of a test, and what was read.\<close>

record op_info =
  removed :: json
  test :: "bool option"
  got :: json

definition no_info :: op_info where
  "no_info = \<lparr>removed = JUndef, test = None, got = JUndef\<rparr>"

definition is_op :: "json \<Rightarrow> string \<Rightarrow> bool" where
  "is_op n k \<longleftrightarrow> own n ''op'' = JStr (str k)"

text \<open>In an object (or a value that is not an array). \<open>move\<close> and \<open>copy\<close> do their work on the whole document, below.\<close>

definition obj_operation :: "json \<Rightarrow> json \<Rightarrow> jsstring \<Rightarrow> (json \<times> op_info) js" where
  "obj_operation n e t =
     (if is_op n ''add'' then js_bind (js_store e t (own n ''value'')) (\<lambda>d. Inr (d, no_info))
      else if is_op n ''remove'' then
        js_bind (js_index e t) (\<lambda>r. js_bind (js_delete e t) (\<lambda>d. Inr (d, no_info\<lparr>removed := r\<rparr>)))
      else if is_op n ''replace'' then
        js_bind (js_index e t) (\<lambda>r. js_bind (js_store e t (own n ''value'')) (\<lambda>d. Inr (d, no_info\<lparr>removed := r\<rparr>)))
      else if is_op n ''test'' then js_bind (js_index e t) (\<lambda>x. Inr (e, no_info\<lparr>test := Some (deep_equal x (own n ''value''))\<rparr>))
      else if is_op n ''_get'' then js_bind (js_index e t) (\<lambda>x. Inr (e, no_info\<lparr>got := x\<rparr>))
      else if is_op n ''move'' \<or> is_op n ''copy'' then Inr (e, no_info)
      else Inl TypeError)"

text \<open>
  In an array: a token is \<open>-\<close> for the place after the last element, or decimal digits, of which \<open>~~\<close> keeps 32 bits, or a
  name. A token of more than fifteen digits, and removing at a name (which \<open>splice\<close> turns into a number), are not modelled.
\<close>

datatype arr_token = At int | Named jsstring

definition int32_of :: "int \<Rightarrow> int" where
  "int32_of n = (let m = n mod 2 ^ 32 in if m < 2 ^ 31 then m else m - 2 ^ 32)"

definition arrayToken :: "bool \<Rightarrow> json list \<Rightarrow> jsstring \<Rightarrow> arr_token js" where
  "arrayToken r d g =
     (if g = str ''-'' then Inr (At (int (length d)))
      else if r \<and> \<not> isInteger g then Inl (OtherError ''OPERATION_PATH_ILLEGAL_ARRAY_INDEX'')
      else if isInteger g then
        (if length g > 15 then Inl (OtherError ''index of more than fifteen digits'')
         else Inr (At (int32_of (case digits_value g 0 of None \<Rightarrow> 0 | Some n \<Rightarrow> int n))))
      else Inr (Named g))"

definition splice_start :: "json list \<Rightarrow> int \<Rightarrow> nat" where
  "splice_start d i = (if i < 0 then nat (max 0 (int (length d) + i)) else min (length d) (nat i))"

definition arr_at :: "json list \<Rightarrow> arr_token \<Rightarrow> json js" where
  "arr_at d t = (case t of At i \<Rightarrow> Inr (if i < 0 then JUndef else arr_elem d (nat i)) | Named k \<Rightarrow> js_index (JArr d) k)"

definition arr_put :: "json list \<Rightarrow> arr_token \<Rightarrow> json \<Rightarrow> json list" where
  "arr_put d t x = (case t of At i \<Rightarrow> if i < 0 then d else store_elem d (nat i) x | Named k \<Rightarrow> d)"

definition arr_operation :: "json \<Rightarrow> json list \<Rightarrow> arr_token \<Rightarrow> (json \<times> op_info) js" where
  "arr_operation n d t =
     (let v = own n ''value''
      in if is_op n ''add'' then
           Inr (case t of
                  At i \<Rightarrow> (JArr (take (splice_start d i) d @ [v] @ drop (splice_start d i) d), no_info)
                | Named k \<Rightarrow> (JArr d, no_info))
         else if is_op n ''remove'' then
           (case t of
              At i \<Rightarrow>
                (let s = splice_start d i in Inr (JArr (take s d @ drop (Suc s) d), no_info\<lparr>removed := arr_elem d s\<rparr>))
            | Named k \<Rightarrow> Inl (OtherError ''removal at a name of an array''))
         else if is_op n ''replace'' then js_bind (arr_at d t) (\<lambda>r. Inr (JArr (arr_put d t v), no_info\<lparr>removed := r\<rparr>))
         else if is_op n ''test'' then js_bind (arr_at d t) (\<lambda>x. Inr (JArr d, no_info\<lparr>test := Some (deep_equal x v)\<rparr>))
         else if is_op n ''_get'' then js_bind (arr_at d t) (\<lambda>x. Inr (JArr d, no_info\<lparr>got := x\<rparr>))
         else if is_op n ''move'' \<or> is_op n ''copy'' then Inr (JArr d, no_info)
         else Inl TypeError)"

section \<open>The walk_path along a path\<close>

text \<open>
  The loop of \<open>applyOperation\<close>. With validation (\<open>r\<close>), \<open>y\<close> is called once with the part of the path that exists: at the
  first token that the container does not have (looked up as it is written, escapes and all), or at the last one.
\<close>

definition unescaped :: "jsstring \<Rightarrow> jsstring" where
  "unescaped g = (if 126 \<in> set g then unescapePathComponent g else g)"

definition check_step :: "bool \<Rightarrow> (jsstring \<Rightarrow> unit js) \<Rightarrow> json \<Rightarrow> jsstring list \<Rightarrow> bool \<Rightarrow> jsstring \<Rightarrow> bool \<Rightarrow> json \<Rightarrow> bool js" where
  "check_step r y n before m g final d =
     (if r \<and> \<not> m then
        js_bind (js_index d g) (\<lambda>x.
          if x = JUndef then js_bind (y (join [47] ([] # before))) (\<lambda>u. Inr True)
          else if final then js_bind (y (js_text (own n ''path''))) (\<lambda>u. Inr True)
          else Inr False)
      else Inr m)"

fun walk_path :: "bool \<Rightarrow> (jsstring \<Rightarrow> unit js) \<Rightarrow> json \<Rightarrow> jsstring list \<Rightarrow> bool \<Rightarrow> jsstring list \<Rightarrow> json \<Rightarrow> (json \<times> op_info) js" where
  "walk_path r y n before m [] d = Inl TypeError"
| "walk_path r y n before m (g # gs) d =
     js_bind (check_step r y n before m g (gs = []) d) (\<lambda>m'.
       case d of
         JArr xs \<Rightarrow>
           js_bind (arrayToken r xs g) (\<lambda>t.
             if gs = [] then
               (if r \<and> is_op n ''add'' \<and> (case t of At i \<Rightarrow> i > int (length xs) | Named k \<Rightarrow> False)
                then Inl (OtherError ''OPERATION_VALUE_OUT_OF_BOUNDS'') else arr_operation n xs t)
             else
               js_bind (arr_at xs t) (\<lambda>x. js_bind (walk_path r y n (before @ [g]) m' gs x) (\<lambda>(x', inf).
                 Inr (if x' = x then d else JArr (arr_put xs t x'), inf))))
       | _ \<Rightarrow>
           if gs = [] then obj_operation n d (unescaped g)
           else
             js_bind (js_index d (unescaped g)) (\<lambda>x. js_bind (walk_path r y n (before @ [g]) m' gs x) (\<lambda>(x', inf).
               js_bind (if x' = x then Inr d else js_store d (unescaped g) x') (\<lambda>d'. Inr (d', inf)))))"

declare walk_path.simps(2) [simp del]

section \<open>One operation\<close>

definition path_tokens :: "json \<Rightarrow> jsstring list js" where
  "path_tokens p = (if \<not> truthy p then Inr [] else case p of JStr s \<Rightarrow> Inr (tl (split_on 47 s)) | _ \<Rightarrow> Inl TypeError)"

text \<open>A path without a slash names the property \<open>undefined\<close>.\<close>

definition apply_at :: "bool \<Rightarrow> (jsstring \<Rightarrow> unit js) \<Rightarrow> json \<Rightarrow> json \<Rightarrow> (json \<times> op_info) js" where
  "apply_at r y n e =
     js_bind (path_tokens (own n ''path'')) (\<lambda>gs.
       if gs = [] then (if is_arr e then Inl TypeError else obj_operation n e (str ''undefined''))
       else walk_path r y n [] False gs e)"

definition test_passed :: "json \<times> op_info \<Rightarrow> (json \<times> op_info) js" where
  "test_passed c = (if test (snd c) = Some False then Inl (OtherError ''TEST_OPERATION_FAILED'') else Inr c)"

text \<open>The operations other than \<open>move\<close> and \<open>copy\<close> on the whole document, and without validation at any path.\<close>

definition root_operation :: "json \<Rightarrow> json \<Rightarrow> (json \<times> op_info) js" where
  "root_operation n e =
     (if is_op n ''add'' then Inr (own n ''value'', no_info)
      else if is_op n ''replace'' then Inr (own n ''value'', no_info\<lparr>removed := e\<rparr>)
      else if is_op n ''test'' then test_passed (e, no_info\<lparr>test := Some (deep_equal e (own n ''value''))\<rparr>)
      else if is_op n ''remove'' then Inr (JNull, no_info\<lparr>removed := e\<rparr>)
      else if is_op n ''_get'' then Inr (e, no_info\<lparr>got := e\<rparr>)
      else Inr (e, no_info))"

definition simple_operation :: "json \<Rightarrow> json \<Rightarrow> (json \<times> op_info) js" where
  "simple_operation n e =
     (if own n ''path'' = JStr [] then root_operation n e
      else js_bind (apply_at False (\<lambda>m. Inr ()) n e) test_passed)"

definition patch_at :: "string \<Rightarrow> json \<Rightarrow> json" where
  "patch_at k p = JObj [(str ''op'', JStr (str k)), (str ''path'', p)]"

definition patch_value :: "string \<Rightarrow> json \<Rightarrow> json \<Rightarrow> json" where
  "patch_value k p v = JObj [(str ''op'', JStr (str k)), (str ''path'', p), (str ''value'', v)]"

text \<open>\<open>"" == t\<close>.\<close>

definition loosely_empty :: "json \<Rightarrow> bool" where
  "loosely_empty t \<longleftrightarrow> t \<in> {JStr [], JNum (str ''0''), JBool False, JArr []}"

definition getValueByPointer :: "json \<Rightarrow> json \<Rightarrow> json js" where
  "getValueByPointer e t =
     (if loosely_empty t then Inr e else js_bind (simple_operation (patch_at ''_get'' t) e) (\<lambda>(d, inf). Inr (got inf)))"

text \<open>Moving the whole document into itself would make it cyclic.\<close>

definition move_operation :: "json \<Rightarrow> json \<Rightarrow> (json \<times> op_info) js" where
  "move_operation n e =
     js_bind (getValueByPointer e (own n ''path'')) (\<lambda>r.
       if own n ''from'' = JStr [] then Inl (OtherError ''cyclic document'')
       else
         js_bind (simple_operation (patch_at ''remove'' (own n ''from'')) e) (\<lambda>(d, inf).
           js_bind (simple_operation (patch_value ''add'' (own n ''path'') (removed inf)) d) (\<lambda>(d', inf').
             Inr (d', no_info\<lparr>removed := if truthy r then deepClone r else r\<rparr>))))"

definition copy_operation :: "json \<Rightarrow> json \<Rightarrow> (json \<times> op_info) js" where
  "copy_operation n e =
     js_bind (getValueByPointer e (own n ''from'')) (\<lambda>r.
       js_bind (simple_operation (patch_value ''add'' (own n ''path'') (deepClone r)) e) (\<lambda>(d, inf). Inr (d, no_info)))"

section \<open>Validation\<close>

definition patch_failure :: "string \<Rightarrow> unit js" where
  "patch_failure k = Inl (OtherError k)"

definition takes_value :: "json \<Rightarrow> bool" where
  "takes_value e \<longleftrightarrow> is_op e ''add'' \<or> is_op e ''replace'' \<or> is_op e ''test''"

text \<open>The checks of \<open>validator\<close> that need no document.\<close>

definition check_patch :: "json \<Rightarrow> unit js" where
  "check_patch e =
     (if type_of e \<noteq> ''object'' \<or> e = JNull \<or> is_arr e then patch_failure ''OPERATION_NOT_AN_OBJECT''
      else if \<not> (takes_value e \<or> is_op e ''remove'' \<or> is_op e ''move'' \<or> is_op e ''copy'' \<or> is_op e ''_get'')
        then patch_failure ''OPERATION_OP_INVALID''
      else
        (case own e ''path'' of
           JStr p \<Rightarrow>
             (if p \<noteq> [] \<and> hd p \<noteq> 47 then patch_failure ''OPERATION_PATH_INVALID''
              else if (is_op e ''move'' \<or> is_op e ''copy'') \<and> type_of (own e ''from'') \<noteq> ''string''
                then patch_failure ''OPERATION_FROM_REQUIRED''
              else if takes_value e \<and> own e ''value'' = JUndef then patch_failure ''OPERATION_VALUE_REQUIRED''
              else if takes_value e \<and> hasUndefined (own e ''value'') then patch_failure ''OPERATION_VALUE_CANNOT_CONTAIN_UNDEFINED''
              else Inr ())
         | _ \<Rightarrow> patch_failure ''OPERATION_PATH_INVALID''))"

definition path_exists :: "json \<Rightarrow> jsstring \<Rightarrow> unit js" where
  "path_exists e m = (if own e ''path'' \<noteq> JStr m then patch_failure ''OPERATION_PATH_UNRESOLVABLE'' else Inr ())"

text \<open>Errors that are not a \<open>JsonPatchError\<close>.\<close>

definition other_failure :: "js_error \<Rightarrow> bool" where
  "other_failure x \<longleftrightarrow>
     (case x of
        OtherError s \<Rightarrow> s \<in> {''index of more than fifteen digits'', ''removal at a name of an array'', ''cyclic document''}
      | _ \<Rightarrow> True)"

text \<open>Whether the path of a \<open>_get\<close> can be followed in a copy of the document.\<close>

definition check_from :: "json \<Rightarrow> json \<Rightarrow> unit js" where
  "check_from from doc =
     (let g = patch_at ''_get'' from
      in case js_bind (check_patch g) (\<lambda>u.
                if from = JStr [] then Inr () else js_bind (apply_at True (path_exists g) g (deepClone doc)) (\<lambda>c. Inr ())) of
           Inr u \<Rightarrow> Inr ()
         | Inl x \<Rightarrow>
             if other_failure x then Inl x
             else if x = OtherError ''OPERATION_PATH_UNRESOLVABLE'' then patch_failure ''OPERATION_FROM_UNRESOLVABLE''
             else Inr ())"

definition check_place :: "json \<Rightarrow> json \<Rightarrow> jsstring \<Rightarrow> unit js" where
  "check_place e doc m =
     (if \<not> truthy doc then Inr ()
      else if is_op e ''add'' then
        (let i = length (split_on 47 (js_text (own e ''path''))); s = length (split_on 47 m)
         in if i \<noteq> s + 1 \<and> i \<noteq> s then patch_failure ''OPERATION_PATH_CANNOT_ADD'' else Inr ())
      else if is_op e ''replace'' \<or> is_op e ''remove'' \<or> is_op e ''_get'' then path_exists e m
      else if is_op e ''move'' \<or> is_op e ''copy'' then check_from (own e ''from'') doc
      else Inr ())"

definition validator :: "json \<Rightarrow> json \<Rightarrow> jsstring \<Rightarrow> unit js" where
  "validator e doc m = js_bind (check_patch e) (\<lambda>u. check_place e doc m)"

section \<open>Patches\<close>

definition applyOperation :: "bool \<Rightarrow> json \<Rightarrow> json \<Rightarrow> (json \<times> op_info) js" where
  "applyOperation r n e =
     js_bind (if r then check_patch n else Inr ()) (\<lambda>u.
       if own n ''path'' = JStr [] then
         (if is_op n ''move'' then js_bind (getValueByPointer e (own n ''from'')) (\<lambda>d. Inr (d, no_info\<lparr>removed := e\<rparr>))
          else if is_op n ''copy'' then js_bind (getValueByPointer e (own n ''from'')) (\<lambda>d. Inr (d, no_info))
          else root_operation n e)
       else
         js_bind (apply_at r (validator n e) n e) (\<lambda>c.
           if is_op n ''move'' then move_operation n e
           else if is_op n ''copy'' then copy_operation n e
           else test_passed c))"

fun apply_each :: "bool \<Rightarrow> json list \<Rightarrow> json \<Rightarrow> (json \<times> op_info list) js" where
  "apply_each r [] e = Inr (e, [])"
| "apply_each r (n # ns) e =
     js_bind (applyOperation r n e) (\<lambda>(d, inf). js_bind (apply_each r ns d) (\<lambda>(d', infs). Inr (d', inf # infs)))"

definition applyPatch :: "json \<Rightarrow> json list \<Rightarrow> bool \<Rightarrow> bool \<Rightarrow> (json \<times> op_info list) js" where
  "applyPatch e ns r mutate = apply_each r ns (if mutate then e else deepClone e)"

definition applyReducer :: "json \<Rightarrow> json \<Rightarrow> json js" where
  "applyReducer e n = js_bind (applyOperation False n e) (\<lambda>c. Inr (fst c))"

text \<open>\<open>validate\<close>: the name of the error that the first offending operation gives, if one does.\<close>

definition validate :: "json list \<Rightarrow> json \<Rightarrow> string option js" where
  "validate ns doc =
     (case (if truthy doc
            then js_bind (applyPatch (deepClone doc) (map deepClone ns) True True) (\<lambda>c. Inr ())
            else js_fold (\<lambda>n u. check_patch n) ns ()) of
        Inr u \<Rightarrow> Inr None
      | Inl x \<Rightarrow> if other_failure x then Inl x else Inr (case x of OtherError s \<Rightarrow> Some s | _ \<Rightarrow> None))"

section \<open>Comparing documents\<close>

text \<open>
  \<open>f\<close> (\<open>_generate\<close>): going backwards through the keys of \<open>e\<close>, removals, changes inside values that are objects on
  both sides, and replacements; then the additions. Values have no method \<open>toJSON\<close>.
\<close>

definition is_object :: "json \<Rightarrow> bool" where
  "is_object v \<longleftrightarrow> type_of v = ''object'' \<and> v \<noteq> JNull"

definition gone :: "json \<Rightarrow> jsstring \<Rightarrow> json \<Rightarrow> bool" where
  "gone t p l \<longleftrightarrow> \<not> has_own t p \<or> at_key t p = JUndef \<and> l \<noteq> JUndef \<and> \<not> is_arr t"

definition path_text :: "jsstring \<Rightarrow> jsstring \<Rightarrow> json" where
  "path_text o' p = JStr (o' @ [47] @ escapePathComponent p)"

definition additions :: "json \<Rightarrow> json \<Rightarrow> jsstring \<Rightarrow> json list" where
  "additions e t o' =
     map (\<lambda>p. patch_value ''add'' (path_text o' p) (deepClone (at_key t p)))
       (filter (\<lambda>p. \<not> has_own e p \<and> at_key t p \<noteq> JUndef) (objectKeys t))"

function generate :: "json \<Rightarrow> json \<Rightarrow> jsstring \<Rightarrow> json list" where
  "generate e t o' =
     concat (map (\<lambda>(p, l).
       if gone t p l then [patch_at ''remove'' (path_text o' p)]
       else if is_object l \<and> is_object (at_key t p) \<and> is_object e then generate l (at_key t p) (o' @ [47] @ escapePathComponent p)
       else if \<not> same_value l (at_key t p) then [patch_value ''replace'' (path_text o' p) (deepClone (at_key t p))]
       else []) (rev (for_in e))) @
     (if (\<exists>f\<in>set (for_in e). gone t (fst f) (snd f)) \<or> length (objectKeys t) \<noteq> length (objectKeys e)
      then additions e t o' else [])"
  by pat_completeness auto
termination
  by (relation "measure (\<lambda>(e, t, p). size e)") (auto simp: is_object_def intro: for_in_smaller)

declare generate.simps [simp del]

definition compare :: "json \<Rightarrow> json \<Rightarrow> json list js" where
  "compare e t = (if same_value e t then Inr [] else if t = JUndef \<or> t = JNull \<or> e = JUndef \<or> e = JNull then Inl TypeError else Inr (generate e t []))"

end
