(* ===== verification/JS_Digits.thy ===== *)
theory JS_Digits
  imports JS_Access
begin

text \<open>
  Decimal texts of natural numbers: printing and reading are inverse, and the elements of an array are found under the
  texts of their indices.
\<close>

lemma uint_digit: "d < 10 \<Longrightarrow> uint (digit_unit d) = 48 + int d"
proof -
  assume "d < 10"
  then have "(48 + d) mod 65536 = 48 + d" by (intro mod_less) simp
  moreover have "uint (of_nat (48 + d) :: code_unit) = int ((48 + d) mod 65536)"
    by (simp only: unsigned_of_nat take_bit_eq_mod) simp
  ultimately show ?thesis by (simp add: digit_unit_def)
qed

lemma digit_value_digit [simp]: "d < 10 \<Longrightarrow> digit_value (digit_unit d) = Some d"
  by (simp add: digit_value_def uint_digit)

lemma digits_value_append:
  "digits_value (s @ t) n = (case digits_value s n of None \<Rightarrow> None | Some m \<Rightarrow> digits_value t m)"
  by (induction s arbitrary: n) (auto split: option.splits)

lemma digits_nat_text [simp]: "digits_value (nat_text n) 0 = Some n"
proof (induction n rule: nat_text.induct)
  case (1 n)
  show ?case
  proof (cases "n < 10")
    case False
    then show ?thesis using 1 by (subst nat_text.simps) (simp add: digits_value_append)
  qed (simp add: nat_text.simps)
qed

lemma nat_text_inj [simp]: "nat_text m = nat_text n \<longleftrightarrow> m = n"
  by (metis digits_nat_text option.inject)

lemma nat_text_nonempty [simp]: "nat_text n \<noteq> []"
  by (subst nat_text.simps) simp

lemma nat_text_digits: "c \<in> set (nat_text n) \<Longrightarrow> 48 \<le> uint c \<and> uint c \<le> 57"
proof (induction n rule: nat_text.induct)
  case (1 n)
  show ?case
  proof (cases "n < 10")
    case True
    then show ?thesis using "1.prems" by (subst (asm) nat_text.simps) (simp add: uint_digit)
  next
    case False
    then have "c \<in> set (nat_text (n div 10)) \<or> c = digit_unit (n mod 10)" using "1.prems" by (subst (asm) nat_text.simps) auto
    then show ?thesis using "1.IH" [OF False] uint_digit [of "n mod 10"] by auto
  qed
qed

lemma nat_text_head: "0 < n \<Longrightarrow> hd (nat_text n) \<noteq> 48"
proof (induction n rule: nat_text.induct)
  case (1 n)
  show ?case
  proof (cases "n < 10")
    case True
    then have "uint (digit_unit n) \<noteq> uint (48 :: code_unit)" using "1.prems" by (simp add: uint_digit)
    then show ?thesis using True by (subst nat_text.simps) auto
  next
    case False
    then have "hd (nat_text (n div 10)) \<noteq> 48" using "1.IH" by simp
    then show ?thesis using False by (subst nat_text.simps) simp
  qed
qed

lemma nat_text_length: "n < 10 ^ Suc k \<Longrightarrow> length (nat_text n) \<le> Suc k"
proof (induction k arbitrary: n)
  case (Suc k)
  show ?case
  proof (cases "n < 10")
    case False
    have "n div 10 < 10 ^ Suc k" using Suc.prems by (simp add: less_mult_imp_div_less mult.commute)
    then show ?thesis using Suc.IH [of "n div 10"] False by (subst nat_text.simps) simp
  qed (simp add: nat_text.simps)
qed (simp add: nat_text.simps)

lemma index_nat_text [simp]: "n < 2 ^ 32 - 1 \<Longrightarrow> index_key (nat_text n) = Some n"
proof -
  assume n: "n < 2 ^ 32 - 1"
  obtain c cs where t: "nat_text n = c # cs" by (cases "nat_text n") auto
  have "\<not> (c = 48 \<and> cs \<noteq> [])"
  proof
    assume a: "c = 48 \<and> cs \<noteq> []"
    then have "n = 0" using nat_text_head [of n] t by fastforce
    then show False using a t by (simp add: nat_text.simps)
  qed
  then show ?thesis using n t digits_nat_text [of n] by (auto simp: index_key_def)
qed

lemma nat_text_free: "uint c < 48 \<or> 57 < uint c \<Longrightarrow> c \<notin> set (nat_text n)"
  using nat_text_digits by force

lemma nat_text_not_length [simp]: "nat_text n \<noteq> str ''length''"
proof
  assume "nat_text n = str ''length''"
  then have "108 \<in> set (nat_text n)" by (simp add: str_def)
  then show False using nat_text_free [of 108 n] by simp
qed

section \<open>Elements by their names\<close>

lemma keys_enum: "fst ` set (enum_from i xs) = nat_text ` {i..<i + length xs}"
proof (induction i xs rule: enum_from.induct)
  case (2 i x xs)
  have "{i..<i + length (x # xs)} = insert i {Suc i..<Suc i + length xs}" by auto
  then show ?case using 2 by simp
qed simp

lemma distinct_enum: "distinct (keys (enum_from i xs))"
proof (induction i xs rule: enum_from.induct)
  case (2 i x xs)
  then show ?case using keys_enum [of "Suc i" xs] by (auto simp: keys_def)
qed (simp add: keys_def)

lemma map_of_enum: "map_of (enum_from i xs) (nat_text j) = (if i \<le> j \<and> j < i + length xs then Some (xs ! (j - i)) else None)"
proof (induction i xs rule: enum_from.induct)
  case (2 i x xs)
  have "i < j \<Longrightarrow> (x # xs) ! (j - i) = xs ! (j - Suc i)" by (simp add: nth_Cons')
  then show ?case using 2 by auto
qed simp

lemma length_enum [simp]: "length (enum_from i xs) = length xs"
  by (induction i xs rule: enum_from.induct) simp_all

lemma enum_snoc: "enum_from i (xs @ [x]) = enum_from i xs @ [(nat_text (i + length xs), x)]"
  by (induction i xs rule: enum_from.induct) simp_all

end
