(* ===== verification/Json_Patch_Props.thy ===== *)
theory Json_Patch_Props
  imports Json_Patch JS_Digits
begin

text \<open>
  The patch that \<open>compare\<close> gives for two documents leads from the first to the second, when objects meet objects and
  arrays meet arrays.
\<close>

section \<open>Escaped tokens\<close>

lemma tilde_skip: "c \<noteq> 126 \<Longrightarrow> replace_tilde d t (c # s) = c # replace_tilde d t s"
  by (cases s) simp_all

definition esc_unit :: "code_unit \<Rightarrow> jsstring" where
  "esc_unit c = (if c = 126 then [126, 48] else if c = 47 then [126, 49] else [c])"

lemma esc_eq: "escapePathComponent e = concat (map esc_unit e)"
proof -
  have "replace_chars 47 (str ''~1'') (replace_chars 126 (str ''~0'') e) = concat (map esc_unit e)"
    by (induction e) (simp_all add: replace_chars_def esc_unit_def str_def)
  moreover have "47 \<notin> set e \<and> 126 \<notin> set e \<Longrightarrow> concat (map esc_unit e) = e"
    by (induction e) (auto simp: esc_unit_def)
  ultimately show ?thesis by (simp add: escapePathComponent_def)
qed

lemma esc_no_slash: "47 \<notin> set (escapePathComponent e)"
  by (auto simp: esc_eq esc_unit_def)

lemma unescape_esc: "unescapePathComponent (escapePathComponent e) = e"
proof -
  have 1: "replace_tilde 49 (str ''/'') (concat (map esc_unit e)) = replace_chars 126 [126, 48] e"
    by (induction e) (simp_all add: esc_unit_def replace_chars_def tilde_skip str_def)
  have "replace_tilde 48 (str ''~'') (replace_chars 126 [126, 48] e) = e"
    by (induction e) (simp_all add: replace_chars_def tilde_skip str_def)
  then show ?thesis by (simp add: unescapePathComponent_def esc_eq 1)
qed

lemma unescaped_esc [simp]: "unescaped (escapePathComponent e) = e"
proof (cases "126 \<in> set (escapePathComponent e)")
  case False
  then have "47 \<notin> set e \<and> 126 \<notin> set e" by (auto simp: esc_eq esc_unit_def)
  then show ?thesis using False by (simp add: unescaped_def escapePathComponent_def)
qed (simp add: unescaped_def unescape_esc)

lemma split_at: "c \<notin> set x \<Longrightarrow> split_on c (x @ c # r) = x # split_on c r"
  by (induction x) auto

lemma split_none: "c \<notin> set x \<Longrightarrow> split_on c x = [x]"
  by (induction x) auto

section \<open>Patches below a key\<close>

definition sub_path :: "jsstring \<Rightarrow> jsstring" where
  "sub_path k = 47 # escapePathComponent k"

definition relocate :: "jsstring \<Rightarrow> json \<Rightarrow> json" where
  "relocate a n = JObj (obj_replace (str ''path'') (JStr (a @ js_text (own n ''path''))) (obj_fields n))"

text \<open>The patches that a comparison makes.\<close>

definition edit :: "json \<Rightarrow> bool" where
  "edit n \<longleftrightarrow>
     (\<exists>q v. n = patch_at ''remove'' (JStr (47 # q)) \<or> n = patch_value ''add'' (JStr (47 # q)) v \<or>
            n = patch_value ''replace'' (JStr (47 # q)) v)"

lemmas patch_defs = patch_at_def patch_value_def own_def field_def is_op_def

lemma patch_own [simp]:
  "own (patch_at k p) ''op'' = JStr (str k)" "own (patch_at k p) ''path'' = p" "own (patch_at k p) ''value'' = JUndef"
  "own (patch_value k p v) ''op'' = JStr (str k)" "own (patch_value k p v) ''path'' = p" "own (patch_value k p v) ''value'' = v"
  by (simp_all add: patch_defs)

lemma patch_is_op [simp]: "is_op (patch_at k p) j \<longleftrightarrow> k = j" "is_op (patch_value k p v) j \<longleftrightarrow> k = j"
  by (simp_all add: is_op_def)

lemma relocate_at [simp]: "relocate a (patch_at k (JStr q)) = patch_at k (JStr (a @ q))"
  by (simp add: relocate_def patch_defs)

lemma relocate_value [simp]: "relocate a (patch_value k (JStr q) v) = patch_value k (JStr (a @ q)) v"
  by (simp add: relocate_def patch_defs)

lemma edit_intros:
  "edit (patch_at ''remove'' (JStr (47 # q)))" "edit (patch_value ''add'' (JStr (47 # q)) v)"
  "edit (patch_value ''replace'' (JStr (47 # q)) v)"
  unfolding edit_def by blast+

lemma generate_relocate: "generate e t (a @ b) = map (relocate a) (generate e t b)"
proof (induction e t b rule: generate.induct)
  case (1 e t b)
  have act: "(if gone t p l then [patch_at ''remove'' (path_text (a @ b) p)]
       else if is_object l \<and> is_object (at_key t p) \<and> is_object e then generate l (at_key t p) ((a @ b) @ [47] @ escapePathComponent p)
       else if \<not> same_value l (at_key t p) then [patch_value ''replace'' (path_text (a @ b) p) (deepClone (at_key t p))]
       else []) = map (relocate a)
      (if gone t p l then [patch_at ''remove'' (path_text b p)]
       else if is_object l \<and> is_object (at_key t p) \<and> is_object e then generate l (at_key t p) (b @ [47] @ escapePathComponent p)
       else if \<not> same_value l (at_key t p) then [patch_value ''replace'' (path_text b p) (deepClone (at_key t p))]
       else [])" if "(p, l) \<in> set (for_in e)" for p l
    using 1 [of "(p, l)" p l] that by (auto simp: path_text_def)
  have "additions e t (a @ b) = map (relocate a) (additions e t b)" by (simp add: additions_def path_text_def)
  then show ?case using act by (subst (1 2) generate.simps) (auto simp: map_concat intro!: arg_cong [where f = concat])
qed

lemma generate_edit: "b = [] \<or> hd b = 47 \<Longrightarrow> n \<in> set (generate e t b) \<Longrightarrow> edit n"
proof (induction e t b rule: generate.induct)
  case (1 e t b)
  have path: "\<exists>q. path_text b p = JStr (47 # q)" for p
    using "1.prems"(1) by (cases b) (auto simp: path_text_def)
  have nested: "(p, l) \<in> set (for_in e) \<Longrightarrow> \<not> gone t p l \<Longrightarrow> is_object l \<and> is_object (at_key t p) \<and> is_object e \<Longrightarrow>
      n \<in> set (generate l (at_key t p) (b @ [47] @ escapePathComponent p)) \<Longrightarrow> edit n" for p l
    using "1.IH" [of "(p, l)" p l] "1.prems"(1) by (cases b) auto
  have add: "n \<in> set (additions e t b) \<Longrightarrow> edit n" using path edit_intros(2) by (auto simp: additions_def) metis
  have one: "edit (patch_at ''remove'' (path_text b p))" "edit (patch_value ''replace'' (path_text b p) v)" for p v
    using path [of p] edit_intros by auto
  consider "n \<in> set (additions e t b)"
    | p l where "(p, l) \<in> set (for_in e)" "n \<in> set (if gone t p l then [patch_at ''remove'' (path_text b p)]
       else if is_object l \<and> is_object (at_key t p) \<and> is_object e then generate l (at_key t p) (b @ [47] @ escapePathComponent p)
       else if \<not> same_value l (at_key t p) then [patch_value ''replace'' (path_text b p) (deepClone (at_key t p))]
       else [])"
    using "1.prems"(2) by (subst (asm) generate.simps) (auto split: if_splits)
  then show ?case
  proof cases
    case (2 p l)
    then show ?thesis using one nested [of p l] by (simp split: if_splits)
  qed (rule add)
qed

section \<open>Applying edits\<close>

lemma walk_unchecked: "walk_path False y n b m gs d = walk_path False y' n b' m' gs d"
proof (induction gs arbitrary: b b' m m' d)
  case (Cons g gs)
  have "walk_path False y n (b @ [g]) m gs = walk_path False y' n (b' @ [g]) m' gs" using Cons.IH by (intro ext)
  then show ?case by (simp add: walk_path.simps(2) check_step_def cong: json.case_cong)
qed simp

lemma walk_relocate: "walk_path False y (relocate a (patch_at k (JStr q))) b m gs d = walk_path False y (patch_at k (JStr q)) b m gs d"
  "walk_path False y (relocate a (patch_value k (JStr q) v)) b m gs d = walk_path False y (patch_value k (JStr q) v) b m gs d"
proof -
  have ops: "obj_operation (patch_at k (JStr p)) = obj_operation (patch_at k (JStr q))"
    "arr_operation (patch_at k (JStr p)) = arr_operation (patch_at k (JStr q))"
    "obj_operation (patch_value k (JStr p) v) = obj_operation (patch_value k (JStr q) v)"
    "arr_operation (patch_value k (JStr p) v) = arr_operation (patch_value k (JStr q) v)" for p
    by (auto simp: fun_eq_iff obj_operation_def arr_operation_def)
  have at: "walk_path False y (patch_at k (JStr p)) b m gs d = walk_path False y (patch_at k (JStr q)) b m gs d" for p b m gs d
  proof (induction gs arbitrary: b m d)
    case (Cons g gs)
    have "walk_path False y (patch_at k (JStr p)) c m gs = walk_path False y (patch_at k (JStr q)) c m gs" for c m using Cons.IH by (intro ext)
    then show ?case by (simp add: walk_path.simps(2) check_step_def ops(1,2) [of p] cong: json.case_cong)
  qed simp
  have vl: "walk_path False y (patch_value k (JStr p) v) b m gs d = walk_path False y (patch_value k (JStr q) v) b m gs d" for p b m gs d
  proof (induction gs arbitrary: b m d)
    case (Cons g gs)
    have "walk_path False y (patch_value k (JStr p) v) c m gs = walk_path False y (patch_value k (JStr q) v) c m gs" for c m using Cons.IH by (intro ext)
    then show ?case by (simp add: walk_path.simps(2) check_step_def ops(3,4) [of p] cong: json.case_cong)
  qed simp
  show "walk_path False y (relocate a (patch_at k (JStr q))) b m gs d = walk_path False y (patch_at k (JStr q)) b m gs d" using at by simp
  show "walk_path False y (relocate a (patch_value k (JStr q) v)) b m gs d = walk_path False y (patch_value k (JStr q) v) b m gs d" using vl by simp
qed

definition edit_tokens :: "json \<Rightarrow> jsstring list" where
  "edit_tokens n = tl (split_on 47 (js_text (own n ''path'')))"

definition edit_walk :: "json \<Rightarrow> jsstring list \<Rightarrow> json \<Rightarrow> (json \<times> op_info) js" where
  "edit_walk n gs d = walk_path False (\<lambda>m. Inr ()) n [] False gs d"

lemma edit_cases:
  assumes "edit n"
  obtains q where "n = patch_at ''remove'' (JStr (47 # q))" | q v where "n = patch_value ''add'' (JStr (47 # q)) v"
  | q v where "n = patch_value ''replace'' (JStr (47 # q)) v"
  using assms by (auto simp: edit_def)

lemma edit_walk_relocate: "edit n \<Longrightarrow> edit_walk (relocate a n) gs d = edit_walk n gs d"
  by (cases n rule: edit_cases) (auto simp only: edit_walk_def walk_relocate)

lemma edit_walk_Cons:
  "edit_walk n (g # gs) d =
     (case d of
        JArr xs \<Rightarrow>
          js_bind (arrayToken False xs g) (\<lambda>t.
            if gs = [] then arr_operation n xs t
            else js_bind (arr_at xs t) (\<lambda>x. js_bind (edit_walk n gs x) (\<lambda>(x', inf).
                   Inr (if x' = x then d else JArr (arr_put xs t x'), inf))))
      | _ \<Rightarrow>
          if gs = [] then obj_operation n d (unescaped g)
          else js_bind (js_index d (unescaped g)) (\<lambda>x. js_bind (edit_walk n gs x) (\<lambda>(x', inf).
                 js_bind (if x' = x then Inr d else js_store d (unescaped g) x') (\<lambda>d'. Inr (d', inf)))))"
proof -
  have "walk_path False (\<lambda>m. Inr ()) n [g] False gs = edit_walk n gs" by (intro ext) (simp add: edit_walk_def walk_unchecked)
  then show ?thesis by (simp add: edit_walk_def [of n "g # gs"] walk_path.simps(2) check_step_def cong: json.case_cong)
qed

lemma edit_untested: "edit n \<Longrightarrow> edit_walk n gs d = Inr (d', rp) \<Longrightarrow> test rp = None"
proof (induction gs arbitrary: d d')
  case (Cons g gs)
  have one: "obj_operation n d t = Inr (d', rp) \<Longrightarrow> test rp = None" "arr_operation n xs u = Inr (d', rp) \<Longrightarrow> test rp = None" for t xs u
    using Cons.prems(1)
    by (auto simp: edit_def obj_operation_def arr_operation_def no_info_def js_bind_eq_Inr Let_def split: arr_token.splits)
  show ?case
    using Cons.prems Cons.IH one
    by (auto simp: edit_walk_Cons js_bind_eq_Inr split: json.splits if_splits)
qed (simp add: edit_walk_def)

lemma apply_edit: "edit n \<Longrightarrow> applyOperation False n d = edit_walk n (edit_tokens n) d"
proof -
  assume n: "edit n"
  have w: "walk_path False (validator p d) p b m gs x = walk_path False (\<lambda>m. Inr ()) p b m gs x" for p b m gs x
    by (rule walk_unchecked)
  have "applyOperation False n d = js_bind (edit_walk n (edit_tokens n) d) test_passed"
    using n
  proof (cases n rule: edit_cases)
  qed (auto simp: applyOperation_def apply_at_def path_tokens_def edit_walk_def edit_tokens_def w)
  also have "\<dots> = edit_walk n (edit_tokens n) d"
    using edit_untested [OF n] by (cases "edit_walk n (edit_tokens n) d") (auto simp: test_passed_def)
  finally show ?thesis .
qed

lemma edit_tokens_relocate: "edit n \<Longrightarrow> edit_tokens (relocate (sub_path k) n) = escapePathComponent k # edit_tokens n"
proof (cases n rule: edit_cases)
qed (auto simp: edit_tokens_def sub_path_def split_at esc_no_slash)

lemma edit_tokens_nonempty: "edit n \<Longrightarrow> edit_tokens n \<noteq> []"
  by (cases n rule: edit_cases) (auto simp: edit_tokens_def)

lemma edit_relocate: "edit n \<Longrightarrow> edit (relocate (sub_path k) n)"
  by (cases n rule: edit_cases) (auto simp: edit_def sub_path_def)

section \<open>Sequences of edits\<close>

definition run :: "json list \<Rightarrow> json \<Rightarrow> json js" where
  "run ns d = js_bind (apply_each False ns d) (\<lambda>c. Inr (fst c))"

lemma run_Nil [simp]: "run [] d = Inr d"
  by (simp add: run_def)

lemma run_Cons: "run (n # ns) d = js_bind (applyOperation False n d) (\<lambda>c. run ns (fst c))"
proof (cases "applyOperation False n d")
  case (Inr c)
  then show ?thesis by (cases "apply_each False ns (fst c)") (auto simp: run_def split_beta)
qed (simp add: run_def)

lemma run_append: "run (ms @ ns) d = js_bind (run ms d) (run ns)"
proof (induction ms arbitrary: d)
  case (Cons m ms)
  then show ?case by (cases "applyOperation False m d") (simp_all add: run_Cons)
qed simp

lemma obj_replace_same: "map_of fs k = Some x \<Longrightarrow> obj_replace k x fs = fs"
  by (induction fs) auto

lemma obj_put_same: "map_of fs k = Some x \<Longrightarrow> obj_put k x fs = fs"
  by (simp add: obj_put_def obj_replace_same domI image_iff) (metis fst_conv map_of_SomeD)

lemma obj_put_put: "map_of fs k = Some x \<Longrightarrow> obj_put k z (obj_put k y fs) = obj_put k z fs"
proof -
  have r: "obj_replace k z (obj_replace k y gs) = obj_replace k z gs" for gs :: "(jsstring \<times> 'a) list"
    by (induction gs) auto
  assume "map_of fs k = Some x"
  then have "k \<in> fst ` set fs" by (metis domI dom_map_of_conv_image_fst)
  moreover have "fst ` set (obj_replace k y fs) = fst ` set fs"
    using keys_replace [of k y fs] by (simp add: keys_def flip: set_map)
  ultimately show ?thesis by (simp add: obj_put_def r)
qed

lemma run_below_key:
  "list_all edit ns \<Longrightarrow> map_of fs k = Some x \<Longrightarrow>
   run (map (relocate (sub_path k)) ns) (JObj fs) = js_bind (run ns x) (\<lambda>x'. Inr (JObj (obj_put k x' fs)))"
proof (induction ns arbitrary: x fs)
  case Nil
  then show ?case by (simp add: obj_put_same)
next
  case (Cons n ns)
  have n: "edit n" "list_all edit ns" using Cons.prems by simp_all
  have step: "applyOperation False (relocate (sub_path k) n) (JObj fs) =
      js_bind (applyOperation False n x) (\<lambda>c. Inr (JObj (obj_put k (fst c) fs), snd c))"
    using n(1) Cons.prems(2) edit_tokens_nonempty [OF n(1)] obj_put_same [OF Cons.prems(2)]
    by (cases "edit_walk n (edit_tokens n) x")
       (auto simp: apply_edit edit_relocate edit_tokens_relocate edit_walk_Cons edit_walk_relocate js_index_def js_store_def obj_at_def)
  show ?case
  proof (cases "applyOperation False n x")
    case (Inr c)
    have "map_of (obj_put k (fst c) fs) k = Some (fst c)" by simp
    then show ?thesis using Cons.IH [OF n(2)] step Inr obj_put_put [OF Cons.prems(2)] by (simp add: run_Cons)
  qed (simp add: run_Cons step)
qed

definition array_ok :: "json list \<Rightarrow> bool" where
  "array_ok xs \<longleftrightarrow> length xs < 2 ^ 31"

lemma esc_nat_text [simp]: "escapePathComponent (nat_text i) = nat_text i"
  using nat_text_free [of 47 i] nat_text_free [of 126 i] by (simp add: escapePathComponent_def)

lemma token_nat_text: "i < 2 ^ 31 \<Longrightarrow> arrayToken r xs (nat_text i) = Inr (At (int i))"
proof -
  assume i: "i < 2 ^ 31"
  then have "i < 10 ^ Suc 14" by simp
  then have l: "length (nat_text i) \<le> 15" using nat_text_length [of i 14] by simp
  have d: "isInteger (nat_text i)" using nat_text_digits by (auto simp: isInteger_def list_all_iff)
  have "nat_text i \<noteq> str ''-''" using nat_text_free [of 45 i] by (auto simp: str_def)
  moreover have "int i mod 2 ^ 32 = int i" using i by (intro mod_pos_pos_trivial) simp_all
  then have "int32_of (int i) = int i" using i by (simp add: int32_of_def)
  ultimately show ?thesis using l d by (simp add: arrayToken_def)
qed

lemma run_below_index:
  "list_all edit ns \<Longrightarrow> i < length xs \<Longrightarrow> i < 2 ^ 31 \<Longrightarrow>
   run (map (relocate (sub_path (nat_text i))) ns) (JArr xs) = js_bind (run ns (xs ! i)) (\<lambda>x'. Inr (JArr (xs[i := x'])))"
proof (induction ns arbitrary: xs)
  case (Cons n ns)
  have n: "edit n" "list_all edit ns" using Cons.prems by simp_all
  have step: "applyOperation False (relocate (sub_path (nat_text i)) n) (JArr xs) =
      js_bind (applyOperation False n (xs ! i)) (\<lambda>c. Inr (JArr (xs[i := fst c]), snd c))"
    using n(1) Cons.prems(2,3) edit_tokens_nonempty [OF n(1)]
    by (cases "edit_walk n (edit_tokens n) (xs ! i)")
       (auto simp: apply_edit edit_relocate edit_tokens_relocate edit_walk_Cons edit_walk_relocate token_nat_text
          arr_at_def arr_put_def arr_elem_def store_elem_def)
  show ?case
  proof (cases "applyOperation False n (xs ! i)")
    case (Inr c)
    then show ?thesis using Cons.IH [OF n(2), of "xs[i := fst c]"] Cons.prems step by (simp add: run_Cons)
  qed (simp add: run_Cons step)
qed simp

section \<open>Equality up to the order of properties\<close>

function same_json :: "json \<Rightarrow> json \<Rightarrow> bool" where
  "same_json e t \<longleftrightarrow>
     (if is_object e \<and> is_object t then
        is_arr e = is_arr t \<and> length (for_in e) = length (for_in t) \<and> set (objectKeys e) = set (objectKeys t) \<and>
        (\<forall>f\<in>set (for_in e). same_json (snd f) (at_key t (fst f)))
      else e = t)"
  by pat_completeness auto
termination
  by (relation "measure (\<lambda>(e, t). size e)") (auto simp: is_object_def intro: for_in_smaller)

declare same_json.simps [simp del]

text \<open>Objects meet objects, and arrays meet arrays, wherever both documents have a value.\<close>

function same_shape :: "json \<Rightarrow> json \<Rightarrow> bool" where
  "same_shape e t \<longleftrightarrow>
     is_object e \<and> is_object t \<longrightarrow>
       is_arr e = is_arr t \<and> array_ok (arr_items e) \<and> array_ok (arr_items t) \<and>
       (\<forall>f\<in>set (for_in e). has_own t (fst f) \<longrightarrow> same_shape (snd f) (at_key t (fst f)))"
  by pat_completeness auto
termination
  by (relation "measure (\<lambda>(e, t). size e)") (auto simp: is_object_def intro: for_in_smaller)

declare same_shape.simps [simp del]

lemma for_in_simps [simp]: "for_in (JObj fs) = fs" "for_in (JArr xs) = enum_from 0 xs"
  by (simp_all add: for_in_def)

lemma at_key_obj: "at_key (JObj gs) p = (case map_of gs p of None \<Rightarrow> JUndef | Some x \<Rightarrow> x)"
  by (simp add: at_key_def)

lemma at_key_arr [simp]: "at_key (JArr ys) (nat_text i) = arr_elem ys i"
  by (simp add: at_key_def map_of_enum arr_elem_def)

lemma has_own_obj [simp]: "has_own (JObj gs) p \<longleftrightarrow> p \<in> set (keys gs)"
  by (simp add: has_own_def keys_def)

lemma has_own_arr [simp]: "has_own (JArr ys) (nat_text i) \<longleftrightarrow> i < length ys"
  using keys_enum [of 0 ys] by (auto simp: has_own_def)

lemma plain_cases:
  assumes "plain_json v" "is_object v"
  obtains fs where "v = JObj fs" "distinct (keys fs)" | xs where "v = JArr xs"
  using assms by (cases v) (auto simp: is_object_def)

lemma set_enum: "f \<in> set (enum_from i xs) \<Longrightarrow> \<exists>j < length xs. f = (nat_text (i + j), xs ! j)"
proof (induction i xs rule: enum_from.induct)
  case (2 i x xs)
  then show ?case by (cases "f = (nat_text i, x)") force+
qed simp

lemma same_json_prim: "\<not> is_object v \<Longrightarrow> same_json v v"
  by (subst same_json.simps) simp

lemma same_json_refl: "plain_json v \<Longrightarrow> same_json v v"
proof (induction v)
  case (JArr xs)
  then show ?case by (subst same_json.simps) (auto simp: arr_elem_def dest!: set_enum)
next
  case (JObj fs)
  have "f \<in> set fs \<Longrightarrow> at_key (JObj fs) (fst f) = snd f" for f
    using JObj.prems by (cases f) (simp add: at_key_obj keys_def map_of_is_SomeI)
  moreover have "f \<in> set fs \<Longrightarrow> same_json (snd f) (snd f)" for f
    using JObj by (cases f) (auto simp: snds.simps)
  ultimately show ?case by (subst same_json.simps) simp
qed (auto simp: same_json_prim is_object_def)

section \<open>Entries\<close>

text \<open>What a comparison does about one key of the first document.\<close>

definition act :: "json \<Rightarrow> jsstring \<Rightarrow> json \<Rightarrow> json list" where
  "act t p l =
     (if gone t p l then [patch_at ''remove'' (path_text [] p)]
      else if is_object l \<and> is_object (at_key t p) then map (relocate (sub_path p)) (generate l (at_key t p) [])
      else if \<not> same_value l (at_key t p) then [patch_value ''replace'' (path_text [] p) (deepClone (at_key t p))]
      else [])"

lemma generate_top:
  assumes "plain_json e" "plain_json t" "is_object e" "is_object t" "is_arr e = is_arr t"
  shows "generate e t [] = concat (map (\<lambda>f. act t (fst f) (snd f)) (rev (for_in e))) @ additions e t []"
proof -
  have nested: "generate l c (47 # escapePathComponent p) = map (relocate (sub_path p)) (generate l c [])" for l c p
    using generate_relocate [of l c "sub_path p" "[]"] by (simp add: sub_path_def)
  have none: "additions e t [] = []"
    if same: "\<forall>f\<in>set (for_in e). \<not> gone t (fst f) (snd f)" "length (objectKeys t) = length (objectKeys e)"
  proof -
    have dist: "distinct (objectKeys v)" if "plain_json v" "is_object v" for v
      using that by (cases v rule: plain_cases) (auto simp: objectKeys_def distinct_enum simp flip: keys_def)
    have "set (objectKeys e) \<subseteq> set (objectKeys t)"
    proof
      fix p assume p: "p \<in> set (objectKeys e)"
      then have "has_own t p" using same(1) by (auto simp: objectKeys_def gone_def)
      moreover have "\<not> (p = str ''length'' \<and> (is_arr t \<or> type_of t = ''string''))"
      proof (cases "is_arr e")
        case True
        then obtain xs where "e = JArr xs" by (cases e) simp_all
        then have "\<exists>i. p = nat_text i" using p by (auto simp: objectKeys_def dest!: set_enum)
        then show ?thesis by auto
      qed (use assms in \<open>auto simp: is_object_def\<close>)
      ultimately show "p \<in> set (objectKeys t)" by (auto simp: has_own_def objectKeys_def)
    qed
    moreover have "card (set (objectKeys e)) = card (set (objectKeys t))"
      using same(2) dist assms by (simp add: distinct_card)
    ultimately have "set (objectKeys e) = set (objectKeys t)" by (intro card_subset_eq) simp_all
    then show ?thesis by (auto simp: additions_def has_own_def objectKeys_def filter_empty_conv)
  qed
  have acts: "map (\<lambda>(p, l).
       if gone t p l then [patch_at ''remove'' (path_text [] p)]
       else if is_object l \<and> is_object (at_key t p) \<and> is_object e then generate l (at_key t p) ([] @ [47] @ escapePathComponent p)
       else if \<not> same_value l (at_key t p) then [patch_value ''replace'' (path_text [] p) (deepClone (at_key t p))]
       else []) (rev (for_in e)) = map (\<lambda>f. act t (fst f) (snd f)) (rev (for_in e))"
    using assms(3) nested by (intro map_cong refl) (simp add: act_def split_beta)
  show ?thesis unfolding generate.simps [of e t "[]"] acts using none by auto
qed

lemma edit_here:
  "edit_tokens (patch_at k (path_text [] p)) = [escapePathComponent p]"
  "edit_tokens (patch_value k (path_text [] p) v) = [escapePathComponent p]"
  by (simp_all add: edit_tokens_def path_text_def split_none esc_no_slash)

lemma edits_here:
  "edit (patch_at ''remove'' (path_text [] p))" "edit (patch_value ''add'' (path_text [] p) v)"
  "edit (patch_value ''replace'' (path_text [] p) v)"
  by (simp_all add: path_text_def edit_intros)

lemmas run_here = run_Cons apply_edit edits_here edit_here edit_walk_Cons

lemma run_obj:
  "run [patch_at ''remove'' (path_text [] p)] (JObj fs) = Inr (JObj (obj_del p fs))"
  "run [patch_value ''add'' (path_text [] p) v] (JObj fs) = Inr (JObj (obj_put p v fs))"
  "run [patch_value ''replace'' (path_text [] p) v] (JObj fs) = Inr (JObj (obj_put p v fs))"
  by (simp_all add: run_here obj_operation_def js_index_def js_store_def js_delete_def)

lemma run_arr:
  "length xs < 2 ^ 31 \<Longrightarrow> run [patch_at ''remove'' (path_text [] (nat_text (length xs)))] (JArr (xs @ [x])) = Inr (JArr xs)"
  "length xs < 2 ^ 31 \<Longrightarrow> run [patch_value ''add'' (path_text [] (nat_text (length xs))) v] (JArr xs) = Inr (JArr (xs @ [v]))"
  "i < 2 ^ 31 \<Longrightarrow> i < length xs \<Longrightarrow> run [patch_value ''replace'' (path_text [] (nat_text i)) v] (JArr xs) = Inr (JArr (xs[i := v]))"
  by (simp_all add: run_here token_nat_text arr_operation_def splice_start_def arr_at_def arr_put_def store_elem_def)

lemma clone_plain: "plain_json v \<Longrightarrow> deepClone v = v"
  using reparse_plain [of v] by (auto simp: deepClone_def)

lemma same_value_eq: "same_value l c \<Longrightarrow> l = c"
  by (auto simp: same_value_def)

lemma nested_edits: "list_all edit (generate l c [])"
  using generate_edit [of "[]"] by (auto simp: list_all_iff)

text \<open>A key that stays: the value there becomes that of the second document.\<close>

definition reaches :: "json \<Rightarrow> json \<Rightarrow> bool" where
  "reaches l c \<longleftrightarrow> (is_object l \<and> is_object c \<longrightarrow> (\<exists>d. run (generate l c []) l = Inr d \<and> same_json d c))"

lemma act_obj:
  assumes "map_of fs p = Some l" "\<not> gone t p l" "plain_json (at_key t p)" "reaches l (at_key t p)"
  shows "\<exists>x. run (act t p l) (JObj fs) = Inr (JObj (obj_put p x fs)) \<and> same_json x (at_key t p)"
proof (cases "is_object l \<and> is_object (at_key t p)")
  case True
  then obtain d where "run (generate l (at_key t p) []) l = Inr d" "same_json d (at_key t p)"
    using assms(4) by (auto simp: reaches_def)
  then show ?thesis using True assms(1,2) by (auto simp: act_def run_below_key nested_edits)
next
  case False
  then show ?thesis
    using assms(1,2) same_json_refl [OF assms(3)] obj_put_same [OF assms(1)] same_value_eq [of l "at_key t p"]
    by (cases "same_value l (at_key t p)") (auto simp: act_def run_obj clone_plain [OF assms(3)] intro!: exI [of _ "at_key t p"])
qed

lemma act_arr:
  assumes "i < length xs" "i < 2 ^ 31" "\<not> gone t (nat_text i) (xs ! i)" "plain_json (at_key t (nat_text i))"
    "reaches (xs ! i) (at_key t (nat_text i))"
  shows "\<exists>x. run (act t (nat_text i) (xs ! i)) (JArr xs) = Inr (JArr (xs[i := x])) \<and> same_json x (at_key t (nat_text i))"
proof (cases "is_object (xs ! i) \<and> is_object (at_key t (nat_text i))")
  case True
  then obtain d where "run (generate (xs ! i) (at_key t (nat_text i)) []) (xs ! i) = Inr d" "same_json d (at_key t (nat_text i))"
    using assms(5) by (auto simp: reaches_def)
  then show ?thesis using True assms(1-3) by (auto simp: act_def run_below_index nested_edits)
next
  case False
  then show ?thesis
    using assms(1-3) same_json_refl [OF assms(4)] same_value_eq [of "xs ! i" "at_key t (nat_text i)"] list_update_id [of xs i]
    by (cases "same_value (xs ! i) (at_key t (nat_text i))")
       (auto simp: act_def run_arr clone_plain [OF assms(4)] intro!: exI [of _ "at_key t (nat_text i)"])
qed

section \<open>Whole documents\<close>

lemma obj_changes:
  assumes "distinct (keys fs)" "distinct (keys L)" "\<forall>f\<in>set L. map_of fs (fst f) = Some (snd f)"
    "\<forall>f\<in>set L. \<not> gone t (fst f) (snd f) \<longrightarrow> plain_json (at_key t (fst f)) \<and> reaches (snd f) (at_key t (fst f))"
  shows "\<exists>gs. run (concat (map (\<lambda>f. act t (fst f) (snd f)) L)) (JObj fs) = Inr (JObj gs) \<and> distinct (keys gs) \<and>
    (\<forall>q. q \<notin> set (keys L) \<longrightarrow> map_of gs q = map_of fs q) \<and>
    (\<forall>f\<in>set L. if gone t (fst f) (snd f) then map_of gs (fst f) = None
               else \<exists>x. map_of gs (fst f) = Some x \<and> same_json x (at_key t (fst f)))"
  using assms
proof (induction L arbitrary: fs)
  case (Cons f L)
  obtain p l where f: "f = (p, l)" by fastforce
  have p: "p \<notin> set (keys L)" and l: "map_of fs p = Some l" using Cons.prems by (auto simp: keys_def f)
  obtain gs where gs: "run (act t p l) (JObj fs) = Inr (JObj gs)" "distinct (keys gs)" "\<forall>q. q \<noteq> p \<longrightarrow> map_of gs q = map_of fs q"
    "if gone t p l then map_of gs p = None else \<exists>x. map_of gs p = Some x \<and> same_json x (at_key t p)"
  proof (cases "gone t p l")
    case True
    then show thesis using that [of "obj_del p fs"] Cons.prems(1) by (simp add: act_def run_obj)
  next
    case False
    then obtain x where x: "run (act t p l) (JObj fs) = Inr (JObj (obj_put p x fs))" "same_json x (at_key t p)"
      using act_obj [OF l, of t] Cons.prems(4) by (auto simp: f)
    show thesis by (rule that [OF x(1)]) (use False Cons.prems(1) x(2) in simp_all)
  qed
  have "\<forall>f\<in>set L. map_of gs (fst f) = Some (snd f)"
  proof
    fix f assume "f \<in> set L"
    then show "map_of gs (fst f) = Some (snd f)" using Cons.prems(3) gs(3) p by (auto simp: keys_def)
  qed
  then obtain hs where hs: "run (concat (map (\<lambda>f. act t (fst f) (snd f)) L)) (JObj gs) = Inr (JObj hs)" "distinct (keys hs)"
    "\<forall>q. q \<notin> set (keys L) \<longrightarrow> map_of hs q = map_of gs q"
    "\<forall>f\<in>set L. if gone t (fst f) (snd f) then map_of hs (fst f) = None
               else \<exists>x. map_of hs (fst f) = Some x \<and> same_json x (at_key t (fst f))"
    using Cons.IH [OF gs(2)] Cons.prems by (auto simp: keys_def)
  have "run (concat (map (\<lambda>f. act t (fst f) (snd f)) (f # L))) (JObj fs) = Inr (JObj hs)"
    using gs(1) hs(1) by (simp add: f run_append)
  moreover have "\<forall>q. q \<notin> set (keys (f # L)) \<longrightarrow> map_of hs q = map_of fs q" using hs(3) gs(3) by (auto simp: keys_def f)
  moreover have "\<forall>g\<in>set (f # L). if gone t (fst g) (snd g) then map_of hs (fst g) = None
               else \<exists>x. map_of hs (fst g) = Some x \<and> same_json x (at_key t (fst g))"
    using hs(3,4) gs(4) p by (auto simp: f)
  ultimately show ?case using hs(2) by blast
qed auto

lemma obj_additions:
  "distinct (keys fs) \<Longrightarrow>
   \<exists>gs. run (map (\<lambda>p. patch_value ''add'' (path_text [] p) (h p)) ps) (JObj fs) = Inr (JObj gs) \<and> distinct (keys gs) \<and>
     map_of gs = (\<lambda>q. if q \<in> set ps then Some (h q) else map_of fs q)"
proof (induction ps arbitrary: fs)
  case (Cons p ps)
  have "run (patch_value ''add'' (path_text [] p) (h p) # ns) (JObj fs) = run ns (JObj (obj_put p (h p) fs))" for ns
    using run_append [of "[patch_value ''add'' (path_text [] p) (h p)]" ns "JObj fs"] by (simp add: run_obj)
  then show ?case using Cons.IH [of "obj_put p (h p) fs"] Cons.prems by (auto simp: fun_eq_iff)
qed auto

lemma reaches_obj:
  assumes "plain_json (JObj fs)" "plain_json (JObj gs)"
    "\<forall>f\<in>set fs. fst f \<in> set (keys gs) \<longrightarrow> reaches (snd f) (at_key (JObj gs) (fst f))"
  shows "\<exists>d. run (generate (JObj fs) (JObj gs) []) (JObj fs) = Inr d \<and> same_json d (JObj gs)"
proof -
  let ?t = "JObj gs"
  have df: "distinct (keys fs)" and dg: "distinct (keys gs)" using assms(1,2) by auto
  have plain: "q \<in> set (keys gs) \<Longrightarrow> plain_json (at_key ?t q)" for q
    using assms(2) by (force simp: at_key_obj set_keys dest: map_of_SomeD)
  have gone: "gone ?t p l \<longleftrightarrow> p \<notin> set (keys gs)" for p l
    using plain [of p] by (auto simp: gone_def)
  have lk: "\<forall>f\<in>set (rev fs). map_of fs (fst f) = Some (snd f)" using df by (auto simp: keys_def)
  have "distinct (keys (rev fs))" using df by (simp add: keys_def flip: rev_map)
  moreover have "\<forall>f\<in>set (rev fs). \<not> gone ?t (fst f) (snd f) \<longrightarrow>
      plain_json (at_key ?t (fst f)) \<and> reaches (snd f) (at_key ?t (fst f))"
    using assms(3) plain by (simp add: gone)
  ultimately obtain hs where hs: "run (concat (map (\<lambda>f. act ?t (fst f) (snd f)) (rev fs))) (JObj fs) = Inr (JObj hs)" "distinct (keys hs)"
    "\<forall>q. q \<notin> set (keys (rev fs)) \<longrightarrow> map_of hs q = map_of fs q"
    "\<forall>f\<in>set (rev fs). if gone ?t (fst f) (snd f) then map_of hs (fst f) = None
               else \<exists>x. map_of hs (fst f) = Some x \<and> same_json x (at_key ?t (fst f))"
    using obj_changes [OF df _ lk, of ?t] by blast
  define ps where "ps = filter (\<lambda>p. p \<notin> set (keys fs)) (keys gs)"
  have "filter (\<lambda>p. \<not> has_own (JObj fs) p \<and> at_key ?t p \<noteq> JUndef) (objectKeys ?t) = ps"
    using plain by (auto simp: ps_def objectKeys_def simp flip: keys_def intro!: filter_cong) (metis plain_json.simps(1))
  then have adds: "additions (JObj fs) ?t [] = map (\<lambda>p. patch_value ''add'' (path_text [] p) (at_key ?t p)) ps"
    using plain clone_plain by (auto simp: additions_def ps_def)
  obtain ks where ks: "run (additions (JObj fs) ?t []) (JObj hs) = Inr (JObj ks)" "distinct (keys ks)"
    "map_of ks = (\<lambda>q. if q \<in> set ps then Some (at_key ?t q) else map_of hs q)"
    using obj_additions [OF hs(2), of "at_key ?t" ps] adds by auto
  have val: "if q \<in> set (keys gs) then \<exists>x. map_of ks q = Some x \<and> same_json x (at_key ?t q) else map_of ks q = None" for q
  proof (cases "q \<in> set (keys fs)")
    case True
    then obtain l where "(q, l) \<in> set (rev fs)" by (auto simp: keys_def)
    then show ?thesis using hs(4) True by (auto simp: gone ks(3) ps_def)
  next
    case False
    then have "map_of hs q = None" using hs(3) by (simp add: keys_def map_of_eq_None_iff)
    then show ?thesis using False plain same_json_refl by (simp add: ks(3) ps_def)
  qed
  have dom: "set (keys ks) = set (keys gs)"
    using val by (auto simp: set_keys [of ks] domIff split: if_splits) (metis option.distinct(1))+
  then have "length ks = length gs" using distinct_card [OF ks(2)] distinct_card [OF dg] by (simp add: keys_def)
  moreover have "same_json (snd f) (at_key ?t (fst f))" if f: "f \<in> set ks" for f
  proof -
    have "fst f \<in> set (keys gs)" using f dom by (auto simp: keys_def)
    then show ?thesis using val [of "fst f"] f ks(2) by (cases f) (auto simp: keys_def)
  qed
  ultimately have "same_json (JObj ks) ?t" using dom by (subst same_json.simps) (simp add: is_object_def objectKeys_def keys_def)
  then show ?thesis
    using generate_top [OF assms(1,2)] hs(1) ks(1) by (auto simp: is_object_def run_append)
qed

lemma arr_changes:
  assumes "length us < 2 ^ 31" "\<forall>y\<in>set ys. plain_json y" "\<forall>i < length us. i < length ys \<longrightarrow> reaches (us ! i) (ys ! i)"
    "length ys < length us \<Longrightarrow> Z = []"
  shows "\<exists>W. run (concat (map (\<lambda>f. act (JArr ys) (fst f) (snd f)) (rev (enum_from 0 us)))) (JArr (us @ Z)) = Inr (JArr (W @ Z)) \<and>
    length W = min (length us) (length ys) \<and> (\<forall>i < length W. same_json (W ! i) (ys ! i))"
  using assms
proof (induction us arbitrary: Z rule: rev_induct)
  case (snoc u us)
  let ?t = "JArr ys" and ?i = "length us"
  have i: "?i < 2 ^ 31" using snoc.prems(1) by simp
  have rest: "\<forall>j < length us. j < length ys \<longrightarrow> reaches (us ! j) (ys ! j)"
    using snoc.prems(3) by (metis butlast_snoc length_append_singleton less_Suc_eq nth_butlast length_butlast)
  show ?case
  proof (cases "?i < length ys")
    case False
    then have "run (act ?t (nat_text ?i) u) (JArr ((us @ [u]) @ Z)) = Inr (JArr us)"
      using snoc.prems(4) run_arr(1) [OF i, of u] by (simp add: act_def gone_def)
    then show ?thesis
      using False snoc.IH [of "[]"] snoc.prems i rest by (auto simp: enum_snoc run_append min_def)
  next
    case True
    let ?xs = "(us @ [u]) @ Z"
    have "plain_json (at_key ?t (nat_text ?i))" "reaches u (at_key ?t (nat_text ?i))" "\<not> gone ?t (nat_text ?i) u"
      using True snoc.prems(2,3) by (auto simp: arr_elem_def gone_def nth_append)
    then obtain x where x: "run (act ?t (nat_text ?i) u) (JArr ?xs) = Inr (JArr (?xs[?i := x]))" "same_json x (ys ! ?i)"
      using act_arr [of ?i ?xs ?t] i True by (auto simp: nth_append arr_elem_def)
    have "?xs[?i := x] = us @ (x # Z)" by simp
    moreover obtain W where W: "run (concat (map (\<lambda>f. act ?t (fst f) (snd f)) (rev (enum_from 0 us)))) (JArr (us @ (x # Z))) = Inr (JArr (W @ (x # Z)))"
        "length W = min (length us) (length ys)" "\<forall>i < length W. same_json (W ! i) (ys ! i)"
      using snoc.IH [of "x # Z"] snoc.prems i rest True by auto
    ultimately have "run (concat (map (\<lambda>f. act ?t (fst f) (snd f)) (rev (enum_from 0 (us @ [u]))))) (JArr ?xs) = Inr (JArr ((W @ [x]) @ Z))"
      using x(1) by (simp add: enum_snoc run_append)
    then show ?thesis using W x(2) True by (intro exI [of _ "W @ [x]"]) (auto simp: nth_append less_Suc_eq)
  qed
qed auto

lemma arr_additions:
  "length W = m \<Longrightarrow> n < 2 ^ 31 \<Longrightarrow> m \<le> n \<Longrightarrow>
   run (map (\<lambda>i. patch_value ''add'' (path_text [] (nat_text i)) (g i)) [m..<n]) (JArr W) = Inr (JArr (W @ map g [m..<n]))"
proof (induction n)
  case (Suc n)
  show ?case
  proof (cases "m = Suc n")
    case False
    then have mn: "m \<le> n" using Suc.prems by simp
    have "length (W @ map g [m..<n]) = n" using Suc.prems(1) mn by simp
    then have "run [patch_value ''add'' (path_text [] (nat_text n)) (g n)] (JArr (W @ map g [m..<n])) = Inr (JArr ((W @ map g [m..<n]) @ [g n]))"
      using run_arr(2) [of "W @ map g [m..<n]" "g n"] Suc.prems(2) by simp
    then show ?thesis using Suc.IH Suc.prems mn by (simp add: run_append)
  qed simp
qed simp

lemma reaches_arr:
  assumes "plain_json (JArr xs)" "plain_json (JArr ys)" "array_ok xs" "array_ok ys"
    "\<forall>i < length xs. i < length ys \<longrightarrow> reaches (xs ! i) (ys ! i)"
  shows "\<exists>d. run (generate (JArr xs) (JArr ys) []) (JArr xs) = Inr d \<and> same_json d (JArr ys)"
proof -
  let ?t = "JArr ys" and ?m = "length xs" and ?n = "length ys"
  obtain W where W: "run (concat (map (\<lambda>f. act ?t (fst f) (snd f)) (rev (enum_from 0 xs)))) (JArr xs) = Inr (JArr W)"
    "length W = min ?m ?n" "\<forall>i < length W. same_json (W ! i) (ys ! i)"
    using arr_changes [of xs ys "[]"] assms by (auto simp: array_ok_def)
  have keys: "objectKeys ?t = map nat_text [0..<?n]"
    by (induction ys rule: rev_induct) (simp_all add: objectKeys_def enum_snoc)
  have ge: "filter (\<lambda>i. \<not> i < m) [0..<n] = [m..<n]" for m n
    by (induction n) auto
  have "filter (\<lambda>p. \<not> has_own (JArr xs) p \<and> at_key ?t p \<noteq> JUndef) (objectKeys ?t) = map nat_text (filter (\<lambda>i. \<not> i < ?m) [0..<?n])"
    using assms(2) by (auto simp: keys filter_map o_def arr_elem_def intro!: arg_cong [where f = "map nat_text"] filter_cong)
      (metis nth_mem plain_json.simps(1))
  then have adds: "additions (JArr xs) ?t [] = map (\<lambda>i. patch_value ''add'' (path_text [] (nat_text i)) (ys ! i)) [?m..<?n]"
    using assms(2) clone_plain by (auto simp: additions_def ge arr_elem_def)
  define V where "V = W @ map ((!) ys) [?m..<?n]"
  have "run (additions (JArr xs) ?t []) (JArr W) = Inr (JArr V)"
    using adds arr_additions [of W ?m ?n "(!) ys"] W(2) assms(4) by (cases "?m \<le> ?n") (simp_all add: V_def array_ok_def)
  then have "run (generate (JArr xs) ?t []) (JArr xs) = Inr (JArr V)"
    using generate_top [OF assms(1,2)] W(1) by (simp add: is_object_def run_append)
  moreover have len: "length V = ?n" using W(2) by (simp add: V_def)
  have "i < ?n \<Longrightarrow> same_json (V ! i) (ys ! i)" for i
    using W(2,3) assms(2) same_json_refl [of "ys ! i"] by (auto simp: V_def nth_append)
  then have "same_json (JArr V) ?t"
    using len keys_enum [of 0 V] keys_enum [of 0 ys]
    by (subst same_json.simps) (auto simp: is_object_def objectKeys_def arr_elem_def dest!: set_enum)
  ultimately show ?thesis by blast
qed

lemma generate_reaches:
  "plain_json e \<Longrightarrow> plain_json t \<Longrightarrow> same_shape e t \<Longrightarrow> reaches e t"
proof (induction e t rule: same_shape.induct)
  case (1 e t)
  show ?case
  proof (cases "is_object e \<and> is_object t")
    case True
    have sub: "is_arr e = is_arr t" "array_ok (arr_items e)" "array_ok (arr_items t)"
      "\<forall>f\<in>set (for_in e). has_own t (fst f) \<longrightarrow> same_shape (snd f) (at_key t (fst f))"
      using "1.prems"(3) True by (subst (asm) same_shape.simps, simp)+
    have IH: "f \<in> set (for_in e) \<Longrightarrow> has_own t (fst f) \<Longrightarrow> plain_json (snd f) \<Longrightarrow> plain_json (at_key t (fst f)) \<Longrightarrow>
        reaches (snd f) (at_key t (fst f))" for f
      using "1.IH" [of f] True sub(4) by blast
    have "\<exists>d. run (generate e t []) e = Inr d \<and> same_json d t"
    proof (cases "is_arr e")
      case True
      then obtain xs ys where e: "e = JArr xs" "t = JArr ys" using sub(1) by (cases e; cases t) simp_all
      have "reaches (xs ! i) (ys ! i)" if "i < length xs" "i < length ys" for i
        using IH [of "(nat_text i, xs ! i)"] that "1.prems"(1,2) map_of_SomeD [of "enum_from 0 xs" "nat_text i"]
        by (simp add: e arr_elem_def map_of_enum)
      then show ?thesis using reaches_arr [of xs ys] "1.prems"(1,2) sub(2,3) by (simp add: e)
    next
      case False
      then obtain fs gs where e: "e = JObj fs" "t = JObj gs"
        using sub(1) True "1.prems"(1,2) by (cases e; cases t) (simp_all add: is_object_def)
      have "reaches (snd f) (at_key t (fst f))" if f: "f \<in> set fs" "fst f \<in> set (keys gs)" for f
      proof -
        have "plain_json (at_key t (fst f))"
          using f(2) "1.prems"(2) by (force simp: e at_key_obj set_keys dest: map_of_SomeD)
        then show ?thesis using IH [of f] f "1.prems"(1) by (simp add: e)
      qed
      then show ?thesis using reaches_obj [of fs gs] "1.prems"(1,2) by (simp add: e)
    qed
    then show ?thesis by (simp add: reaches_def)
  qed (auto simp: reaches_def)
qed


definition old_document :: json where
  "old_document = JObj [(str ''a'', JNat 1), (str ''b'', JArr [JBool True, JNull]), (str ''c'', JStr (str ''x''))]"

definition new_document :: json where
  "new_document = JObj [(str ''b'', JArr [JBool False]), (str ''c'', JStr (str ''y'')), (str ''d'', JObj [])]"

lemma same_shape_prim: "\<not> (is_object e \<and> is_object t) \<Longrightarrow> same_shape e t"
  by (subst same_shape.simps) auto


text \<open>Where an object meets an array the patch can be empty although the documents differ.\<close>

lemma compare_ignores_kind: "compare (JObj [(str ''a'', JObj [])]) (JObj [(str ''a'', JArr [])]) = Inr []"
  by (simp add: compare_def same_value_def generate.simps gone_def is_object_def at_key_def keys_def objectKeys_def)

text \<open>Validation looks a token up as it is written, so a key with a slash in it is taken to be missing.\<close>

lemma validate_escaped_key:
  "validate [patch_value ''replace'' (JStr (str ''/a~1b'')) (JBool True)] (JObj [(str ''a/b'', JBool False)]) =
     Inr (Some ''OPERATION_PATH_UNRESOLVABLE'')"
proof -
  let ?n = "patch_value ''replace'' (JStr (str ''/a~1b'')) (JBool True)"
  have "deepClone ?n = ?n" by (simp add: deepClone_def patch_value_def unprintable_def)
  moreover have "index_key (str ''a~1b'') = None" by (simp add: index_key_def str_def digit_value_def)
  moreover have "str ''a~1b'' \<notin> set object_prototype" by (simp add: object_prototype_def)
  moreover have "tl (split_on 47 (str ''/a~1b'')) = [str ''a~1b'']" by (simp add: str_def)
  moreover have "hd (str ''/a~1b'') = 47" "str ''/a~1b'' \<noteq> []" by (simp_all add: str_def)
  moreover have "check_patch ?n = Inr ()"
    using calculation by (simp add: check_patch_def takes_value_def) (simp add: patch_value_def)
  moreover have "applyOperation True ?n (JObj [(str ''a/b'', JBool False)]) = Inl (OtherError ''OPERATION_PATH_UNRESOLVABLE'')"
    using calculation
    by (simp add: applyOperation_def apply_at_def path_tokens_def walk_path.simps(2) check_step_def js_index_def obj_at_def
        validator_def check_place_def path_exists_def patch_failure_def)
  ultimately show ?thesis
    by (simp add: validate_def applyPatch_def deepClone_def unprintable_def other_failure_def)
qed

end
