(* ===== verification/Swg_Context.thy ===== *)
theory Swg_Context
  imports Swg_Ops
begin

text \<open>
  The context tree of the resolver (\<open>specmap/lib/context-tree\<close> of \<open>swagger-client\<close>): values at paths, each seen from the
  paths below it, where a deeper value overrides the properties it has.

  The code changes nodes in place. A node keeps its value and what is seen there (\<open>protoValue\<close>). A child under a name that
  objects inherit is the inherited function, on which \<open>set\<close> throws; what a failed \<open>set\<close> leaves behind is not modelled.
\<close>

section \<open>The tree\<close>

datatype ctx = Ctx (ctx_value: json) (protoValue: json) (children: "(jsstring \<times> ctx) list")

datatype child_ref = Own ctx | Inherited | Absent

definition child_of :: "(jsstring \<times> ctx) list \<Rightarrow> jsstring \<Rightarrow> child_ref" where
  "child_of ch k = (case map_of ch k of Some c \<Rightarrow> Own c | None \<Rightarrow> if k \<in> set object_prototype then Inherited else Absent)"

text \<open>\<open>assign({}, p, v)\<close>.\<close>

definition merge_values :: "json \<Rightarrow> json \<Rightarrow> json" where
  "merge_values p v = JObj (assign_obj (assign_obj [] (for_in p)) (for_in v))"

definition seen_value :: "json option \<Rightarrow> json \<Rightarrow> json" where
  "seen_value n v = (case n of None \<Rightarrow> v | Some p \<Rightarrow> merge_values p v)"

text \<open>\<open>i\<close> (\<open>updateNode\<close>): a new value, and what its descendants see; \<open>n\<close> is what is seen at the parent.\<close>

fun updateNode :: "ctx \<Rightarrow> json \<Rightarrow> json option \<Rightarrow> ctx" where
  "updateNode (Ctx v0 p0 ch) t n =
     (let v = js_or t (JObj []); p = seen_value n v
      in Ctx v p (map (\<lambda>(k, c). (k, updateNode c (ctx_value c) (Some p))) ch))"

declare updateNode.simps [simp del]

definition createNode :: "json \<Rightarrow> json option \<Rightarrow> ctx" where
  "createNode t n = updateNode (Ctx JUndef JUndef []) t n"

definition contextTree :: "json \<Rightarrow> ctx" where
  "contextTree t = createNode (js_or t (JObj [])) None"

text \<open>\<open>set\<close>: the nodes on the way are made with empty values.\<close>

definition node_at :: "ctx \<Rightarrow> jsstring \<Rightarrow> ctx js" where
  "node_at c k =
     (case child_of (children c) k of
        Own d \<Rightarrow> Inr d
      | Inherited \<Rightarrow> Inl TypeError
      | Absent \<Rightarrow> Inr (createNode JNull (Some (protoValue c))))"

definition put_child :: "ctx \<Rightarrow> jsstring \<Rightarrow> ctx \<Rightarrow> ctx" where
  "put_child c k d = Ctx (ctx_value c) (protoValue c) (obj_put k d (children c))"

fun set_below :: "ctx \<Rightarrow> jsstring list \<Rightarrow> json \<Rightarrow> ctx js" where
  "set_below c [] t = Inr c"
| "set_below c [r] t = js_bind (node_at c r) (\<lambda>d. Inr (put_child c r (updateNode d t (Some (protoValue c)))))"
| "set_below c (k # r # rs) t = js_bind (node_at c k) (\<lambda>d. js_bind (set_below d (r # rs) t) (\<lambda>d'. Inr (put_child c k d')))"

definition ctx_set :: "ctx \<Rightarrow> jsstring list \<Rightarrow> json \<Rightarrow> ctx js" where
  "ctx_set c e t = (if e = [] then Inr (updateNode c t None) else set_below c e t)"

text \<open>\<open>get\<close>: what is seen at the deepest node on the way.\<close>

fun seen_along :: "ctx \<Rightarrow> jsstring list \<Rightarrow> json js" where
  "seen_along c [] = Inr (protoValue c)"
| "seen_along c (k # ks) =
     (case child_of (children c) k of
        Own d \<Rightarrow> seen_along d ks
      | Inherited \<Rightarrow> if ks = [] then Inr JUndef else Inl TypeError
      | Absent \<Rightarrow> Inr (protoValue c))"

definition ctx_get :: "ctx \<Rightarrow> jsstring list \<Rightarrow> json js" where
  "ctx_get c e = (if e = [] then Inr (ctx_value c) else seen_along c e)"

section \<open>Values by path\<close>

text \<open>The value that was set at a path; nodes that were made on the way have the empty one.\<close>

fun value_at :: "ctx \<Rightarrow> jsstring list \<Rightarrow> obj" where
  "value_at c [] = obj_fields (ctx_value c)"
| "value_at c (k # ks) = (case map_of (children c) k of None \<Rightarrow> [] | Some d \<Rightarrow> value_at d ks)"

text \<open>The property \<open>f\<close> seen at a path: going down, each value that has the property overrides what was seen above.\<close>

definition override :: "obj \<Rightarrow> jsstring \<Rightarrow> json option \<Rightarrow> json option" where
  "override fs f r = (case map_of fs f of None \<Rightarrow> r | Some x \<Rightarrow> Some x)"

fun deepest :: "(jsstring list \<Rightarrow> obj) \<Rightarrow> jsstring list \<Rightarrow> jsstring \<Rightarrow> json option \<Rightarrow> json option" where
  "deepest val [] f r = override (val []) f r"
| "deepest val (k # ks) f r = deepest (\<lambda>p. val (k # p)) ks f (override (val []) f r)"

lemma deepest_empty [simp]: "deepest (\<lambda>p. []) ks f r = r"
  by (induction ks arbitrary: r) (simp_all add: override_def)

definition is_dict :: "json \<Rightarrow> bool" where
  "is_dict v = (case v of JObj fs \<Rightarrow> distinct (keys fs) | _ \<Rightarrow> False)"

text \<open>Values are objects, and every node sees its own properties over those of its parent.\<close>

fun well_seen :: "json option \<Rightarrow> ctx \<Rightarrow> bool" where
  "well_seen n (Ctx v p ch) \<longleftrightarrow>
     is_dict v \<and> p = seen_value n v \<and> distinct (keys ch) \<and> list_all (\<lambda>f. well_seen (Some p) (snd f)) ch"

definition dict_or_none :: "json option \<Rightarrow> bool" where
  "dict_or_none n = (case n of None \<Rightarrow> True | Some p \<Rightarrow> is_dict p)"

definition above :: "json option \<Rightarrow> jsstring \<Rightarrow> json option" where
  "above n f = (case n of None \<Rightarrow> None | Some p \<Rightarrow> map_of (obj_fields p) f)"

lemma is_dictE: "is_dict v \<Longrightarrow> \<exists>fs. v = JObj fs \<and> distinct (keys fs)"
  by (cases v) (simp_all add: is_dict_def)

lemma seen_value_dict:
  assumes "is_dict v" "dict_or_none n"
  shows "is_dict (seen_value n v)" "map_of (obj_fields (seen_value n v)) f = override (obj_fields v) f (above n f)"
proof -
  obtain fs where v: "v = JObj fs" "distinct (keys fs)" using is_dictE [OF assms(1)] by blast
  have "is_dict (seen_value n v) \<and> map_of (obj_fields (seen_value n v)) f = override (obj_fields v) f (above n f)"
  proof (cases n)
    case None
    then show ?thesis using v by (simp add: seen_value_def is_dict_def override_def above_def split: option.splits)
  next
    case (Some p)
    then obtain ps where p: "p = JObj ps" "distinct (keys ps)" using is_dictE [of p] assms(2) by (auto simp: dict_or_none_def)
    have "distinct (keys (assign_obj (assign_obj [] ps) fs))" by (intro distinct_assign) (simp add: keys_def)
    then show ?thesis
      using v p Some by (simp add: seen_value_def merge_values_def is_dict_def override_def above_def map_of_assign map_add_def for_in_def)
  qed
  then show "is_dict (seen_value n v)" "map_of (obj_fields (seen_value n v)) f = override (obj_fields v) f (above n f)" by auto
qed

lemma well_seen_sees:
  assumes "well_seen n c" "dict_or_none n"
  shows "is_dict (protoValue c)" "map_of (obj_fields (protoValue c)) f = override (value_at c []) f (above n f)"
  using assms seen_value_dict by (cases c; simp)+

lemma well_seen_child: "well_seen n c \<Longrightarrow> map_of (children c) k = Some d \<Longrightarrow> well_seen (Some (protoValue c)) d"
  by (cases c) (force simp: list_all_iff dest: map_of_SomeD)

lemma seen_along_deepest:
  assumes "well_seen n c" "dict_or_none n" "set q \<inter> set object_prototype = {}"
  shows "\<exists>w. seen_along c q = Inr w \<and> (\<forall>f. map_of (obj_fields w) f = deepest (value_at c) q f (above n f))"
  using assms
proof (induction q arbitrary: c n)
  case Nil
  then show ?case using well_seen_sees by simp
next
  case (Cons k ks)
  note sees = well_seen_sees [OF Cons.prems(1,2)]
  show ?case
  proof (cases "map_of (children c) k")
    case None
    moreover have "child_of (children c) k = Absent" using None Cons.prems(3) by (simp add: child_of_def)
    ultimately show ?thesis using sees(2) by (simp add: None)
  next
    case (Some d)
    have "above (Some (protoValue c)) f = override (value_at c []) f (above n f)" for f using sees(2) by (simp add: above_def)
    then show ?thesis
      using Cons.IH [OF well_seen_child [OF Cons.prems(1) Some]] sees(1) Cons.prems(3) Some
      by (simp add: child_of_def dict_or_none_def)
  qed
qed

lemma updateNode_parts:
  "ctx_value (updateNode d t n) = js_or t (JObj [])" "protoValue (updateNode d t n) = seen_value n (js_or t (JObj []))"
  by (cases d; simp add: updateNode.simps Let_def)+

lemma dict_truthy: "is_dict t \<Longrightarrow> js_or t x = t"
  by (auto dest!: is_dictE simp: js_or_def)

lemma updateNode_well: "well_seen m d \<Longrightarrow> is_dict t \<Longrightarrow> well_seen n (updateNode d t n)"
proof (induction d t n arbitrary: m rule: updateNode.induct)
  case (1 v0 p0 ch t n)
  have "well_seen (Some p) (updateNode c (ctx_value c) (Some p))" if c: "(k, c) \<in> set ch" "p = seen_value n t" for k c p
  proof -
    have w: "well_seen (Some p0) c" using "1.prems"(1) c by (auto simp: list_all_iff)
    then have "is_dict (ctx_value c)" by (cases c) simp
    then show ?thesis using "1.IH" [OF _ _ c(1)] w c "1.prems"(2) by (auto simp: dict_truthy)
  qed
  moreover have "keys (map (\<lambda>(k, c). (k, updateNode c (ctx_value c) (Some p))) ch) = keys ch" for p
    by (induction ch) (auto simp: keys_def)
  ultimately show ?case
    using "1.prems" by (auto simp: updateNode.simps Let_def dict_truthy list_all_iff)
qed

lemma updateNode_value_at: "well_seen m d \<Longrightarrow> is_dict t \<Longrightarrow> value_at (updateNode d t n) = (value_at d)([] := obj_fields t)"
proof -
  have same: "well_seen m d \<Longrightarrow> value_at (updateNode d (ctx_value d) n) p = value_at d p" for m d n p
  proof (induction p arbitrary: m d n)
    case Nil
    then have "is_dict (ctx_value d)" by (cases d) simp
    then show ?case by (simp add: updateNode_parts dict_truthy)
  next
    case (Cons k ks)
    obtain v p0 ch where d: "d = Ctx v p0 ch" by (cases d)
    have "map_of (map (\<lambda>(k, c). (k, updateNode c (ctx_value c) (Some q))) ch) k = map_option (\<lambda>c. updateNode c (ctx_value c) (Some q)) (map_of ch k)" for q
      by (simp add: map_of_map)
    then show ?case
      using Cons well_seen_child [of m d k] by (auto simp: d updateNode.simps Let_def split: option.splits)
  qed
  assume w: "well_seen m d" "is_dict t"
  obtain v p0 ch where d: "d = Ctx v p0 ch" by (cases d)
  have "value_at (updateNode d t n) (k # ks) = value_at d (k # ks)" for k ks
    using w well_seen_child [OF w(1), of k] same
    by (auto simp: d updateNode.simps Let_def map_of_map split: option.splits)
  moreover have "value_at (updateNode d t n) [] = obj_fields t" using w by (simp add: updateNode_parts dict_truthy)
  ultimately show ?thesis by (intro ext, rename_tac p, case_tac p) auto
qed

lemma node_at_well:
  assumes "well_seen n c" "k \<notin> set object_prototype"
  shows "\<exists>d. node_at c k = Inr d \<and> well_seen (Some (protoValue c)) d \<and> value_at d = (\<lambda>q. value_at c (k # q))"
proof (cases "map_of (children c) k")
  case None
  have e: "createNode JNull m = Ctx (JObj []) (seen_value m (JObj [])) []" for m
    by (simp add: createNode_def updateNode.simps js_or_def Let_def)
  have "value_at (Ctx (JObj []) p []) q = []" for p q by (cases q) simp_all
  then show ?thesis using None assms(2) by (auto simp: node_at_def child_of_def e is_dict_def keys_def)
next
  case (Some d)
  then show ?thesis using well_seen_child [OF assms(1) Some] by (auto simp: node_at_def child_of_def)
qed

lemma put_child_well:
  assumes "well_seen n c" "well_seen (Some (protoValue c)) d"
  shows "well_seen n (put_child c k d)"
    "value_at (put_child c k d) = (\<lambda>q. case q of [] \<Rightarrow> value_at c [] | j # js \<Rightarrow> if j = k then value_at d js else value_at c q)"
proof -
  have mem: "f \<in> set (obj_put k d ch) \<Longrightarrow> snd f = d \<or> f \<in> set ch" for f ch
  proof -
    have r: "f \<in> set (obj_replace k d ch) \<Longrightarrow> snd f = d \<or> f \<in> set ch" by (induction ch) (auto split: if_splits)
    have "f \<in> set (obj_insert k d ch) \<Longrightarrow> snd f = d \<or> f \<in> set ch" by (induction ch) (auto split: if_splits)
    then show "f \<in> set (obj_put k d ch) \<Longrightarrow> snd f = d \<or> f \<in> set ch" using r by (auto simp: obj_put_def split: if_splits)
  qed
  obtain v p ch where c: "c = Ctx v p ch" by (cases c)
  have "list_all (\<lambda>f. well_seen (Some p) (snd f)) (obj_put k d ch)"
    using assms mem [of _ ch] by (fastforce simp: c list_all_iff)
  then show "well_seen n (put_child c k d)" using assms(1) by (simp add: c put_child_def)
  show "value_at (put_child c k d) = (\<lambda>q. case q of [] \<Rightarrow> value_at c [] | j # js \<Rightarrow> if j = k then value_at d js else value_at c q)"
    by (intro ext) (auto simp: put_child_def split: list.splits)
qed

lemma set_below_well:
  "well_seen n c \<Longrightarrow> is_dict t \<Longrightarrow> p \<noteq> [] \<Longrightarrow> set p \<inter> set object_prototype = {} \<Longrightarrow>
   \<exists>c'. set_below c p t = Inr c' \<and> well_seen n c' \<and> value_at c' = (value_at c)(p := obj_fields t)"
proof (induction c p t arbitrary: n rule: set_below.induct)
  case (2 c r t)
  then obtain d where d: "node_at c r = Inr d" "well_seen (Some (protoValue c)) d" "value_at d = (\<lambda>q. value_at c (r # q))"
    using node_at_well [of n c r] by auto
  let ?d = "updateNode d t (Some (protoValue c))"
  have "well_seen (Some (protoValue c)) ?d" "value_at ?d = (value_at d)([] := obj_fields t)"
    using d(2) "2.prems"(2) by (simp_all add: updateNode_well updateNode_value_at)
  then show ?case
    using put_child_well [OF "2.prems"(1), of ?d r] d by (auto simp: fun_eq_iff split: list.splits)
next
  case (3 c k r rs t)
  then obtain d where d: "node_at c k = Inr d" "well_seen (Some (protoValue c)) d" "value_at d = (\<lambda>q. value_at c (k # q))"
    using node_at_well [of n c k] by auto
  obtain d' where d': "set_below d (r # rs) t = Inr d'" "well_seen (Some (protoValue c)) d'"
      "value_at d' = (value_at d)(r # rs := obj_fields t)"
    using "3.IH" [OF d(2) "3.prems"(2)] "3.prems"(4) by force
  then show ?case
    using put_child_well [OF "3.prems"(1) d'(2), of k] d by (auto simp: fun_eq_iff split: list.splits)
qed simp

text \<open>
  C6: setting a context succeeds, keeps the tree well formed, and from then on what any path sees is computed from the
  values set by path: the property of the deepest value on the way that has it, where the new value counts at its path.
\<close>

theorem context_refines:
  assumes "well_seen None c" "is_dict t" "set p \<inter> set object_prototype = {}" "set q \<inter> set object_prototype = {}"
  shows "\<exists>c' w. ctx_set c p t = Inr c' \<and> well_seen None c' \<and> ctx_get c' q = Inr w \<and>
    (\<forall>f. map_of (obj_fields w) f = deepest ((value_at c)(p := obj_fields t)) q f None)"
proof -
  obtain c' where c': "ctx_set c p t = Inr c'" "well_seen None c'" "value_at c' = (value_at c)(p := obj_fields t)"
    using set_below_well [OF assms(1,2), of p] updateNode_well [OF assms(1,2)] updateNode_value_at [OF assms(1,2)] assms(3)
    by (cases "p = []") (auto simp: ctx_set_def)
  obtain w where w: "seen_along c' q = Inr w" "\<forall>f. map_of (obj_fields w) f = deepest (value_at c') q f None"
    using seen_along_deepest [OF c'(2) _ assms(4)] by (auto simp: dict_or_none_def above_def)
  have "ctx_get c' q = Inr w"
    using w(1) c'(2) by (cases c') (auto simp: ctx_get_def seen_value_def)
  then show ?thesis using c' w(2) by auto
qed

definition root_context :: ctx where
  "root_context = contextTree (JObj [(str ''baseDoc'', JStr (str ''a'')), (str ''x'', JBool True)])"

theorem context_refines_witness:
  "\<exists>c' w. ctx_set root_context [str ''paths'', str ''get''] (JObj [(str ''baseDoc'', JStr (str ''b''))]) = Inr c' \<and>
     well_seen None c' \<and> ctx_get c' [str ''paths'', str ''get'', str ''schema''] = Inr w \<and>
     (\<forall>f. map_of (obj_fields w) f =
        deepest ((value_at root_context)([str ''paths'', str ''get''] := [(str ''baseDoc'', JStr (str ''b''))]))
          [str ''paths'', str ''get'', str ''schema''] f None)"
proof -
  have "well_seen None root_context"
    by (simp add: root_context_def contextTree_def createNode_def updateNode.simps js_or_def seen_value_def is_dict_def keys_def Let_def)
  then show ?thesis
    using context_refines [of root_context "JObj [(str ''baseDoc'', JStr (str ''b''))]" "[str ''paths'', str ''get'']"
        "[str ''paths'', str ''get'', str ''schema'']"]
    by (simp add: is_dict_def keys_def object_prototype_def)
qed

end
