(* ===== verification/Swg_Tags.thy ===== *)
theory Swg_Tags
  imports Swg_Normalize JS_Digits
begin

text \<open>
  The interfaces of the API client by tag (\<open>interfaces\<close> of \<open>swagger-client\<close>): operations grouped by their tags, under
  identifiers that get numbers when they collide.

  Tags and identifiers that are names of properties of \<open>Object.prototype\<close> are not modelled; the result is an error for
  them. The callback's results are not \<open>undefined\<close>.
\<close>

section \<open>Grouping\<close>

type_synonym 'p tag_map = "(jsstring \<times> (jsstring \<times> 'p) list) list"

record 'p tag_state =
  id_counts :: "(jsstring \<times> nat) list"
  tag_ops :: "'p tag_map"

definition operation_tags :: "jsstring \<Rightarrow> json \<Rightarrow> json list" where
  "operation_tags i l =
     (let t = own l ''tags'' in if truthy t then (case t of JArr xs \<Rightarrow> xs | _ \<Rightarrow> [t]) else [JStr i])"

definition named_under :: "'p tag_state \<Rightarrow> jsstring \<Rightarrow> (jsstring \<times> 'p) list" where
  "named_under st e = (case map_of (tag_ops st) e of None \<Rightarrow> [] | Some i \<Rightarrow> i)"

definition numbered :: "jsstring \<Rightarrow> nat \<Rightarrow> jsstring" where
  "numbered c d = c @ nat_text d"

definition add_named :: "jsstring \<Rightarrow> jsstring \<Rightarrow> 'p \<Rightarrow> 'p tag_state \<Rightarrow> 'p tag_state" where
  "add_named e c p st =
     (let i = named_under st e; u = id_counts st
      in case map_of u c of
           Some d \<Rightarrow> st\<lparr>id_counts := obj_put c (d + 1) u, tag_ops := obj_put e (obj_put (numbered c (d + 1)) p i) (tag_ops st)\<rparr>
         | None \<Rightarrow>
             (case map_of i c of
                Some h0 \<Rightarrow>
                  (let i' = obj_put (numbered c 2) p i; h = (case map_of i' c of Some x \<Rightarrow> x | None \<Rightarrow> h0)
                   in st\<lparr>id_counts := obj_put c 2 u, tag_ops := obj_put e (obj_put (numbered c 1) h (obj_del c i')) (tag_ops st)\<rparr>)
              | None \<Rightarrow> st\<lparr>tag_ops := obj_put e (obj_put c p i) (tag_ops st)\<rparr>))"

definition inherited_name :: "jsstring \<Rightarrow> bool" where
  "inherited_name k \<longleftrightarrow> k \<in> set object_prototype"

definition add_tag ::
    "(operation_ref \<Rightarrow> jsstring \<Rightarrow> 'p js) \<Rightarrow> bool \<Rightarrow> operation_ref \<Rightarrow> json \<Rightarrow> 'p tag_state \<Rightarrow> 'p tag_state js" where
  "add_tag r v2 op e st =
     (case e of
        JStr e' \<Rightarrow>
          js_bind (opId (operation op) (pathName op) (op_method op) v2) (\<lambda>c'.
            let c = (case c' of None \<Rightarrow> str ''null'' | Some s \<Rightarrow> s)
            in js_bind (r op c) (\<lambda>p.
                 if inherited_name e' \<or> inherited_name c then Inl (OtherError ''inherited name'') else Inr (add_named e' c p st)))
      | _ \<Rightarrow> Inr st)"

definition mapTagOperations ::
    "json \<Rightarrow> (operation_ref \<Rightarrow> jsstring \<Rightarrow> 'p js) \<Rightarrow> jsstring \<Rightarrow> bool \<Rightarrow> 'p tag_map js" where
  "mapTagOperations t r i v2 =
     js_bind (eachOperation t (\<lambda>op st. js_fold (add_tag r v2 op) (operation_tags i (operation op)) st)
       \<lparr>id_counts = [], tag_ops = []\<rparr>) (\<lambda>st. Inr (tag_ops st))"

section \<open>Interfaces\<close>

text \<open>\<open>pick\<close> of lodash, for properties of the object itself.\<close>

definition pick :: "obj \<Rightarrow> jsstring list \<Rightarrow> obj" where
  "pick fs ks = concat (map (\<lambda>k. case map_of fs k of None \<Rightarrow> [] | Some v \<Rightarrow> [(k, v)]) ks)"

text \<open>The options that the function of an operation passes to \<open>execute\<close>, given parameters and further options.\<close>

definition makeExecute :: "obj \<Rightarrow> operation_ref \<Rightarrow> jsstring \<Rightarrow> json \<Rightarrow> obj \<Rightarrow> obj" where
  "makeExecute e op c t i =
     assign_obj
       (assign_obj
         (assign_obj [(str ''spec'', field e ''spec'')]
           (pick e [str ''requestInterceptor'', str ''responseInterceptor'', str ''userFetch'']))
         [(str ''pathName'', JStr (pathName op)), (str ''method'', JStr (op_method op)), (str ''parameters'', t),
          (str ''operationId'', JStr c)]) i"

type_synonym executor = "json \<Rightarrow> obj \<Rightarrow> obj"

record 'p executable =
  api_execute :: 'p

record 'p tag_api =
  api_operations :: "(jsstring \<times> 'p executable) list"

definition makeApisTagOperation :: "obj \<Rightarrow> executor tag_map js" where
  "makeApisTagOperation e =
     mapTagOperations (field e ''spec'') (\<lambda>op c. Inr (makeExecute e op c)) (str ''default'') (truthy (field e ''v2OperationIdCompatibilityMode''))"

definition makeApisTagOperationsOperationExecute :: "obj \<Rightarrow> (jsstring \<times> executor tag_api) list js" where
  "makeApisTagOperationsOperationExecute e =
     js_bind (makeApisTagOperation e) (\<lambda>n.
       Inr (map (\<lambda>(k, i). (k, \<lparr>api_operations = map (\<lambda>(j, p). (j, \<lparr>api_execute = p\<rparr>)) i\<rparr>)) n))"

section \<open>What the groups hold\<close>

text \<open>The operation found under a tag and a name.\<close>

definition tag_lookup :: "'p tag_map \<Rightarrow> jsstring \<Rightarrow> jsstring \<Rightarrow> 'p option" where
  "tag_lookup f e c = (case map_of f e of None \<Rightarrow> None | Some i \<Rightarrow> map_of i c)"

fun only_strings :: "json list \<Rightarrow> jsstring list" where
  "only_strings [] = []"
| "only_strings (e # es) = (case e of JStr s \<Rightarrow> s # only_strings es | _ \<Rightarrow> only_strings es)"

definition string_tags :: "jsstring \<Rightarrow> operation_ref \<Rightarrow> jsstring list" where
  "string_tags i op = only_strings (operation_tags i (operation op))"

text \<open>Identifiers, one for each operation, that the grouping can use.\<close>

definition good_ids :: "bool \<Rightarrow> operation_ref list \<Rightarrow> (operation_ref \<Rightarrow> jsstring) \<Rightarrow> bool" where
  "good_ids v2 ops ident \<longleftrightarrow>
     distinct (map ident ops) \<and>
     list_all (\<lambda>op. opId (operation op) (pathName op) (op_method op) v2 = Inr (Some (ident op)) \<and> \<not> inherited_name (ident op)) ops"

definition good_tags :: "jsstring \<Rightarrow> operation_ref list \<Rightarrow> bool" where
  "good_tags i ops \<longleftrightarrow> list_all (\<lambda>op. distinct (string_tags i op) \<and> list_all (\<lambda>e. \<not> inherited_name e) (string_tags i op)) ops"

definition fresh_state :: "'p tag_state \<Rightarrow> jsstring \<Rightarrow> jsstring \<Rightarrow> bool" where
  "fresh_state st e c \<longleftrightarrow> id_counts st = [] \<and> tag_lookup (tag_ops st) e c = None"

lemma tag_lookup_Nil [simp]: "tag_lookup [] e c = None"
  by (simp add: tag_lookup_def)

lemma add_named_fresh:
  "fresh_state st e c \<Longrightarrow> id_counts (add_named e c p st) = [] \<and>
    tag_lookup (tag_ops (add_named e c p st)) e' c' = (if e' = e \<and> c' = c then Some p else tag_lookup (tag_ops st) e' c')"
  by (auto simp: fresh_state_def add_named_def named_under_def tag_lookup_def split: option.splits)

lemma add_tags_of:
  assumes "opId (operation op) (pathName op) (op_method op) v2 = Inr (Some c)" "\<not> inherited_name c" "r op c = Inr p"
    "id_counts st = []" "distinct es" "\<forall>e\<in>set es. \<not> inherited_name e \<and> tag_lookup (tag_ops st) e c = None"
    "only_strings ts = es"
  shows "\<exists>st'. js_fold (add_tag r v2 op) ts st = Inr st' \<and> id_counts st' = [] \<and>
    (\<forall>e' c'. tag_lookup (tag_ops st') e' c' = (if e' \<in> set es \<and> c' = c then Some p else tag_lookup (tag_ops st) e' c'))"
  using assms(4-)
proof (induction ts arbitrary: st es)
  case (Cons t ts)
  show ?case
  proof (cases "\<exists>s. t = JStr s")
    case True
    then obtain s where t: "t = JStr s" by blast
    let ?st = "add_named s c p st"
    obtain es' where es: "es = s # es'" "only_strings ts = es'"
      using Cons.prems(4) by (auto simp: t)
    have f: "fresh_state st s c" using Cons.prems(1,3) es by (simp add: fresh_state_def)
    note add = add_named_fresh [OF f, of p]
    have "add_tag r v2 op t st = Inr ?st" using assms(1-3) Cons.prems(3) es by (simp add: add_tag_def t)
    moreover have "\<exists>st'. js_fold (add_tag r v2 op) ts ?st = Inr st' \<and> id_counts st' = [] \<and>
        (\<forall>e' c'. tag_lookup (tag_ops st') e' c' = (if e' \<in> set es' \<and> c' = c then Some p else tag_lookup (tag_ops ?st) e' c'))"
      by (rule Cons.IH) (use add Cons.prems(2,3) es in auto)
    ultimately show ?thesis using add es by auto
  next
    case False
    then have "add_tag r v2 op t st = Inr st" by (auto simp: add_tag_def split: json.splits)
    moreover have "only_strings ts = es"
      using False Cons.prems(4) by (auto split: json.splits)
    ultimately show ?thesis using Cons.IH [OF Cons.prems(1-3)] by simp
  qed
qed auto

lemma add_operations:
  assumes "good_ids v2 ops ident" "good_tags i ops" "\<forall>op\<in>set ops. r op (ident op) = Inr (g op)"
    "id_counts st = []" "\<forall>e. \<forall>op\<in>set ops. tag_lookup (tag_ops st) e (ident op) = None"
  shows "\<exists>st'. js_fold (\<lambda>op st. js_fold (add_tag r v2 op) (operation_tags i (operation op)) st) ops st = Inr st' \<and>
    (\<forall>e c p. tag_lookup (tag_ops st') e c = Some p \<longleftrightarrow>
       tag_lookup (tag_ops st) e c = Some p \<or> (\<exists>op\<in>set ops. e \<in> set (string_tags i op) \<and> c = ident op \<and> p = g op))"
  using assms
proof (induction ops arbitrary: st)
  case (Cons op ops)
  have id: "opId (operation op) (pathName op) (op_method op) v2 = Inr (Some (ident op))" "\<not> inherited_name (ident op)"
    "good_ids v2 ops ident" "ident op \<notin> ident ` set ops"
    using Cons.prems(1) by (auto simp: good_ids_def)
  have tg: "distinct (string_tags i op)" "\<forall>e\<in>set (string_tags i op). \<not> inherited_name e" "good_tags i ops"
    using Cons.prems(2) by (auto simp: good_tags_def list_all_iff)
  have cb: "r op (ident op) = Inr (g op)" using Cons.prems(3) by simp
  have n: "\<forall>e\<in>set (string_tags i op). \<not> inherited_name e \<and> tag_lookup (tag_ops st) e (ident op) = None"
    using tg(2) Cons.prems(5) by simp
  obtain st1 where st1: "js_fold (add_tag r v2 op) (operation_tags i (operation op)) st = Inr st1" "id_counts st1 = []"
    "\<forall>e' c'. tag_lookup (tag_ops st1) e' c' =
       (if e' \<in> set (string_tags i op) \<and> c' = ident op then Some (g op) else tag_lookup (tag_ops st) e' c')"
    using add_tags_of [OF id(1,2), of r, OF cb Cons.prems(4) tg(1) n string_tags_def [symmetric]] by blast
  have "\<forall>e. \<forall>op\<in>set ops. tag_lookup (tag_ops st1) e (ident op) = None"
    using st1(3) Cons.prems(5) id(4) by (auto simp: image_iff)
  then obtain st' where st': "js_fold (\<lambda>op st. js_fold (add_tag r v2 op) (operation_tags i (operation op)) st) ops st1 = Inr st'"
    "\<forall>e c p. tag_lookup (tag_ops st') e c = Some p \<longleftrightarrow>
       tag_lookup (tag_ops st1) e c = Some p \<or> (\<exists>op\<in>set ops. e \<in> set (string_tags i op) \<and> c = ident op \<and> p = g op)"
    using Cons.IH [OF id(3) tg(3) _ st1(2)] Cons.prems(3) by auto
  have "tag_lookup (tag_ops st1) e c = Some p \<longleftrightarrow>
      tag_lookup (tag_ops st) e c = Some p \<or> e \<in> set (string_tags i op) \<and> c = ident op \<and> p = g op" for e c p
    using st1(3) Cons.prems(5) by auto
  then show ?case using st1(1) st' by auto
qed auto

text \<open>
  C22: when the operations of a specification have identifiers of their own, grouping them by tag succeeds, and under a
  tag and an identifier stands just what the callback made of the operation that has both.
\<close>

theorem mapTagOperations_groups:
  assumes "good_ids v2 (operations spec) ident" "good_tags i (operations spec)"
    "\<forall>op\<in>set (operations spec). r op (ident op) = Inr (g op)"
  shows "\<exists>f. mapTagOperations spec r i v2 = Inr f \<and>
    (\<forall>e c p. tag_lookup f e c = Some p \<longleftrightarrow>
       (\<exists>op\<in>set (operations spec). e \<in> set (string_tags i op) \<and> c = ident op \<and> p = g op))"
proof -
  obtain st where "js_fold (\<lambda>op st. js_fold (add_tag r v2 op) (operation_tags i (operation op)) st) (operations spec)
      \<lparr>id_counts = [], tag_ops = []\<rparr> = Inr st"
    "\<forall>e c p. tag_lookup (tag_ops st) e c = Some p \<longleftrightarrow>
       (\<exists>op\<in>set (operations spec). e \<in> set (string_tags i op) \<and> c = ident op \<and> p = g op)"
    using add_operations [OF assms(1,2), where r = r and g = g and st = "\<lparr>id_counts = [], tag_ops = []\<rparr>"] assms(3) by auto
  then show ?thesis by (simp add: mapTagOperations_def eachOperation_def)
qed

definition tagged_spec :: json where
  "tagged_spec =
     JObj [(str ''paths'', JObj [(str ''/a'', JObj
       [(str ''get'', JObj [(str ''operationId'', JStr (str ''read'')), (str ''tags'', JArr [JStr (str ''x''), JStr (str ''y'')])]),
        (str ''put'', JObj [(str ''operationId'', JStr (str ''store''))])])])]"

definition tagged_id :: "operation_ref \<Rightarrow> jsstring" where
  "tagged_id op = js_text (own (operation op) ''operationId'')"

theorem mapTagOperations_groups_witness:
  "\<exists>f. mapTagOperations tagged_spec (\<lambda>op c. Inr (op_method op)) (str ''default'') False = Inr f \<and>
     (\<forall>e c p. tag_lookup f e c = Some p \<longleftrightarrow>
        (\<exists>op\<in>set (operations tagged_spec). e \<in> set (string_tags (str ''default'') op) \<and> c = tagged_id op \<and> p = op_method op))"
proof -
  have ops: "operations tagged_spec =
      [\<lparr>pathName = str ''/a'', op_method = str ''GET'',
        operation = JObj [(str ''operationId'', JStr (str ''read'')), (str ''tags'', JArr [JStr (str ''x''), JStr (str ''y'')])]\<rparr>,
       \<lparr>pathName = str ''/a'', op_method = str ''PUT'', operation = JObj [(str ''operationId'', JStr (str ''store''))]\<rparr>]"
    by (simp add: operations_def tagged_spec_def is_objectlike_def for_in_def field_def path_operations_def)
       (simp add: toUpperCase_def upper_unit_def str_def)
  have id: "opId (JObj fs) t n v = Inr (Some s)"
    if "field fs ''operationId'' = JStr s" "escapeString s = s" "filter (\<lambda>c. \<not> is_space c) s \<noteq> []" for fs s t n v
    using that by (cases "s = []") (simp_all add: opId_def is_objectlike_def js_or_def)
  have "escapeString (str ''read'') = str ''read''" "escapeString (str ''store'') = str ''store''"
    "filter (\<lambda>c. \<not> is_space c) (str ''read'') \<noteq> []" "filter (\<lambda>c. \<not> is_space c) (str ''store'') \<noteq> []"
    by (simp_all add: escapeString_def str_def alnum_def is_space_def)
  then have "good_ids False (operations tagged_spec) tagged_id"
    by (simp add: good_ids_def ops tagged_id_def own_def field_def id inherited_name_def object_prototype_def)
  moreover have "good_tags (str ''default'') (operations tagged_spec)"
    by (simp add: good_tags_def ops string_tags_def operation_tags_def own_def field_def inherited_name_def object_prototype_def)
  ultimately show ?thesis by (intro mapTagOperations_groups) simp_all
qed

text \<open>With identifiers that repeat, the numbering can take a name that is in use, and an operation is lost.\<close>

lemma numbered_operation_lost:
  "tag_ops (add_named t (str ''a'') p3 (add_named t (str ''a'') p2 (add_named t (str ''a1'') p1 \<lparr>id_counts = [], tag_ops = []\<rparr>))) =
     [(t, [(str ''a1'', p2), (str ''a2'', p3)])]"
proof -
  have n: "numbered (str ''a'') (Suc 0) = str ''a1''" "numbered (str ''a'') 2 = str ''a2''"
    by (simp_all add: numbered_def nat_text.simps digit_unit_def str_def)
  have "\<not> comes_before (str s) k" if "s \<in> {''a'', ''a1'', ''a2''}" for s k
    using that by (auto simp: comes_before_def index_key_def str_def digit_value_def)
  then show ?thesis by (simp add: add_named_def named_under_def n obj_put_def obj_del_def Let_def) (force simp: image_iff)
qed

end
