(* ===== verification/Spec_Lib.thy ===== *)
theory Spec_Lib
  imports Json_Patch
begin

text \<open>
  The functions that the resolver of the API client works with (\<open>specmap/lib/index\<close> of \<open>swagger-client\<close>): kinds of
  patches, traversals of documents, and the application of a patch. A patch is a JavaScript object with a path that is
  an array of keys. The module is in strict mode.

  Two packages merge objects: \<open>deep-extend\<close>, and the one whose loop is \<open>s\<close> with the option \<open>arrayBehaviour\<close>. Documents hold
  no files, and no object has a property of its own called \<open>hasOwnProperty\<close>.
\<close>

section \<open>Merging objects\<close>

text \<open>\<open>i\<close>, \<open>a\<close> and \<open>u\<close>: copies.\<close>

fun copy_deep :: "json \<Rightarrow> json" where
  "copy_deep (JObj fs) = JObj (map (\<lambda>(k, x). (k, copy_deep x)) fs)"
| "copy_deep (JArr xs) = JArr (map copy_deep xs)"
| "copy_deep (JFile n) = JObj []"
| "copy_deep v = v"

text \<open>
  The loop of \<open>s\<close> for one key: the new value, given the old one. \<open>ab\<close> says whether arrays are appended. The source copies
  an object before it merges it; the copy is made here where the values are stored.
\<close>

definition old_fields :: "json \<Rightarrow> obj" where
  "old_fields v = (case copy_deep v of JObj gs \<Rightarrow> gs | _ \<Rightarrow> [])"

fun merged :: "bool \<Rightarrow> json \<Rightarrow> json \<Rightarrow> json" where
  "merged ab old (JObj hs) =
     (if old = JUndef then copy_deep (JObj hs)
      else JObj (fold (\<lambda>(d, h) i. obj_put d (merged ab (obj_at i d) h) i) hs (old_fields old)))"
| "merged ab old (JArr ys) =
     (case old of JArr xs \<Rightarrow> JArr (if ab then xs @ map copy_deep ys else map copy_deep ys) | _ \<Rightarrow> JArr (map copy_deep ys))"
| "merged ab old (JFile n) = (if old = JUndef then JObj [] else JObj (old_fields old))"
| "merged ab old h = h"

definition merge_sources :: "bool \<Rightarrow> obj \<Rightarrow> json list \<Rightarrow> obj" where
  "merge_sources ab e cs = fold (\<lambda>c i. fold (\<lambda>(d, h) i. obj_put d (merged ab (obj_at i d) h) i) (for_in c) i) cs e"

definition noMutate :: "json list \<Rightarrow> obj" where
  "noMutate cs = merge_sources False [] cs"

text \<open>\<open>deep-extend\<close>: the value stored for a key, given the value \<open>t\<close> that is there.\<close>

fun extended :: "json \<Rightarrow> json \<Rightarrow> json" where
  "extended t (JObj us) =
     JObj (fold (\<lambda>(s, e) a. if s = str ''__proto__'' then a else obj_put s (extended (obj_at a s) e) a) us
       (case t of JObj ts \<Rightarrow> ts | _ \<Rightarrow> []))"
| "extended t (JArr xs) = JArr (map (extended JUndef) xs)"
| "extended t (JFile n) = JObj (case t of JObj ts \<Rightarrow> ts | _ \<Rightarrow> [])"
| "extended t e = e"

definition deepExtend :: "obj \<Rightarrow> json \<Rightarrow> obj" where
  "deepExtend a u = (case u of JObj us \<Rightarrow> obj_fields (extended (JObj a) u) | _ \<Rightarrow> a)"

section \<open>Patches\<close>

definition pointer_token :: "json \<Rightarrow> jsstring" where
  "pointer_token e = replace_chars 47 (str ''~1'') (replace_chars 126 (str ''~0'') (js_text e))"

definition normalizeJSONPath :: "json \<Rightarrow> json" where
  "normalizeJSONPath e =
     (case e of
        JArr es \<Rightarrow> JStr (if es = [] then [] else str ''/'' @ join (str ''/'') (map pointer_token es))
      | _ \<Rightarrow> e)"

definition patch_of :: "(string \<times> json) list \<Rightarrow> json" where
  "patch_of fs = JObj (map (\<lambda>(k, v). (str k, v)) fs)"

definition spec_add :: "json \<Rightarrow> json \<Rightarrow> json" where
  "spec_add e t = patch_of [(''op'', JStr (str ''add'')), (''path'', e), (''value'', t)]"

definition spec_replace :: "json \<Rightarrow> json \<Rightarrow> json \<Rightarrow> json" where
  "spec_replace e t n = patch_of [(''op'', JStr (str ''replace'')), (''path'', e), (''value'', t), (''meta'', n)]"

definition spec_remove :: "json \<Rightarrow> json" where
  "spec_remove e = patch_of [(''op'', JStr (str ''remove'')), (''path'', e)]"

definition spec_merge :: "json \<Rightarrow> json \<Rightarrow> json" where
  "spec_merge e t = patch_of [(''type'', JStr (str ''mutation'')), (''op'', JStr (str ''merge'')), (''path'', e), (''value'', t)]"

definition spec_mergeDeep :: "json \<Rightarrow> json \<Rightarrow> json" where
  "spec_mergeDeep e t = patch_of [(''type'', JStr (str ''mutation'')), (''op'', JStr (str ''mergeDeep'')), (''path'', e), (''value'', t)]"

definition spec_context :: "json \<Rightarrow> json \<Rightarrow> json" where
  "spec_context e t = patch_of [(''type'', JStr (str ''context'')), (''path'', e), (''value'', t)]"

definition isObject :: "json \<Rightarrow> bool" where
  "isObject e \<longleftrightarrow> truthy e \<and> type_of e = ''object''"

definition isFunction :: "json \<Rightarrow> bool" where
  "isFunction e \<longleftrightarrow> type_of e = ''function''"

definition isPatch :: "json \<Rightarrow> bool" where
  "isPatch e \<longleftrightarrow> truthy e \<and> type_of e = ''object''"

definition isJsonPatch :: "json \<Rightarrow> bool" where
  "isJsonPatch e \<longleftrightarrow> isPatch e \<and> (is_op e ''add'' \<or> is_op e ''remove'' \<or> is_op e ''replace'')"

definition isMutation :: "json \<Rightarrow> bool" where
  "isMutation e \<longleftrightarrow> isJsonPatch e \<or> isPatch e \<and> own e ''type'' = JStr (str ''mutation'')"

definition isAdditiveMutation :: "json \<Rightarrow> bool" where
  "isAdditiveMutation e \<longleftrightarrow> isMutation e \<and> (is_op e ''add'' \<or> is_op e ''replace'' \<or> is_op e ''merge'' \<or> is_op e ''mergeDeep'')"

definition isContextPatch :: "json \<Rightarrow> bool" where
  "isContextPatch e \<longleftrightarrow> isPatch e \<and> own e ''type'' = JStr (str ''context'')"

section \<open>Traversals\<close>

definition normalizeArray :: "json \<Rightarrow> json list" where
  "normalizeArray e = (case e of JArr xs \<Rightarrow> xs | _ \<Rightarrow> [e])"

fun flat_value :: "json \<Rightarrow> json list" where
  "flat_value (JArr xs) = concat (map flat_value xs)"
| "flat_value e = [e]"

definition flatten :: "json list \<Rightarrow> json list" where
  "flatten e = concat (map flat_value e)"

definition cleanArray :: "json list \<Rightarrow> json list" where
  "cleanArray e = filter (\<lambda>x. x \<noteq> JUndef) e"

definition fullyNormalizeArray :: "json \<Rightarrow> json list" where
  "fullyNormalizeArray e = cleanArray (flatten (normalizeArray e))"

text \<open>The children of a value with their keys, which are numbers in an array.\<close>

fun number_keys :: "nat \<Rightarrow> json list \<Rightarrow> (json \<times> json) list" where
  "number_keys i [] = []"
| "number_keys i (x # xs) = (JNat i, x) # number_keys (Suc i) xs"

definition child_list :: "json \<Rightarrow> (json \<times> json) list" where
  "child_list e =
     (case e of
        JArr xs \<Rightarrow> number_keys 0 xs
      | _ \<Rightarrow> if isObject e then map (\<lambda>(k, x). (JStr k, x)) (for_in e) else [])"

lemma child_smaller: "(k, x) \<in> set (child_list e) \<Longrightarrow> size x < size e"
proof -
  assume a: "(k, x) \<in> set (child_list e)"
  show ?thesis
  proof (cases "is_arr e")
    case True
    then obtain xs where e: "e = JArr xs" by (cases e) simp_all
    have "(k, x) \<in> set (number_keys i ys) \<Longrightarrow> x \<in> set ys" for i ys by (induction i ys rule: number_keys.induct) auto
    then have "x \<in> set xs" using a by (auto simp: child_list_def e)
    then show ?thesis using size_list_estimation' [of x xs "size x" size] by (simp add: e)
  next
    case False
    then have "isObject e" "\<exists>j. (j, x) \<in> set (for_in e)" using a by (auto simp: child_list_def split: json.splits if_splits)
    then show ?thesis by (auto simp: isObject_def intro: for_in_smaller)
  qed
qed

definition last_key :: "json list \<Rightarrow> json" where
  "last_key n = (if n = [] then JUndef else last n)"

text \<open>\<open>s\<close> (\<open>forEach\<close>): the callback for every value below the top, before the values inside it.\<close>

definition results_of :: "json \<Rightarrow> json list" where
  "results_of r = (if truthy r then flat_value r else [])"

function forEach :: "(json \<Rightarrow> json \<Rightarrow> json list \<Rightarrow> json js) \<Rightarrow> json list \<Rightarrow> json \<Rightarrow> json list js" where
  "forEach t n e =
     js_bind (if n \<noteq> [] then js_bind (t e (last_key n) n) (\<lambda>r. Inr (results_of r)) else Inr []) (\<lambda>r.
       js_bind (js_concat (map (\<lambda>(k, x). forEach t (n @ [k]) x) (child_list e))) (\<lambda>i. Inr (r @ i)))"
  by pat_completeness auto
termination
  by (relation "measure (\<lambda>(t, n, e). size e)") (auto simp: child_smaller)

text \<open>\<open>u\<close> (\<open>forEachPrimitive\<close>): the callback for what is neither an array nor an object.\<close>

function forEachPrimitive :: "(json \<Rightarrow> json \<Rightarrow> json list \<Rightarrow> json js) \<Rightarrow> json list \<Rightarrow> json \<Rightarrow> json list js" where
  "forEachPrimitive t n e =
     (if is_arr e \<or> isObject e then js_concat (map (\<lambda>(k, x). forEachPrimitive t (n @ [k]) x) (child_list e))
      else js_bind (t e (last_key n) n) (\<lambda>r. Inr (flat_value r)))"
  by pat_completeness auto
termination
  by (relation "measure (\<lambda>(t, n, e). size e)") (auto simp: child_smaller)

declare forEach.simps [simp del] forEachPrimitive.simps [simp del]

definition path_keys :: "json \<Rightarrow> json list" where
  "path_keys p = arr_items p"

definition forEachNewPatch ::
    "json list \<Rightarrow> ((json \<Rightarrow> json \<Rightarrow> json list \<Rightarrow> json js) \<Rightarrow> json list \<Rightarrow> json \<Rightarrow> json list js) \<Rightarrow>
     (json \<Rightarrow> json \<Rightarrow> json list \<Rightarrow> json js) \<Rightarrow> json list js" where
  "forEachNewPatch e t n =
     js_bind (js_concat (map (\<lambda>p. t n (path_keys (own p ''path'')) (own p ''value'')) (filter isAdditiveMutation e)))
       (\<lambda>rs. Inr (cleanArray rs))"

text \<open>The result is the error if the callback throws.\<close>

definition forEachNew :: "json list \<Rightarrow> (json \<Rightarrow> json \<Rightarrow> json list \<Rightarrow> json js) \<Rightarrow> json list js" where
  "forEachNew e t = forEachNewPatch e forEach t"

definition forEachNewPrimitive :: "json list \<Rightarrow> (json \<Rightarrow> json \<Rightarrow> json list \<Rightarrow> json js) \<Rightarrow> json list js" where
  "forEachNewPrimitive e t = forEachNewPatch e forEachPrimitive t"

definition read_key :: "json \<Rightarrow> json \<Rightarrow> json" where
  "read_key e t = (case js_index e (js_text t) of Inl x \<Rightarrow> JUndef | Inr v \<Rightarrow> v)"

definition spec_get_step :: "json \<Rightarrow> json \<Rightarrow> json" where
  "spec_get_step t e = (if t \<noteq> JUndef \<and> truthy e then read_key e t else e)"

definition spec_getIn :: "json \<Rightarrow> json list \<Rightarrow> json" where
  "spec_getIn e t = fold spec_get_step t e"

definition parentPathMatch :: "json list \<Rightarrow> json \<Rightarrow> bool" where
  "parentPathMatch e t = (case t of JArr ts \<Rightarrow> list_all (\<lambda>n. strictly_equal (ts ! n) (arr_elem e n)) [0..<length ts] | _ \<Rightarrow> False)"

section \<open>Applying a patch\<close>

text \<open>\<open>y\<close> (\<open>getInByJsonPath\<close>): an empty object when the path cannot be followed; \<open>None\<close> then, as it is not in the document.\<close>

definition found_at :: "json \<Rightarrow> json \<Rightarrow> json option" where
  "found_at e p = (case getValueByPointer e p of Inl x \<Rightarrow> None | Inr v \<Rightarrow> Some v)"

definition getInByJsonPath :: "json \<Rightarrow> json \<Rightarrow> json" where
  "getInByJsonPath e p = (case found_at e p of None \<Rightarrow> JObj [] | Some v \<Rightarrow> v)"

text \<open>An assignment in strict mode.\<close>

definition strict_store :: "json \<Rightarrow> jsstring \<Rightarrow> json \<Rightarrow> json js" where
  "strict_store v k x = (if type_of v = ''object'' \<or> type_of v = ''function'' then js_store v k x else Inl TypeError)"

text \<open>\<open>Object.assign(r, v)\<close>: what becomes of \<open>r\<close>. A string, number or boolean is wrapped, and the wrapper is dropped.\<close>

definition assign_to :: "json \<Rightarrow> json \<Rightarrow> json js" where
  "assign_to r v =
     (case r of
        JUndef \<Rightarrow> Inl TypeError
      | JNull \<Rightarrow> Inl TypeError
      | JObj fs \<Rightarrow> Inr (JObj (assign_obj fs (for_in v)))
      | JArr xs \<Rightarrow> js_fold (\<lambda>(k, x) a. js_store a k x) (for_in v) r
      | _ \<Rightarrow> Inr r)"

definition fresh_assign :: "json \<Rightarrow> json \<Rightarrow> json" where
  "fresh_assign g m = JObj (assign_obj (assign_obj [] (for_in g)) (for_in m))"

text \<open>
  Applying operations of the patch library. The code drops the document that is returned and keeps the one it passed, which
  is not changed by an operation on the whole document.
\<close>

definition patch_document :: "json \<Rightarrow> json list \<Rightarrow> json js" where
  "patch_document e ns = js_bind (applyPatch e ns False True) (\<lambda>c. Inr (fst c))"

definition write_at :: "json \<Rightarrow> json \<Rightarrow> json \<Rightarrow> json js" where
  "write_at e p v = patch_document e [spec_replace p v JUndef]"

definition apply_merge :: "json \<Rightarrow> json \<Rightarrow> json \<Rightarrow> json js" where
  "apply_merge e p v = js_bind (assign_to (getInByJsonPath e p) v) (\<lambda>r. write_at e p r)"

text \<open>One property of a deep merge. \<open>concat\<close> is a method of arrays and of strings.\<close>

definition concat_with :: "json \<Rightarrow> json list \<Rightarrow> json js" where
  "concat_with c s =
     (if \<not> truthy c then Inr (JArr s)
      else (case c of
              JArr xs \<Rightarrow> Inr (JArr (xs @ s))
            | JStr x \<Rightarrow> Inr (JStr (x @ js_text (JArr s)))
            | _ \<Rightarrow> Inl TypeError))"

fun merge_object :: "obj \<Rightarrow> json \<Rightarrow> (jsstring \<times> json) list \<Rightarrow> obj" where
  "merge_object f s [] = f"
| "merge_object f s ((d, x) # ds) =
     (if d \<in> set (keys f) then deepExtend (merge_sources False [] [JObj f]) s
      else merge_object (assign_obj f [(d, x)]) s ds)"

definition merge_property :: "jsstring \<times> json \<Rightarrow> json \<Rightarrow> json js" where
  "merge_property us a =
     (let (u, s) = us
      in case s of
           JArr xs \<Rightarrow> js_bind (js_index a u) (\<lambda>c. js_bind (concat_with c xs) (strict_store a u))
         | _ \<Rightarrow>
             if isObject s then
               js_bind (js_index a u) (\<lambda>c. strict_store a u (JObj (merge_object (assign_obj [] (for_in c)) s (for_in s))))
             else strict_store a u s)"

text \<open>What is merged into the empty object that stands for a missing place is lost, and nothing is written when nothing is merged.\<close>

definition apply_mergeDeep :: "json \<Rightarrow> json \<Rightarrow> json \<Rightarrow> json js" where
  "apply_mergeDeep e p v =
     js_bind (js_fold merge_property (for_in v) (getInByJsonPath e p)) (\<lambda>a.
       if found_at e p = None \<or> a = getInByJsonPath e p then Inr e else if loosely_empty p then Inr a else write_at e p a)"

definition with_meta :: "bool \<Rightarrow> json \<Rightarrow> bool" where
  "with_meta n t \<longleftrightarrow> n \<and> truthy (own t ''meta'') \<and> isAdditiveMutation t \<and> (is_arr (own t ''value'') \<or> isObject (own t ''value''))"

definition spec_applyPatch :: "json \<Rightarrow> json \<Rightarrow> bool \<Rightarrow> json js" where
  "spec_applyPatch e t0 n =
     (let p = (if truthy (own t0 ''path'') then normalizeJSONPath (own t0 ''path'') else own t0 ''path'');
          t = JObj (assign_obj (assign_obj [] (for_in t0)) [(str ''path'', p)]); v = own t ''value''
      in if is_op t ''merge'' then apply_merge e p v
         else if is_op t ''mergeDeep'' then apply_mergeDeep e p v
         else if is_op t ''add'' \<and> p = JStr [] \<and> isObject v then
           patch_document e (map (\<lambda>(k, x). spec_add (JStr (str ''/'' @ k)) x) (for_in v))
         else if is_op t ''replace'' \<and> p = JStr [] then Inr (if with_meta n t then fresh_assign v (own t ''meta'') else v)
         else
           js_bind (patch_document e [t]) (\<lambda>d0.
             let d = (if p = JStr [] then e else d0)
             in if with_meta n t then write_at d p (fresh_assign (getInByJsonPath d p) (own t ''meta'')) else Inr d))"

end
