(* ===== verification/Spec_Map.thy ===== *)
theory Spec_Map
  imports Spec_Lib Swg_Context
begin

text \<open>
  The resolver of the API client (\<open>SpecMap\<close> of \<open>swagger-client\<close>): it runs plugins on a specification until none of them
  has anything new to look at. A plugin sees the mutations since it last ran and yields patches; a patch may carry a
  promise, and is applied when that settles.

  Plugins are arguments. A generator is a tree: what it yields next depends on the state after its last patches were
  applied. The text that a plugin has as a string, which the code counts its runs under, is an argument too.
  What a patch that fails half way has changed is not modelled, and neither is the sharing of objects between the
  specification and the recorded mutations.
\<close>

section \<open>State\<close>

record specmap =
  sm_state :: json
  mutations :: "json list"
  errors :: "js_error list"
  promisedPatches :: "(nat \<times> json) list"
  next_promise :: nat
  context_tree :: ctx
  pluginHistory :: "(jsstring \<times> nat list) list"
  pluginCount :: "(jsstring \<times> nat) list"
  currentPlugin :: "nat option"
  allowMetaPatches :: bool
  showDebug :: bool
  allPatches :: "json list"

text \<open>
  What a plugin yields: a value that is no array, an error, a patch whose value is a promise, or an array of these.
  A history entry is the number of mutations that the plugin has seen (\<open>mutationIndex + 1\<close>).
\<close>

datatype out = OValue json | OError js_error | OPromise json | OMany "out list"

datatype generator = Done | Throw js_error | Yield out "specmap \<Rightarrow> generator"

record plugin =
  pluginName :: jsstring
  pluginText :: jsstring
  pluginRun :: "json list \<Rightarrow> specmap \<Rightarrow> generator"

section \<open>Patches\<close>

fun flat_out :: "out \<Rightarrow> out list" where
  "flat_out (OMany os) = concat (map flat_out os)"
| "flat_out x = [x]"

definition out_truthy :: "out \<Rightarrow> bool" where
  "out_truthy x = (case x of OValue v \<Rightarrow> truthy v | _ \<Rightarrow> True)"

definition new_outs :: "out \<Rightarrow> out list" where
  "new_outs x = filter (\<lambda>y. y \<noteq> OValue JUndef) (flat_out x)"

definition own_value :: "bool \<Rightarrow> json \<Rightarrow> json" where
  "own_value meta e =
     (let v = own e ''value''
      in if type_of v = ''object'' \<and> \<not> is_arr v \<and> meta
         then set_own ''value'' (JObj (assign_obj [] (for_in v))) e else e)"

definition updateMutations :: "json \<Rightarrow> specmap \<Rightarrow> specmap js" where
  "updateMutations e0 n =
     (let e = own_value (allowMetaPatches n) e0
      in js_bind (spec_applyPatch (sm_state n) e (allowMetaPatches n)) (\<lambda>t.
           Inr (if truthy t then n\<lparr>mutations := mutations n @ [e], sm_state := t\<rparr> else n)))"

definition setContext :: "json \<Rightarrow> json \<Rightarrow> specmap \<Rightarrow> specmap js" where
  "setContext e t n =
     js_bind (ctx_set (context_tree n) (map js_text (path_keys e)) t) (\<lambda>c. Inr (n\<lparr>context_tree := c\<rparr>))"

definition getContext :: "specmap \<Rightarrow> json list \<Rightarrow> json js" where
  "getContext n e = ctx_get (context_tree n) (map js_text e)"

definition spec_get :: "specmap \<Rightarrow> json list \<Rightarrow> json" where
  "spec_get n e = spec_getIn (sm_state n) e"

definition push_error :: "js_error \<Rightarrow> specmap \<Rightarrow> specmap" where
  "push_error x n = n\<lparr>errors := errors n @ [x]\<rparr>"

definition note_patch :: "json \<Rightarrow> specmap \<Rightarrow> specmap" where
  "note_patch e n = (if showDebug n then n\<lparr>allPatches := allPatches n @ [e]\<rparr> else n)"

definition or_error :: "specmap js \<Rightarrow> specmap \<Rightarrow> specmap" where
  "or_error r n = (case r of Inl x \<Rightarrow> push_error x n | Inr n' \<Rightarrow> n')"

definition updatePatch :: "out \<Rightarrow> specmap \<Rightarrow> specmap" where
  "updatePatch x n =
     (case x of
        OError e \<Rightarrow> push_error e n
      | OPromise e \<Rightarrow>
          (let n' = note_patch e n
           in n'\<lparr>promisedPatches := promisedPatches n' @ [(next_promise n', e)], next_promise := Suc (next_promise n')\<rparr>)
      | OMany os \<Rightarrow> n
      | OValue e \<Rightarrow>
          (if \<not> isObject e then n
           else
             (let n' = note_patch e n
              in if isContextPatch e then or_error (setContext (own e ''path'') (own e ''value'') n') n'
                 else if isMutation e then or_error (updateMutations e n') n'
                 else n')))"

definition updatePatches :: "out list \<Rightarrow> specmap \<Rightarrow> specmap" where
  "updatePatches es n = fold updatePatch es n"

text \<open>\<open>e\<close> in \<open>dispatch\<close>: what a plugin yielded.\<close>

definition take_out :: "out \<Rightarrow> specmap \<Rightarrow> specmap" where
  "take_out x n = (if out_truthy x then updatePatches (new_outs x) n else n)"

text \<open>A promise settles: its patch leaves the list and is applied with the value, or the error is recorded.\<close>

definition promise_ids :: "specmap \<Rightarrow> nat list" where
  "promise_ids n = map fst (promisedPatches n)"

definition removePromisedPatch :: "nat \<Rightarrow> specmap \<Rightarrow> specmap" where
  "removePromisedPatch i n = n\<lparr>promisedPatches := filter (\<lambda>f. fst f \<noteq> i) (promisedPatches n)\<rparr>"

definition promisedPatchThen :: "nat \<Rightarrow> json js \<Rightarrow> specmap \<Rightarrow> specmap" where
  "promisedPatchThen i r n =
     (case map_of (promisedPatches n) i of
        None \<Rightarrow> n
      | Some e \<Rightarrow>
          updatePatches [case r of Inr v \<Rightarrow> OValue (set_own ''value'' v e) | Inl x \<Rightarrow> OError x] (removePromisedPatch i n))"

section \<open>Plugins\<close>

definition getMutations :: "specmap \<Rightarrow> nat \<Rightarrow> nat option \<Rightarrow> json list" where
  "getMutations n e t = drop e (case t of None \<Rightarrow> mutations n | Some k \<Rightarrow> take k (mutations n))"

definition getPluginHistory :: "specmap \<Rightarrow> plugin \<Rightarrow> nat list" where
  "getPluginHistory n p = (case map_of (pluginHistory n) (pluginName p) of None \<Rightarrow> [] | Some h \<Rightarrow> h)"

definition getPluginRunCount :: "specmap \<Rightarrow> plugin \<Rightarrow> nat" where
  "getPluginRunCount n p = length (getPluginHistory n p)"

definition mutations_seen :: "specmap \<Rightarrow> plugin \<Rightarrow> nat" where
  "mutations_seen n p = (if getPluginHistory n p = [] then 0 else last (getPluginHistory n p))"

definition getMutationsForPlugin :: "specmap \<Rightarrow> plugin \<Rightarrow> json list" where
  "getMutationsForPlugin n p = getMutations n (mutations_seen n p) None"

definition updatePluginHistory :: "plugin \<Rightarrow> nat \<Rightarrow> specmap \<Rightarrow> specmap" where
  "updatePluginHistory p t n = n\<lparr>pluginHistory := obj_put (pluginName p) (getPluginHistory n p @ [t]) (pluginHistory n)\<rparr>"

definition hasRun :: "specmap \<Rightarrow> plugin \<Rightarrow> nat \<Rightarrow> bool" where
  "hasRun n p e \<longleftrightarrow> getPluginRunCount n p > e"

definition nextPlugin :: "plugin list \<Rightarrow> specmap \<Rightarrow> nat option" where
  "nextPlugin ps n =
     (case filter (\<lambda>i. getMutationsForPlugin n (ps ! i) \<noteq> []) [0..<length ps] of [] \<Rightarrow> None | i # _ \<Rightarrow> Some i)"

primrec run_generator :: "generator \<Rightarrow> specmap \<Rightarrow> specmap" where
  "run_generator Done n = n"
| "run_generator (Throw x) n = push_error x n"
| "run_generator (Yield v k) n = run_generator (k (take_out v n)) (take_out v n)"

definition run_plugin :: "plugin list \<Rightarrow> nat \<Rightarrow> specmap \<Rightarrow> specmap" where
  "run_plugin ps r n0 =
     (let n = n0\<lparr>currentPlugin := Some r\<rparr>; t = getMutationsForPlugin n (ps ! r)
      in updatePluginHistory (ps ! r) (length (mutations n)) (run_generator (pluginRun (ps ! r) t n) n))"

section \<open>Dispatch\<close>

definition runs :: "specmap \<Rightarrow> jsstring \<Rightarrow> nat" where
  "runs n k = (case map_of (pluginCount n) k of None \<Rightarrow> 0 | Some c \<Rightarrow> c)"

definition count_run :: "jsstring \<Rightarrow> specmap \<Rightarrow> specmap" where
  "count_run k n = n\<lparr>pluginCount := obj_put k (runs n k + 1) (pluginCount n)\<rparr>"

text \<open>
  Where the resolver stands: about to call \<open>dispatch\<close>, waiting for one of some promises or for all of them, or done, with
  the specification and the errors.
\<close>

datatype phase = Dispatching | WaitAny "nat list" | WaitAll "nat list" | Finished json "js_error list"

definition limit_error :: js_error where
  "limit_error = OtherError ''We've reached a hard limit of 100 plugin runs''"

definition dispatch :: "plugin list \<Rightarrow> specmap \<Rightarrow> specmap \<times> phase" where
  "dispatch ps n =
     (case nextPlugin ps n of
        None \<Rightarrow>
          if promisedPatches n \<noteq> [] then (n, WaitAny (promise_ids n)) else (n, Finished (sm_state n) (errors n))
      | Some r \<Rightarrow>
          (let k = pluginText (ps ! r); n' = count_run k n
           in if runs n' k > 100 then (n', Finished (sm_state n') (errors n' @ [limit_error]))
              else if currentPlugin n' \<noteq> Some r \<and> promisedPatches n' \<noteq> [] then (n', WaitAll (promise_ids n'))
              else (run_plugin ps r n', Dispatching)))"

inductive sm_step :: "plugin list \<Rightarrow> specmap \<times> phase \<Rightarrow> specmap \<times> phase \<Rightarrow> bool" for ps where
  Dispatch: "sm_step ps (n, Dispatching) (dispatch ps n)"
| SettleAny: "i \<in> set (promise_ids n) \<Longrightarrow> sm_step ps (n, WaitAny is) (promisedPatchThen i r n, WaitAny is)"
| SettleAll: "i \<in> set (promise_ids n) \<Longrightarrow> sm_step ps (n, WaitAll is) (promisedPatchThen i r n, WaitAll is)"
| ResumeAny: "\<not> set is \<subseteq> set (promise_ids n) \<Longrightarrow> sm_step ps (n, WaitAny is) (n, Dispatching)"
| ResumeAll: "set is \<inter> set (promise_ids n) = {} \<Longrightarrow> sm_step ps (n, WaitAll is) (n, Dispatching)"

definition start :: "json \<Rightarrow> json \<Rightarrow> bool \<Rightarrow> bool \<Rightarrow> specmap" where
  "start spec context meta debug =
     updatePatches [OValue (spec_add (JArr []) spec), OValue (spec_context (JArr []) context)]
       \<lparr>sm_state = JObj [], mutations = [], errors = [], promisedPatches = [], next_promise = 0, context_tree = contextTree JUndef,
        pluginHistory = [], pluginCount = [], currentPlugin = None, allowMetaPatches = meta, showDebug = debug, allPatches = []\<rparr>"

end
