(* ===== verification/Spec_Map_Props.thy ===== *)
theory Spec_Map_Props
  imports Spec_Map
begin

text \<open>The resolver comes to an end, whatever its plugins yield, when the promises that it waits for settle.\<close>

section \<open>What the steps keep\<close>

lemma count_kept [simp]:
  "pluginCount (push_error x n) = pluginCount n" "pluginCount (note_patch e n) = pluginCount n"
  "promisedPatches (push_error x n) = promisedPatches n" "promisedPatches (note_patch e n) = promisedPatches n"
  by (simp_all add: push_error_def note_patch_def)

lemma context_kept: "setContext e t n = Inr n' \<Longrightarrow> pluginCount n' = pluginCount n \<and> promisedPatches n' = promisedPatches n"
  by (auto simp: setContext_def js_bind_eq_Inr)

lemma mutation_kept: "updateMutations e n = Inr n' \<Longrightarrow> pluginCount n' = pluginCount n \<and> promisedPatches n' = promisedPatches n"
  by (auto simp: updateMutations_def js_bind_eq_Inr Let_def split: if_splits)

lemma updatePatch_count [simp]: "pluginCount (updatePatch x n) = pluginCount n"
  by (auto simp: updatePatch_def or_error_def Let_def split: out.splits sum.splits dest: context_kept mutation_kept)

lemma updatePatch_promises: "(\<forall>e. x \<noteq> OPromise e) \<Longrightarrow> promisedPatches (updatePatch x n) = promisedPatches n"
  by (auto simp: updatePatch_def or_error_def Let_def split: out.splits sum.splits dest: context_kept mutation_kept)

lemma updatePatches_count [simp]: "pluginCount (updatePatches es n) = pluginCount n"
  unfolding updatePatches_def by (induction es arbitrary: n) simp_all

lemma take_out_count [simp]: "pluginCount (take_out v n) = pluginCount n"
  by (simp add: take_out_def)

lemma run_generator_count: "pluginCount (run_generator g n) = pluginCount n"
  by (induction g arbitrary: n) (simp_all add: rangeI)

lemma run_plugin_count: "pluginCount (run_plugin ps r n) = pluginCount n"
  by (simp add: run_plugin_def Let_def updatePluginHistory_def run_generator_count)

lemma settle_count [simp]: "pluginCount (promisedPatchThen i r n) = pluginCount n"
  by (simp add: promisedPatchThen_def removePromisedPatch_def split: option.splits)

lemma settle_promises:
  assumes "i \<in> set (promise_ids n)"
  shows "promisedPatches (promisedPatchThen i r n) = filter (\<lambda>f. fst f \<noteq> i) (promisedPatches n)"
proof -
  obtain e where e: "map_of (promisedPatches n) i = Some e"
    using assms by (metis map_of_eq_None_iff not_None_eq promise_ids_def set_map)
  have "promisedPatches (updatePatch (case r of Inr v \<Rightarrow> OValue (set_own ''value'' v e) | Inl x \<Rightarrow> OError x) m) = promisedPatches m" for m
    by (rule updatePatch_promises) (simp split: sum.splits)
  then show ?thesis by (simp add: promisedPatchThen_def e updatePatches_def removePromisedPatch_def)
qed

lemma settle_fewer:
  assumes "i \<in> set (promise_ids n)"
  shows "length (promisedPatches (promisedPatchThen i r n)) < length (promisedPatches n)"
    "i \<notin> set (promise_ids (promisedPatchThen i r n))"
proof -
  obtain e where "(i, e) \<in> set (promisedPatches n)" using assms by (auto simp: promise_ids_def)
  then show "length (promisedPatches (promisedPatchThen i r n)) < length (promisedPatches n)"
    unfolding settle_promises [OF assms] by (intro length_filter_less [of "(i, e)"]) simp_all
  show "i \<notin> set (promise_ids (promisedPatchThen i r n))"
    using settle_promises [OF assms, of r] by (auto simp: promise_ids_def)
qed

section \<open>A measure\<close>

definition runs_left :: "plugin list \<Rightarrow> specmap \<Rightarrow> nat" where
  "runs_left ps n = (\<Sum>k\<in>set (map pluginText ps). 101 - runs n k)"

definition waits_left :: "specmap \<times> phase \<Rightarrow> nat" where
  "waits_left c =
     (let p = 3 * length (promisedPatches (fst c))
      in case snd c of
           Finished s es \<Rightarrow> 0
         | Dispatching \<Rightarrow> p + 2
         | WaitAny is \<Rightarrow> if set is \<subseteq> set (promise_ids (fst c)) then p + 1 else p + 3
         | WaitAll is \<Rightarrow> p + 3)"

definition sm_measure :: "plugin list \<Rightarrow> ((specmap \<times> phase) \<times> (specmap \<times> phase)) set" where
  "sm_measure ps = inv_image (less_than <*lex*> less_than) (\<lambda>c. (runs_left ps (fst c), waits_left c))"

lemma runs_left_kept: "pluginCount n' = pluginCount n \<Longrightarrow> runs_left ps n' = runs_left ps n"
  by (simp add: runs_left_def runs_def)

lemma runs_left_run: "runs_left ps (run_plugin ps r n) = runs_left ps n"
  by (rule runs_left_kept) (rule run_plugin_count)

lemma runs_count: "runs (count_run k n) j = (if j = k then runs n k + 1 else runs n j)"
  by (simp add: runs_def count_run_def)

lemma runs_left_fewer:
  assumes "k \<in> set (map pluginText ps)"
  shows "runs_left ps (count_run k n) \<le> runs_left ps n" "runs n k \<le> 100 \<Longrightarrow> runs_left ps (count_run k n) < runs_left ps n"
proof -
  have le: "101 - runs (count_run k n) j \<le> 101 - runs n j" for j by (auto simp: runs_count intro: diff_le_mono)
  then show "runs_left ps (count_run k n) \<le> runs_left ps n" by (simp only: runs_left_def sum_mono)
  assume "runs n k \<le> 100"
  then have "101 - runs (count_run k n) k < 101 - runs n k" by (simp add: runs_count)
  then show "runs_left ps (count_run k n) < runs_left ps n"
    unfolding runs_left_def using assms le by (intro sum_strict_mono_ex1) auto
qed

lemma nextPlugin_range: "nextPlugin ps n = Some r \<Longrightarrow> r < length ps"
proof -
  assume a: "nextPlugin ps n = Some r"
  then obtain js where "filter (\<lambda>i. getMutationsForPlugin n (ps ! i) \<noteq> []) [0..<length ps] = r # js"
    by (auto simp: nextPlugin_def split: list.splits)
  then have "r \<in> set (filter (\<lambda>i. getMutationsForPlugin n (ps ! i) \<noteq> []) [0..<length ps])" by simp
  then show ?thesis by simp
qed

lemma dispatch_decreases: "(dispatch ps n, (n, Dispatching)) \<in> sm_measure ps"
proof (cases "nextPlugin ps n")
  case None
  then show ?thesis by (auto simp: dispatch_def sm_measure_def waits_left_def Let_def)
next
  case (Some r)
  let ?k = "pluginText (ps ! r)"
  have k: "?k \<in> set (map pluginText ps)" using nextPlugin_range [OF Some] by simp
  show ?thesis
  proof (cases "runs n ?k \<le> 100")
    case True
    have "runs_left ps (fst (dispatch ps n)) = runs_left ps (count_run ?k n)"
      using Some by (auto simp: dispatch_def Let_def runs_left_run)
    then show ?thesis using runs_left_fewer(2) [OF k True] by (simp add: sm_measure_def)
  next
    case False
    then have "dispatch ps n = (count_run ?k n, Finished (sm_state (count_run ?k n)) (errors (count_run ?k n) @ [limit_error]))"
      using Some by (simp add: dispatch_def Let_def runs_count)
    then show ?thesis using runs_left_fewer(1) [OF k, of n] by (auto simp: sm_measure_def waits_left_def Let_def)
  qed
qed

lemma step_decreases: "sm_step ps c c' \<Longrightarrow> (c', c) \<in> sm_measure ps"
proof (induction rule: sm_step.induct)
  case (Dispatch n)
  show ?case by (rule dispatch_decreases)
next
  case (SettleAny i n "is" r)
  have "runs_left ps (promisedPatchThen i r n) = runs_left ps n" by (rule runs_left_kept) simp
  moreover have "waits_left (promisedPatchThen i r n, WaitAny is) < waits_left (n, WaitAny is)"
  proof (cases "i \<in> set is")
    case True
    then have "\<not> set is \<subseteq> set (promise_ids (promisedPatchThen i r n))" using settle_fewer(2) [OF SettleAny] by auto
    then show ?thesis using settle_fewer(1) [OF SettleAny, of r] by (simp add: waits_left_def Let_def)
  next
    case False
    have "set (promise_ids (promisedPatchThen i r n)) = set (promise_ids n) - {i}"
      using settle_promises [OF SettleAny, of r] by (auto simp: promise_ids_def)
    then have "set is \<subseteq> set (promise_ids (promisedPatchThen i r n)) \<longleftrightarrow> set is \<subseteq> set (promise_ids n)" using False by auto
    then show ?thesis using settle_fewer(1) [OF SettleAny, of r] by (simp add: waits_left_def Let_def)
  qed
  ultimately show ?case by (simp add: sm_measure_def)
next
  case (SettleAll i n "is" r)
  have "runs_left ps (promisedPatchThen i r n) = runs_left ps n" by (rule runs_left_kept) simp
  then show ?case using settle_fewer(1) [OF SettleAll, of r] by (simp add: sm_measure_def waits_left_def Let_def)
qed (auto simp: sm_measure_def waits_left_def Let_def)

lemma sm_measure_wf: "wf (sm_measure ps)"
  by (simp add: sm_measure_def wf_inv_image wf_lex_prod)

section \<open>The end\<close>

text \<open>Every way of going on from here reaches the end.\<close>

inductive inevitable :: "plugin list \<Rightarrow> specmap \<times> phase \<Rightarrow> bool" for ps where
  ended: "inevitable ps (n, Finished s es)"
| later: "\<exists>c'. sm_step ps c c' \<Longrightarrow> (\<And>c'. sm_step ps c c' \<Longrightarrow> inevitable ps c') \<Longrightarrow> inevitable ps c"

definition waits_for_some :: "phase \<Rightarrow> bool" where
  "waits_for_some ph = (case ph of WaitAny is \<Rightarrow> is \<noteq> [] | _ \<Rightarrow> True)"

lemma step_waits: "sm_step ps c c' \<Longrightarrow> waits_for_some (snd c) \<Longrightarrow> waits_for_some (snd c')"
proof (induction rule: sm_step.induct)
  case (Dispatch n)
  show ?case
    by (auto simp: dispatch_def waits_for_some_def promise_ids_def Let_def split: option.splits)
qed (simp_all add: waits_for_some_def)

lemma progress:
  assumes "waits_for_some ph" "\<nexists>s es. ph = Finished s es"
  shows "\<exists>c'. sm_step ps (n, ph) c'"
proof (cases ph)
  case Dispatching
  then show ?thesis using sm_step.Dispatch by blast
next
  case (WaitAny "is")
  then obtain i where i: "i \<in> set is" using assms(1) by (cases "is") (auto simp: waits_for_some_def)
  show ?thesis
  proof (cases "set is \<subseteq> set (promise_ids n)")
    case True
    then have "i \<in> set (promise_ids n)" using i by blast
    then show ?thesis unfolding WaitAny using sm_step.SettleAny by blast
  next
    case False
    then show ?thesis unfolding WaitAny using sm_step.ResumeAny by blast
  qed
next
  case (WaitAll "is")
  show ?thesis
  proof (cases "set is \<inter> set (promise_ids n) = {}")
    case True
    then show ?thesis unfolding WaitAll using sm_step.ResumeAll by blast
  next
    case False
    then obtain i where "i \<in> set (promise_ids n)" by blast
    then show ?thesis unfolding WaitAll using sm_step.SettleAll by blast
  qed
qed (use assms(2) in blast)

lemma reaches_end: "waits_for_some (snd c) \<Longrightarrow> inevitable ps c"
proof (induction c rule: wf_induct_rule [OF sm_measure_wf [of ps]])
  case (1 c)
  obtain n ph where c: "c = (n, ph)" by fastforce
  show ?case
  proof (cases "\<exists>s es. ph = Finished s es")
    case True
    then show ?thesis using inevitable.ended by (auto simp: c)
  next
    case False
    then have "\<exists>c'. sm_step ps c c'" using progress [of ph ps n] "1.prems" by (simp add: c)
    moreover have "inevitable ps c'" if "sm_step ps c c'" for c'
      by (rule "1.IH" [OF step_decreases [OF that] step_waits [OF that "1.prems"]])
    ultimately show ?thesis by (rule inevitable.later)
  qed
qed


end
