(* ===== verification/Querystring.thy ===== *)
theory Querystring
  imports Qs_Props Swg_Ops
begin

text \<open>
  Two implementations of node's \<open>querystring\<close>: \<open>querystring-browser\<close>, which the resolver escapes its pointers with, and
  \<open>querystring-es3\<close>, which parses the queries of URLs. Functions that a caller may pass for escaping are not modelled.
\<close>

section \<open>Escaping\<close>

text \<open>\<open>escape\<close>. The source copies runs of plain characters in one piece.\<close>

fun qsb_escape :: "jsstring \<Rightarrow> jsstring js" where
  "qsb_escape [] = Inr []"
| "qsb_escape (c # cs) =
     (if uri_plain c then js_bind (qsb_escape cs) (\<lambda>r. Inr (c # r))
      else if uint c < 55296 \<or> uint c \<ge> 57344 then js_bind (qsb_escape cs) (\<lambda>r. Inr (qs_unit (uint c) @ r))
      else (case cs of
              [] \<Rightarrow> Inl (OtherError ''URIError'')
            | d # ds \<Rightarrow> js_bind (qsb_escape ds) (\<lambda>r. Inr (qs_pair (uint c) (uint d) @ r))))"

text \<open>
  \<open>unescapeBuffer\<close>: the bytes of a string with escapes, where a percent sign that does not start one stands for itself.
  The states are those of the source: outside an escape, after a percent sign, and after its first digit. The byte that the
  end of the string gives is cut off.
\<close>

datatype unescape_state = Outside | AfterPercent | AfterDigit code_unit int

definition low_byte :: "code_unit \<Rightarrow> u8" where
  "low_byte c = word_of_int (uint c)"

fun unescape_bytes :: "bool \<Rightarrow> unescape_state \<Rightarrow> jsstring \<Rightarrow> u8 list" where
  "unescape_bytes t Outside [] = []"
| "unescape_bytes t AfterPercent [] = [37]"
| "unescape_bytes t (AfterDigit i n) [] = [37, low_byte i]"
| "unescape_bytes t Outside (c # cs) =
     (if c = 37 then unescape_bytes t AfterPercent cs
      else low_byte (if c = 43 \<and> t then 32 else c) # unescape_bytes t Outside cs)"
| "unescape_bytes t AfterPercent (c # cs) =
     (case hex_value c of
        Some n \<Rightarrow> unescape_bytes t (AfterDigit c n) cs
      | None \<Rightarrow> 37 # low_byte c # unescape_bytes t Outside cs)"
| "unescape_bytes t (AfterDigit i n) (c # cs) =
     (case hex_value c of
        Some r \<Rightarrow> word_of_int (16 * n + r) # unescape_bytes t Outside cs
      | None \<Rightarrow> 37 # low_byte i # low_byte c # unescape_bytes t Outside cs)"

definition unescapeBuffer :: "jsstring \<Rightarrow> bool \<Rightarrow> u8 list" where
  "unescapeBuffer e t = unescape_bytes t Outside e"

definition qsb_unescape :: "jsstring \<Rightarrow> bool \<Rightarrow> jsstring" where
  "qsb_unescape e t =
     (case decodeURIComponent e of
        Inr s \<Rightarrow> s
      | Inl x \<Rightarrow> (let b = unescapeBuffer e t in utf8Slice b 0 (length b)))"

section \<open>\<open>querystring-browser\<close>\<close>

text \<open>\<open>s\<close> (\<open>stringifyPrimitive\<close>).\<close>

definition stringifyPrimitive :: "json \<Rightarrow> jsstring" where
  "stringifyPrimitive e =
     (case e of
        JStr s \<Rightarrow> s
      | JNum t \<Rightarrow> if t \<in> {str ''NaN'', str ''Infinity'', str ''-Infinity''} then [] else t
      | JBool b \<Rightarrow> if b then str ''true'' else str ''false''
      | _ \<Rightarrow> [])"

definition given_or :: "jsstring \<Rightarrow> jsstring \<Rightarrow> jsstring" where
  "given_or t d = (if t \<noteq> [] then t else d)"

text \<open>A separator follows every value but the last of the last key; a key with an empty array adds nothing.\<close>

fun qsb_values :: "jsstring \<Rightarrow> jsstring \<Rightarrow> json list \<Rightarrow> jsstring js" where
  "qsb_values t h [] = Inr []"
| "qsb_values t h (d # ds) =
     js_bind (qsb_escape (stringifyPrimitive d)) (\<lambda>v. js_bind (qsb_values t h ds) (\<lambda>r.
       Inr (h @ v @ (if ds \<noteq> [] then t @ r else []))))"

fun qsb_fields :: "jsstring \<Rightarrow> jsstring \<Rightarrow> (jsstring \<times> json) list \<Rightarrow> jsstring js" where
  "qsb_fields t n [] = Inr []"
| "qsb_fields t n ((p, d) # fs) =
     js_bind (qsb_escape p) (\<lambda>k.
     js_bind (qsb_values t (k @ n) (case d of JArr xs \<Rightarrow> xs | _ \<Rightarrow> [d])) (\<lambda>c.
     js_bind (qsb_fields t n fs) (\<lambda>r. Inr (c @ (if d \<noteq> JArr [] \<and> fs \<noteq> [] then t else []) @ r))))"

definition qsb_stringify :: "json \<Rightarrow> jsstring \<Rightarrow> jsstring \<Rightarrow> jsstring js" where
  "qsb_stringify e t n =
     (if e \<noteq> JNull \<and> type_of e = ''object'' then qsb_fields (given_or t (str ''&'')) (given_or n (str ''='')) (for_in e) else Inr [])"

text \<open>
  \<open>parse\<close>: the state of the loop over the characters, with the names of the source. \<open>y_enc\<close> and \<open>w_enc\<close> tell whether the
  key and the value have escapes, \<open>E_chk\<close> how much of an escape has been read.
\<close>

record qsb_state =
  a_res :: obj
  h_keys :: "jsstring list"
  v_pos :: nat
  m_sep :: nat
  g_eq :: nat
  y_key :: jsstring
  b_val :: jsstring
  y_enc :: bool
  w_enc :: bool
  E_chk :: nat
  f_left :: nat
  stopped :: bool

definition slice :: "jsstring \<Rightarrow> nat \<Rightarrow> nat \<Rightarrow> jsstring" where
  "slice e i j = drop i (take j e)"

definition hex_unit :: "code_unit \<Rightarrow> bool" where
  "hex_unit S \<longleftrightarrow> hex_value S \<noteq> None"

text \<open>The test for an escape: the number of its characters read so far, and whether one is complete.\<close>

definition check_escape :: "code_unit \<Rightarrow> nat \<Rightarrow> bool \<Rightarrow> nat \<times> bool" where
  "check_escape S E enc =
     (if enc then (E, enc)
      else if S = 37 then (1, enc)
      else if E > 0 \<and> hex_unit S then (E + 1, E + 1 = 3)
      else (0, enc))"

text \<open>Storing a pair: a key that comes again collects its values in an array.\<close>

definition store_pair :: "qsb_state \<Rightarrow> qsb_state" where
  "store_pair st =
     (let y = (if y_enc st then qsb_unescape (y_key st) False else y_key st);
          b = (if w_enc st then qsb_unescape (b_val st) False else b_val st)
      in if y \<notin> set (h_keys st) then st\<lparr>a_res := obj_put y (JStr b) (a_res st), h_keys := h_keys st @ [y]\<rparr>
         else
           st\<lparr>a_res := obj_put y (case obj_at (a_res st) y of JArr C \<Rightarrow> JArr (C @ [JStr b]) | C \<Rightarrow> JArr [C, JStr b]) (a_res st)\<rparr>)"

definition add_piece :: "jsstring \<Rightarrow> nat \<Rightarrow> nat \<Rightarrow> jsstring \<Rightarrow> qsb_state \<Rightarrow> qsb_state" where
  "add_piece e k u tail st =
     (if g_eq st < u then st\<lparr>y_key := y_key st @ (if v_pos st < k then slice e (v_pos st) k else []) @ tail\<rparr>
      else st\<lparr>b_val := b_val st @ (if v_pos st < k then slice e (v_pos st) k else []) @ tail\<rparr>)"

definition end_pair :: "jsstring \<Rightarrow> nat \<Rightarrow> nat \<Rightarrow> nat \<Rightarrow> qsb_state \<Rightarrow> qsb_state" where
  "end_pair e u m x st0 =
     (let st = store_pair (add_piece e (x + 1 - m) u [] st0); f = f_left st - 1
      in if f = 0 then st\<lparr>f_left := f, stopped := True\<rparr>
         else st\<lparr>f_left := f, y_enc := False, w_enc := False, E_chk := 0, y_key := [], b_val := [], v_pos := x + 1, m_sep := 0, g_eq := 0\<rparr>)"

definition plus_sign :: "jsstring \<Rightarrow> nat \<Rightarrow> nat \<Rightarrow> qsb_state \<Rightarrow> qsb_state" where
  "plus_sign e u x st =
     (let st' = add_piece e x u (str ''%20'') st
      in (if g_eq st < u then st'\<lparr>y_enc := True\<rparr> else st'\<lparr>w_enc := True\<rparr>)\<lparr>v_pos := x + 1\<rparr>)"

definition qsb_step :: "jsstring \<Rightarrow> jsstring \<Rightarrow> jsstring \<Rightarrow> nat \<Rightarrow> qsb_state \<Rightarrow> qsb_state" where
  "qsb_step e t n x st =
     (let S = e ! x; u = length n; s = length t
      in if stopped st then st
         else if S = t ! m_sep st then
           (if m_sep st + 1 = s then end_pair e u s x st else st\<lparr>m_sep := m_sep st + 1\<rparr>)
         else
           (let (E1, w1) = check_escape S (E_chk st) (w_enc st); st1 = st\<lparr>m_sep := 0, E_chk := E1, w_enc := w1\<rparr>
            in if g_eq st1 < u then
                 (if S = n ! g_eq st1 then
                    (if g_eq st1 + 1 = u
                     then (add_piece e (x + 1 - u) u [] st1)\<lparr>g_eq := u, E_chk := 0, v_pos := x + 1\<rparr>
                     else st1\<lparr>g_eq := g_eq st1 + 1\<rparr>)
                  else
                    (let (E2, y2) = check_escape S (E_chk st1) (y_enc st1); st2 = st1\<lparr>g_eq := 0, E_chk := E2, y_enc := y2\<rparr>
                     in if S = 43 then plus_sign e u x st2 else st2))
               else if S = 43 then plus_sign e u x st1 else st1))"

definition qsb_finish :: "jsstring \<Rightarrow> jsstring \<Rightarrow> jsstring \<Rightarrow> qsb_state \<Rightarrow> qsb_state" where
  "qsb_finish e t n st =
     (if f_left st > 0 \<and> (v_pos st < length e \<or> g_eq st > 0) then
        store_pair
          (if v_pos st < length e then
             (if g_eq st < length n then st\<lparr>y_key := y_key st @ drop (v_pos st) e\<rparr>
              else if m_sep st < length t then st\<lparr>b_val := b_val st @ drop (v_pos st) e\<rparr> else st)
           else st)
      else st)"

text \<open>At most 1000 pairs are read.\<close>

definition qsb_parse :: "jsstring \<Rightarrow> jsstring \<Rightarrow> jsstring \<Rightarrow> obj" where
  "qsb_parse e t0 n0 =
     (let t = given_or t0 (str ''&''); n = given_or n0 (str ''='');
          st = \<lparr>a_res = [], h_keys = [], v_pos = 0, m_sep = 0, g_eq = 0, y_key = [], b_val = [], y_enc = False, w_enc = False,
                E_chk = 0, f_left = 1000, stopped = False\<rparr>
      in a_res (qsb_finish e t n (fold (qsb_step e t n) [0..<length e] st)))"

section \<open>\<open>querystring-es3\<close>\<close>

fun split_text :: "nat \<Rightarrow> jsstring \<Rightarrow> jsstring \<Rightarrow> jsstring \<Rightarrow> jsstring list" where
  "split_text 0 t p e = [rev p @ e]"
| "split_text (Suc k) t p [] = [rev p]"
| "split_text (Suc k) t p (c # cs) =
     (if take (length t) (c # cs) = t then rev p # split_text k t [] (drop (length t) (c # cs)) else split_text k t (c # p) cs)"

fun find_text :: "jsstring \<Rightarrow> jsstring \<Rightarrow> nat option" where
  "find_text n [] = (if n = [] then Some 0 else None)"
| "find_text n (c # cs) = (if take (length n) (c # cs) = n then Some 0 else map_option Suc (find_text n cs))"

definition es3_pair :: "jsstring \<Rightarrow> jsstring \<Rightarrow> obj \<Rightarrow> obj js" where
  "es3_pair n c a =
     (let v = concat (map (\<lambda>x. if x = 43 then str ''%20'' else [x]) c);
          (f, p) = (case find_text n v of None \<Rightarrow> (v, []) | Some m \<Rightarrow> (take m v, drop (m + 1) v))
      in js_bind (decodeURIComponent f) (\<lambda>d. js_bind (decodeURIComponent p) (\<lambda>h.
           Inr (obj_put d
             (case map_of a d of None \<Rightarrow> JStr h | Some (JArr xs) \<Rightarrow> JArr (xs @ [JStr h]) | Some x \<Rightarrow> JArr [x, JStr h]) a))))"

definition es3_parse :: "json \<Rightarrow> jsstring \<Rightarrow> jsstring \<Rightarrow> obj js" where
  "es3_parse e t0 n0 =
     (let t = given_or t0 (str ''&''); n = given_or n0 (str ''='')
      in case e of
           JStr s \<Rightarrow> if s = [] then Inr [] else js_fold (es3_pair n) (take 1000 (split_text (length s) t [] s)) []
         | _ \<Rightarrow> Inr [])"

definition es3_value :: "json \<Rightarrow> jsstring js" where
  "es3_value e = encodeURIComponent (stringifyPrimitive e)"

fun es3_all :: "'a js list \<Rightarrow> 'a list js" where
  "es3_all [] = Inr []"
| "es3_all (x # xs) = js_bind x (\<lambda>y. js_bind (es3_all xs) (\<lambda>ys. Inr (y # ys)))"

definition es3_field :: "jsstring \<Rightarrow> jsstring \<Rightarrow> jsstring \<times> json \<Rightarrow> jsstring js" where
  "es3_field t n f =
     js_bind (encodeURIComponent (fst f)) (\<lambda>k.
       (case snd f of
          JArr xs \<Rightarrow> js_bind (es3_all (map es3_value xs)) (\<lambda>vs. Inr (join t (map (\<lambda>v. k @ n @ v) vs)))
        | v \<Rightarrow> js_bind (es3_value v) (\<lambda>v. Inr (k @ n @ v))))"

definition es3_stringify :: "json \<Rightarrow> jsstring \<Rightarrow> jsstring \<Rightarrow> json \<Rightarrow> jsstring js" where
  "es3_stringify e t0 n0 u =
     (let t = given_or t0 (str ''&''); n = given_or n0 (str ''='')
      in if e \<noteq> JNull \<and> type_of e = ''object'' then js_bind (es3_all (map (es3_field t n) (for_in e))) (\<lambda>fs. Inr (join t fs))
         else if truthy u then
           js_bind (es3_value u) (\<lambda>k. js_bind (es3_value (if e = JNull then JUndef else e)) (\<lambda>v. Inr (k @ n @ v)))
         else Inr [])"

section \<open>Escaping is that of the language\<close>

lemma qsb_escape_eq: "wf16 s \<Longrightarrow> qsb_escape s = encodeURIComponent s"
proof (induction s rule: wf16.induct)
  case (2 c cs)
  note c = uint16 [of c]
  show ?case
  proof (cases "uint c < 55296 \<or> 57343 < uint c")
    case True
    then have "qsb_escape cs = encodeURIComponent cs" using "2.IH"(1) [OF refl] "2.prems" by simp
    then show ?thesis
      using True qs_unit_point [of "uint c"] c by (auto simp: encodeURIComponent.simps(2) Let_def)
  next
    case False
    then obtain d ds where d: "cs = d # ds" "56320 \<le> uint d" "uint d \<le> 57343" "wf16 ds" "uint c \<le> 56319"
      using "2.prems" by (cases cs) (auto simp: Let_def split: if_splits)
    have "qsb_escape ds = encodeURIComponent ds" using "2.IH"(2) [OF refl _ _ d(1) d(4)] False d(5) by simp
    moreover have "\<not> uri_plain c" using False uri_plain_range [of c] by auto
    ultimately show ?thesis
      using False d qs_pair_point [of "uint c" "uint d"] by (auto simp: encodeURIComponent.simps(2) Let_def)
  qed
qed simp

lemma qsb_unescape_escape: "wf16 s \<Longrightarrow> \<exists>t. qsb_escape s = Inr t \<and> qsb_unescape t p = s"
proof -
  assume s: "wf16 s"
  then obtain t where "encodeURIComponent s = Inr t" using encode_total by blast
  then show ?thesis using s decodeURIComponent_encode [of s t] by (simp add: qsb_escape_eq qsb_unescape_def)
qed

end
