(* ===== verification/Spec_Refs.thy ===== *)
theory Spec_Refs
  imports Spec_Map Querystring Url_Resolve
begin

text \<open>
  The plugins of the resolver (\<open>specmap/lib/refs\<close>, \<open>all-of\<close>, \<open>parameters\<close>, \<open>properties\<close> and \<open>helpers\<close> of
  \<open>swagger-client\<close>): what each does with one place of a specification.

  The test whether a resolved value contains an object on the way to its own place compares objects by identity; it is an
  argument of the plugin for references. Fetching documents is not modelled: a document that is not in the cache is
  waited for.
\<close>

section \<open>Names that are free\<close>

definition path_string :: "json list \<Rightarrow> jsstring" where
  "path_string e = join (str ''/'') (map (\<lambda>x. if x = JUndef \<or> x = JNull then [] else js_text x) e)"

definition isFreelyNamed :: "json list \<Rightarrow> bool" where
  "isFreelyNamed e \<longleftrightarrow>
     (let t = last_key e; n = path_string e
      in t = JStr (str ''properties'') \<or>
         n \<in> str ` {''definitions'', ''parameters'', ''responses'', ''securityDefinitions'', ''components/schemas'',
                    ''components/responses'', ''components/parameters'', ''components/securitySchemes''} \<or>
         find_text (str ''schema/example'') n \<noteq> None)"

section \<open>JSON pointers\<close>

text \<open>\<open>A\<close>: letters and \<open>://\<close>, or \<open>//\<close>, at the start.\<close>

definition letter :: "code_unit \<Rightarrow> bool" where
  "letter c \<longleftrightarrow> (65 \<le> uint c \<and> uint c \<le> 90) \<or> (97 \<le> uint c \<and> uint c \<le> 122)"

definition is_absolute :: "jsstring \<Rightarrow> bool" where
  "is_absolute e \<longleftrightarrow>
     take 2 e = str ''//'' \<or> takeWhile letter e \<noteq> [] \<and> take 3 (dropWhile letter e) = str ''://''"

definition absoluteify :: "jsstring \<Rightarrow> json \<Rightarrow> jsstring js" where
  "absoluteify e t =
     (if is_absolute e then Inr e
      else if \<not> truthy t then Inl (OtherError ''JSONRefError'')
      else (case t of JStr b \<Rightarrow> url_resolve b e | _ \<Rightarrow> Inl TypeError))"

definition split_ref :: "jsstring \<Rightarrow> jsstring list" where
  "split_ref e = split_on 35 e"

definition unescapeJsonPointerToken :: "jsstring \<Rightarrow> jsstring" where
  "unescapeJsonPointerToken e = qsb_unescape (unescapePathComponent e) False"

definition escapeJsonPointerToken :: "jsstring \<Rightarrow> jsstring js" where
  "escapeJsonPointerToken e = qsb_escape (replace_chars 47 (str ''~1'') (replace_chars 126 (str ''~0'') e))"

definition jsonPointerToArray :: "jsstring \<Rightarrow> jsstring list" where
  "jsonPointerToArray e0 =
     (let e = (if e0 \<noteq> [] \<and> hd e0 = 47 then tl e0 else e0)
      in if e = [] then [] else map unescapeJsonPointerToken (split_on 47 e))"

definition pointer_text :: "jsstring list \<Rightarrow> jsstring js" where
  "pointer_text n = (if n = [] then Inr [] else js_bind (es3_all (map escapeJsonPointerToken n)) (\<lambda>ts. Inr (str ''/'' @ join (str ''/'') ts)))"

definition extract_at :: "jsstring \<Rightarrow> json \<Rightarrow> json js" where
  "extract_at e t =
     (let n = jsonPointerToArray e
      in if n = [] then Inr t
         else (let r = spec_getIn t (map JStr n) in if r = JUndef then Inl (OtherError ''JSONRefError'') else Inr r))"

text \<open>\<open>j\<close> and \<open>d\<close> (\<open>pointerIsAParent\<close>): whether \<open>t\<close> is the place \<open>e\<close> or above it.\<close>

definition is_root_pointer :: "jsstring \<Rightarrow> bool" where
  "is_root_pointer e \<longleftrightarrow> e = [] \<or> e = str ''/'' \<or> e = str ''#''"

definition pointerIsAParent :: "jsstring \<Rightarrow> jsstring \<Rightarrow> bool" where
  "pointerIsAParent e t \<longleftrightarrow>
     is_root_pointer t \<or>
     take (length t) e = t \<and> (length e \<le> length t \<or> e ! length t = 47 \<or> e ! length t = 35) \<and> last t \<noteq> 35"

section \<open>Documents\<close>

datatype doc_entry = Loaded json | Loading | Failed js_error

type_synonym doc_cache = "(jsstring \<times> doc_entry) list"

text \<open>\<open>s\<close> (\<open>getDoc\<close>): a document that is not there, or is not truthy, is fetched. A failure stays in the cache.\<close>

datatype awaited = Ready json | Waiting jsstring | Rejected js_error

definition getDoc :: "doc_cache \<Rightarrow> jsstring \<Rightarrow> doc_cache \<times> awaited" where
  "getDoc P e =
     (case map_of P e of
        Some (Loaded t) \<Rightarrow> if truthy t then (P, Ready t) else (obj_put e Loading P, Waiting e)
      | Some Loading \<Rightarrow> (P, Waiting e)
      | Some (Failed x) \<Rightarrow> (P, Rejected x)
      | None \<Rightarrow> (obj_put e Loading P, Waiting e))"

definition doc_settled :: "doc_cache \<Rightarrow> jsstring \<Rightarrow> json js \<Rightarrow> doc_cache" where
  "doc_settled P e r = obj_put e (case r of Inr t \<Rightarrow> Loaded t | Inl x \<Rightarrow> Failed x) P"

definition clearCache :: "doc_cache \<Rightarrow> jsstring option \<Rightarrow> doc_cache" where
  "clearCache P e = (case e of None \<Rightarrow> [] | Some k \<Rightarrow> obj_del k P)"

text \<open>\<open>u\<close> (\<open>extractFromDoc\<close>): the value at a pointer, at once when the document is there.\<close>

definition extractFromDoc :: "doc_cache \<Rightarrow> jsstring \<Rightarrow> jsstring \<Rightarrow> doc_cache \<times> awaited" where
  "extractFromDoc P e t =
     (case map_of P e of
        Some (Loaded n) \<Rightarrow>
          if truthy n then (P, case extract_at t n of Inr r \<Rightarrow> Ready r | Inl x \<Rightarrow> Rejected x) else getDoc P e
      | _ \<Rightarrow> getDoc P e)"

section \<open>References\<close>

record ref_env =
  docCache :: doc_cache
  seenRefs :: "(jsstring \<times> jsstring list) list"

definition same_base :: "jsstring option \<Rightarrow> json \<Rightarrow> bool" where
  "same_base t b \<longleftrightarrow> (case t of None \<Rightarrow> b = JUndef \<or> b = JNull | Some u \<Rightarrow> b = JStr u)"

fun prefix_texts :: "jsstring \<Rightarrow> jsstring list \<Rightarrow> jsstring list js" where
  "prefix_texts u [] = Inr []"
| "prefix_texts u (e # es) =
     js_bind (escapeJsonPointerToken e) (\<lambda>p. let u' = u @ str ''/'' @ p in js_bind (prefix_texts u' es) (\<lambda>us. Inr (u' # us)))"

definition refs_at :: "(jsstring \<times> jsstring list) list \<Rightarrow> jsstring \<Rightarrow> jsstring list" where
  "refs_at seen u = (case map_of seen u of None \<Rightarrow> [] | Some rs \<Rightarrow> rs)"

text \<open>
  \<open>h\<close> (\<open>pointerAlreadyInPath\<close>): whether the pointer leads to its own place or above it in the document at hand, or was
  met already on the way to its place; if not, it is noted there. \<open>b\<close> is the \<open>baseDoc\<close> of the whole specification.
\<close>

definition pointerAlreadyInPath ::
    "jsstring \<Rightarrow> jsstring option \<Rightarrow> jsstring list \<Rightarrow> json \<Rightarrow> ref_env \<Rightarrow> (bool \<times> ref_env) js" where
  "pointerAlreadyInPath e t n b env =
     js_bind (pointer_text n) (\<lambda>i.
       let a = (case t of Some u \<Rightarrow> (if u \<noteq> [] then u else str ''<specmap-base>'') | None \<Rightarrow> str ''<specmap-base>'') @ str ''#'' @ e
       in if same_base t b \<and> pointerIsAParent i e then Inr (True, env)
          else
            js_bind (prefix_texts [] n) (\<lambda>us.
              if \<exists>u\<in>set us. \<exists>r\<in>set (refs_at (seenRefs env) u). pointerIsAParent r a \<or> pointerIsAParent a r
              then Inr (True, env)
              else Inr (False, env\<lparr>seenRefs := obj_put i (refs_at (seenRefs env) i @ [a]) (seenRefs env)\<rparr>)))"

definition ref_patch :: "json list \<Rightarrow> json \<Rightarrow> json \<Rightarrow> json" where
  "ref_patch s g e = spec_replace (JArr s) g (JObj [(str ''$$ref'', e)])"

text \<open>The value that a reference leads to: in this specification, or in another document.\<close>

definition resolve_ref :: "specmap \<Rightarrow> jsstring option \<Rightarrow> jsstring \<Rightarrow> ref_env \<Rightarrow> ref_env \<times> awaited" where
  "resolve_ref r v d env =
     (case v of
        None \<Rightarrow>
          (env, (let g = spec_get r (map JStr (jsonPointerToArray d)) in if g = JUndef then Rejected (OtherError ''JSONRefError'') else Ready g))
      | Some u \<Rightarrow> (let (P, w) = extractFromDoc (docCache env) u d in (env\<lparr>docCache := P\<rparr>, w)))"

text \<open>
  The patch that a reference gives. What is not at hand, a failure in another document, and \<open>null\<close> there come as a promise;
  the patch then has no value yet.
\<close>

definition ref_item :: "json list \<Rightarrow> json \<Rightarrow> jsstring option \<Rightarrow> awaited \<Rightarrow> out" where
  "ref_item s e v w =
     (case w of
        Ready g \<Rightarrow> if v \<noteq> None \<and> g = JNull then OPromise (ref_patch s JUndef e) else OValue (ref_patch s g e)
      | _ \<Rightarrow> OPromise (ref_patch s JUndef e))"

definition item_patch :: "out \<Rightarrow> json" where
  "item_patch x = (case x of OValue b \<Rightarrow> b | OPromise b \<Rightarrow> b | _ \<Rightarrow> JUndef)"

definition other_document :: "jsstring option \<Rightarrow> json \<Rightarrow> jsstring option" where
  "other_document v l = (case v of Some u \<Rightarrow> if u \<noteq> [] \<and> l \<noteq> JStr u then Some u else None | None \<Rightarrow> None)"

definition ref_result :: "(json \<Rightarrow> json \<Rightarrow> bool js) \<Rightarrow> specmap \<Rightarrow> json list \<Rightarrow> json \<Rightarrow> jsstring option \<Rightarrow> json \<Rightarrow> awaited \<Rightarrow> out option" where
  "ref_result in_path r n e v l w =
     (let s = butlast n; x = ref_item s e v w
      in case (v, w) of
           (None, Rejected err) \<Rightarrow> Some (OMany [OValue (spec_remove (JArr n)), OError err])
         | _ \<Rightarrow>
             (case other_document v l of
                Some u \<Rightarrow> Some (OMany [x, OValue (spec_context (JArr s) (JObj [(str ''baseDoc'', JStr u)]))])
              | None \<Rightarrow>
                  (case in_path (sm_state r) (item_patch x) of
                     Inl err \<Rightarrow> Some (OValue JNull)
                   | Inr yes \<Rightarrow> if yes then None else Some x)))"

definition ref_target :: "jsstring \<Rightarrow> json \<Rightarrow> jsstring option js" where
  "ref_target p l = (if truthy l \<or> p \<noteq> [] then js_bind (absoluteify p l) (\<lambda>u. Inr (Some u)) else Inr None)"

text \<open>The plugin. It throws when a key on the way cannot be escaped.\<close>

definition refs_plugin ::
    "(json \<Rightarrow> json \<Rightarrow> bool js) \<Rightarrow> json \<Rightarrow> json list \<Rightarrow> specmap \<Rightarrow> ref_env \<Rightarrow> (ref_env \<times> out option) js" where
  "refs_plugin in_path e n r env =
     (if isFreelyNamed (butlast n) then Inr (env, None)
      else
        js_bind (getContext r n) (\<lambda>cx. js_bind (get_prop cx ''baseDoc'') (\<lambda>l.
          case e of
            JStr ref \<Rightarrow>
              (let f = split_ref ref; d = (if length f > 1 then f ! 1 else [])
               in case ref_target (hd f) l of
                    Inl x \<Rightarrow> Inr (env, Some (OError (OtherError ''JSONRefError'')))
                  | Inr v \<Rightarrow>
                      js_bind (getContext r []) (\<lambda>root. js_bind (get_prop root ''baseDoc'') (\<lambda>b.
                      js_bind (pointerAlreadyInPath d v (map js_text (butlast n)) b env) (\<lambda>(met, env1).
                        if met then Inr (env1, None)
                        else (let (env2, w) = resolve_ref r v d env1 in Inr (env2, ref_result in_path r n e v l w))))))
          | _ \<Rightarrow> Inr (env, Some (OError (OtherError ''JSONRefError''))))))"

section \<open>The other plugins\<close>

text \<open>\<open>allOf\<close>: the object is emptied, and what the parts and the object itself have is merged in.\<close>

definition value_along :: "json \<Rightarrow> json list \<Rightarrow> json" where
  "value_along v u = fold (\<lambda>e c. if truthy c then read_key c e else c) u v"

fun allOf_parts :: "json list \<Rightarrow> bool \<Rightarrow> json list \<Rightarrow> out list" where
  "allOf_parts u l [] = []"
| "allOf_parts u l (e # es) =
     (if isObject e then OValue (spec_mergeDeep (JArr u) e) # allOf_parts u l es
      else if l then OValue JNull # allOf_parts u l es
      else OError TypeError # allOf_parts u True es)"

definition allOf_plugin :: "json \<Rightarrow> json list \<Rightarrow> json \<Rightarrow> out option" where
  "allOf_plugin e n a =
     (let m = own a ''meta''; u = butlast n
      in if truthy m \<and> truthy (own m ''$$ref'') then None
         else if isFreelyNamed u then None
         else
           (case e of
              JArr es \<Rightarrow>
                (let c = obj_del (str ''allOf'') (assign_obj [] (for_in (value_along (own a ''value'') u)))
                 in Some (OMany
                      (OValue (spec_replace (JArr u) (JObj []) JUndef) # allOf_parts u False es @ [OValue (spec_mergeDeep (JArr u) (JObj c))] @
                       (if truthy (field c ''$$ref'') then [] else [OValue (spec_remove (JArr (u @ [JStr (str ''$$ref'')])))]))))
            | _ \<Rightarrow> Some (OError TypeError)))"

text \<open>The default that a macro gives, where the value is an object and the macro does not throw.\<close>

definition with_default :: "json \<Rightarrow> json js \<Rightarrow> json" where
  "with_default x r = (case r of Inr v \<Rightarrow> set_own ''default'' v x | Inl err \<Rightarrow> x)"

text \<open>\<open>parameters\<close>: the error that the source makes of a macro that throws is returned to \<open>forEach\<close>, which drops it.\<close>

definition parameters_plugin :: "(json \<Rightarrow> json \<Rightarrow> json js) \<Rightarrow> json \<Rightarrow> json \<Rightarrow> json list \<Rightarrow> json" where
  "parameters_plugin parameterMacro spec e n =
     (case e of
        JArr (x # xs) \<Rightarrow>
          (let l = JObj (assign_obj [] (for_in (spec_getIn spec (butlast n))))
           in spec_replace (JArr n) (JArr (map (\<lambda>y. with_default y (parameterMacro l y)) (x # xs))) JUndef)
      | _ \<Rightarrow> spec_replace (JArr n) e JUndef)"

text \<open>\<open>properties\<close>: here the error ends the loop and is what the plugin gives.\<close>

definition property_default :: "(json \<Rightarrow> json js) \<Rightarrow> jsstring \<times> json \<Rightarrow> obj \<Rightarrow> obj js" where
  "property_default modelPropertyMacro f a =
     js_bind (modelPropertyMacro (snd f)) (\<lambda>v.
       if type_of (snd f) \<in> {''object'', ''function''} \<and> snd f \<noteq> JNull then Inr (obj_put (fst f) (set_own ''default'' v (snd f)) a)
       else Inl TypeError)"

definition properties_plugin :: "(json \<Rightarrow> json js) \<Rightarrow> json \<Rightarrow> json list \<Rightarrow> out" where
  "properties_plugin modelPropertyMacro e n =
     (case js_fold (property_default modelPropertyMacro) (for_in e) (assign_obj [] (for_in e)) of
        Inl x \<Rightarrow> OError x
      | Inr a \<Rightarrow> OValue (spec_replace (JArr n) (JObj a) JUndef))"

end
