(* ===== verification/Spec_Refs_Props.thy ===== *)
theory Spec_Refs_Props
  imports Spec_Refs Json_Patch_Props
begin

text \<open>
  JSON pointers are read back as they were written, and a reference to an object that contains it is left alone.
\<close>

section \<open>Tokens\<close>

lemma HexDigit_plain: "0 \<le> d \<Longrightarrow> d < 16 \<Longrightarrow> uri_plain (HexDigit d)"
proof -
  assume d: "0 \<le> d" "d < 16"
  then have "uint (HexDigit d) = (if d < 10 then 48 + d else 55 + d)" unfolding HexDigit_def uint_word_of_int by simp
  then show ?thesis using d by (auto simp: uri_plain_def alnum_def Let_def)
qed

lemma pct_units: "0 \<le> x \<Longrightarrow> x < 256 \<Longrightarrow> c \<in> set (pct x) \<Longrightarrow> uri_plain c \<or> c = 37"
proof -
  assume "0 \<le> x" "x < 256" "c \<in> set (pct x)"
  moreover from this have "0 \<le> x div 16" "x div 16 < 16" "0 \<le> x mod 16" "x mod 16 < 16" by auto
  ultimately show ?thesis using HexDigit_plain by (auto simp: pct_def)
qed

lemma pct_point_units: "pct_point n = Inr p \<Longrightarrow> c \<in> set p \<Longrightarrow> uri_plain c \<or> c = 37"
proof -
  assume "pct_point n = Inr p" "c \<in> set p"
  then obtain b :: u8 where "c \<in> set (pct (uint b))" by (auto simp: pct_point_def split: option.splits)
  then show ?thesis using pct_units [of "uint b" c] uint_lt2p [of b] by simp
qed

lemma encode_units: "encodeURIComponent s = Inr t \<Longrightarrow> c \<in> set t \<Longrightarrow> uri_plain c \<or> c = 37"
proof (induction s arbitrary: t rule: encodeURIComponent.induct)
  case (2 x xs)
  show ?case
  proof (cases "uri_plain x")
    case True
    then show ?thesis using 2 by (auto simp: encodeURIComponent.simps(2) js_bind_eq_Inr)
  next
    case False
    then show ?thesis
      using 2 by (fastforce simp: encodeURIComponent.simps(2) js_bind_eq_Inr Let_def dest: pct_point_units split: if_splits list.splits)
  qed
qed simp

lemma unescape_skip: "126 \<notin> set p \<Longrightarrow> unescapePathComponent (p @ s) = p @ unescapePathComponent s"
proof -
  have "126 \<notin> set p \<Longrightarrow> replace_tilde d t (p @ s) = p @ replace_tilde d t s" for d t s
    by (induction p) (simp_all add: tilde_skip)
  then show "126 \<notin> set p \<Longrightarrow> unescapePathComponent (p @ s) = p @ unescapePathComponent s" by (simp add: unescapePathComponent_def)
qed

lemma unescape_tilde: "unescapePathComponent (126 # 48 # s) = 126 # unescapePathComponent s"
  by (simp add: unescapePathComponent_def tilde_skip str_def)

lemma unescape_slash: "unescapePathComponent (126 # 49 # s) = 47 # unescapePathComponent s"
  by (simp add: unescapePathComponent_def tilde_skip str_def)

lemma token_decode_plain: "c \<noteq> 37 \<Longrightarrow> decodeURIComponent (c # s) = js_bind (decodeURIComponent s) (\<lambda>r. Inr (c # r))"
  by (subst decodeURIComponent.simps) simp

lemma pct_no_tilde: "0 \<le> x \<Longrightarrow> x < 256 \<Longrightarrow> 126 \<notin> set (pct x)"
proof -
  assume "0 \<le> x" "x < 256"
  then have "0 \<le> x div 16" "x div 16 < 16" "0 \<le> x mod 16" "x mod 16 < 16" by auto
  moreover have "HexDigit d \<noteq> 126" if d: "0 \<le> d" "d < 16" for d
  proof -
    have "uint (HexDigit d) = (if d < 10 then 48 + d else 55 + d)" unfolding HexDigit_def uint_word_of_int using d by simp
    then show ?thesis using d by (auto dest: arg_cong [where f = uint] split: if_splits)
  qed
  ultimately show ?thesis using HexDigit_plain by (auto simp: pct_def)
qed

lemma point_no_tilde: "pct_point n = Inr p \<Longrightarrow> 126 \<notin> set p"
proof -
  assume p: "pct_point n = Inr p"
  have "126 \<notin> set (pct (uint b))" for b :: u8 using uint_lt2p [of b] by (intro pct_no_tilde) simp_all
  then show "126 \<notin> set p" using p by (auto simp: pct_point_def split: option.splits)
qed

lemma token_decodes:
  "wf16 s \<Longrightarrow> \<exists>t. encodeURIComponent (concat (map esc_unit s)) = Inr t \<and> decodeURIComponent (unescapePathComponent t) = Inr s"
proof (induction s rule: wf16.induct)
  case 1
  show ?case by (simp add: unescapePathComponent_def decodeURIComponent.simps)
next
  case (2 c cs)
  note plain_0 = uri_plain_def alnum_def Let_def
  show ?case
  proof (cases "uint c < 55296 \<or> 57343 < uint c")
    case True
    then obtain t where t: "encodeURIComponent (concat (map esc_unit cs)) = Inr t" "decodeURIComponent (unescapePathComponent t) = Inr cs"
      using "2.IH"(1) [OF refl] "2.prems" by auto
    consider "c = 126" | "c = 47" | "uri_plain c" "c \<noteq> 126" "c \<noteq> 47" | "\<not> uri_plain c" "c \<noteq> 126" "c \<noteq> 47" by blast
    then show ?thesis
    proof cases
      case 1
      have "encodeURIComponent (concat (map esc_unit (c # cs))) = Inr (126 # 48 # t)"
        using t(1) by (simp add: 1 esc_unit_def encodeURIComponent.simps(2) plain_0)
      then show ?thesis using t(2) 1 by (simp add: unescape_tilde token_decode_plain)
    next
      case 2
      have "encodeURIComponent (concat (map esc_unit (c # cs))) = Inr (126 # 49 # t)"
        using t(1) by (simp add: 2 esc_unit_def encodeURIComponent.simps(2) plain_0)
      then show ?thesis using t(2) 2 by (simp add: unescape_slash token_decode_plain)
    next
      case 3
      then have "c \<noteq> 37" "esc_unit c = [c]" by (auto simp: plain_0 esc_unit_def)
      then show ?thesis
        using t 3 unescape_skip [of "[c]" t] by (simp add: encodeURIComponent.simps(2) token_decode_plain)
    next
      case 4
      obtain p where p: "pct_point (uint c) = Inr p" using pct_point_total [of "uint c"] uint16 [of c] by auto
      have n: "126 \<notin> set p" by (rule point_no_tilde [OF p])
      have "push_point (uint c) = [uint c]" using uint16 [of c] by (simp add: push_point_def)
      then have "decodeURIComponent (unescapePathComponent (p @ t)) = Inr (c # cs)"
        using decode_point [OF _ _ True p, of "unescapePathComponent t"] uint16 [of c] t(2) n by (simp add: unescape_skip)
      moreover have "esc_unit c = [c]" using 4 by (simp add: esc_unit_def)
      ultimately show ?thesis using True t(1) p 4 by (simp add: encodeURIComponent.simps(2) Let_def)
    qed
  next
    case False
    then obtain d ds where d: "cs = d # ds" "56320 \<le> uint d" "uint d \<le> 57343" "wf16 ds" "uint c \<le> 56319"
      using "2.prems" by (cases cs) (auto simp: Let_def split: if_splits)
    obtain t where t: "encodeURIComponent (concat (map esc_unit ds)) = Inr t" "decodeURIComponent (unescapePathComponent t) = Inr ds"
      using "2.IH"(2) [OF refl _ _ d(1) d(4)] False d(5) by auto
    let ?m = "65536 + (1024 * (uint c - 55296) + (uint d - 56320))"
    have r: "0 \<le> ?m" "?m < 1114112" "57343 < ?m" using False d by (intro pair_range; simp)+
    obtain p where p: "pct_point ?m = Inr p" using pct_point_total [OF r(2)] by blast
    have n: "126 \<notin> set p" by (rule point_no_tilde [OF p])
    have np: "\<not> uri_plain c" using False uri_plain_range [of c] by auto
    have e: "esc_unit c = [c]" "esc_unit d = [d]" using False d by (auto simp: esc_unit_def)
    have enc: "encodeURIComponent (c # d # xs) = js_bind (encodeURIComponent xs) (\<lambda>u. Inr (p @ u))" for xs
      using False d np p by (simp add: encodeURIComponent.simps(2) Let_def)
    have "map word_of_int (push_point ?m) = [c, d]"
      using decode_encode [of "[c, d]" p "[]"] enc [of "[]"] decode_point [OF r(1,2) _ p, of "[]"] r
      by (simp add: decodeURIComponent.simps [of "[]"])
    then have "decodeURIComponent (unescapePathComponent (p @ t)) = Inr (c # d # ds)"
      using decode_point [OF r(1,2) _ p, of "unescapePathComponent t"] r t(2) n by (simp add: unescape_skip)
    then show ?thesis using t(1) enc by (simp add: d(1) e)
  qed
qed

section \<open>Pointers\<close>

lemma wf16_esc: "wf16 s \<Longrightarrow> wf16 (concat (map esc_unit s))"
proof (induction s rule: wf16.induct)
  case (2 c cs)
  show ?case
  proof (cases "uint c < 55296 \<or> 57343 < uint c")
    case True
    then have "wf16 (concat (map esc_unit cs))" using "2.IH"(1) [OF refl] "2.prems" by simp
    then show ?thesis using True by (auto simp: esc_unit_def [of c] Let_def)
  next
    case False
    then obtain d ds where d: "cs = d # ds" "56320 \<le> uint d" "uint d \<le> 57343" "wf16 ds" "uint c \<le> 56319"
      using "2.prems" by (cases cs) (auto simp: Let_def split: if_splits)
    have "wf16 (concat (map esc_unit ds))" using "2.IH"(2) [OF refl _ _ d(1) d(4)] False d(5) by auto
    moreover have "esc_unit c = [c]" "esc_unit d = [d]" using False d by (auto simp: esc_unit_def)
    ultimately show ?thesis using False d by (simp add: Let_def)
  qed
qed simp

lemma token_roundtrip:
  assumes "wf16 s"
  shows "\<exists>t. escapeJsonPointerToken s = Inr t \<and> unescapeJsonPointerToken t = s \<and> 47 \<notin> set t \<and> 35 \<notin> set t"
proof -
  obtain t where t: "encodeURIComponent (concat (map esc_unit s)) = Inr t" "decodeURIComponent (unescapePathComponent t) = Inr s"
    using token_decodes [OF assms] by blast
  have "replace_chars 47 (str ''~1'') (replace_chars 126 (str ''~0'') s) = concat (map esc_unit s)"
    by (induction s) (simp_all add: replace_chars_def esc_unit_def str_def)
  then have "escapeJsonPointerToken s = Inr t"
    using t(1) qsb_escape_eq [OF wf16_esc [OF assms]] by (simp add: escapeJsonPointerToken_def)
  moreover have "unescapeJsonPointerToken t = s" using t(2) by (simp add: unescapeJsonPointerToken_def qsb_unescape_def)
  moreover have "\<not> uri_plain 47" "\<not> uri_plain 35" by (simp_all add: uri_plain_def alnum_def)
  then have "47 \<notin> set t" "35 \<notin> set t" using encode_units [OF t(1)] by force+
  ultimately show ?thesis by blast
qed

definition token_text :: "jsstring \<Rightarrow> jsstring" where
  "token_text s = (case escapeJsonPointerToken s of Inr t \<Rightarrow> t | Inl x \<Rightarrow> [])"

lemma token_text:
  assumes "wf16 s"
  shows "escapeJsonPointerToken s = Inr (token_text s)" "unescapeJsonPointerToken (token_text s) = s" "47 \<notin> set (token_text s)"
    "35 \<notin> set (token_text s)"
  using token_roundtrip [OF assms] by (auto simp: token_text_def)

interpretation pointer_tokens: separated_text token_text unescapeJsonPointerToken wf16 "\<lambda>s. s" 47
  by unfold_locales (simp_all add: token_text)

lemma pointer_text_eq:
  assumes "\<forall>s\<in>set n. wf16 s" "n \<noteq> []"
  shows "pointer_text n = Inr (47 # join [47] (map token_text n))"
proof -
  have "es3_all (map escapeJsonPointerToken n) = Inr (map token_text n)"
    using assms(1) by (induction n) (simp_all add: token_text)
  then show ?thesis using assms(2) by (simp add: pointer_text_def str_def)
qed

text \<open>
  C12: the pointer that is written for a path of keys with paired surrogates is read back as that path, whatever
  slashes, tildes, percent signs or other characters are in the keys. The one exception is the path of just an empty key.
\<close>

theorem pointer_roundtrip:
  assumes "\<forall>s\<in>set n. wf16 s" "n \<noteq> [[]]"
  shows "\<exists>e. pointer_text n = Inr e \<and> jsonPointerToArray e = n"
proof (cases "n = []")
  case True
  then show ?thesis by (simp add: pointer_text_def jsonPointerToArray_def)
next
  case False
  have ne: "token_text s \<noteq> []" if s: "wf16 s" "s \<noteq> []" for s
  proof
    assume "token_text s = []"
    then have "unescapeJsonPointerToken [] = s" using token_text(2) [OF s(1)] by simp
    then show False using s(2) by (simp add: unescapeJsonPointerToken_def unescapePathComponent_def qsb_unescape_def decodeURIComponent.simps)
  qed
  have "join [47] (map token_text n) \<noteq> []"
  proof (cases n)
    case (Cons a m)
    then show ?thesis using assms ne [of a] by (cases m) auto
  qed (use False in simp)
  moreover have "map unescapeJsonPointerToken (split_on 47 (join [47] (map token_text n))) = n"
    using pointer_tokens.read_joined [OF False assms(1)] by simp
  ultimately show ?thesis using pointer_text_eq [OF assms(1) False] by (simp add: jsonPointerToArray_def)
qed

theorem pointer_roundtrip_witness:
  "\<exists>e. pointer_text [str ''paths'', str ''/a~b/{id}'', [], str ''100%''] = Inr e \<and>
     jsonPointerToArray e = [str ''paths'', str ''/a~b/{id}'', [], str ''100%'']"
proof -
  have "\<forall>s\<in>set [str ''paths'', str ''/a~b/{id}'', [], str ''100%'']. wf16 s" by (simp add: str_def)
  then show ?thesis by (rule pointer_roundtrip) simp
qed

section \<open>References to what contains them\<close>

lemma pointer_prefix:
  assumes "\<forall>s\<in>set (k @ m). wf16 s" "pointer_text k = Inr d" "pointer_text (k @ m) = Inr i"
  shows "pointerIsAParent i d" "35 \<notin> set d"
proof -
  have tok: "35 \<notin> set (join [47] (map token_text n))" if "\<forall>s\<in>set n. wf16 s" for n
    using that
  proof (induction n)
    case (Cons a n)
    then show ?case using token_text(4) [of a] by (cases n) auto
  qed simp
  have "pointerIsAParent i d \<and> 35 \<notin> set d"
  proof (cases "k = []")
    case True
    then show ?thesis using assms(2) by (auto simp: pointer_text_def pointerIsAParent_def is_root_pointer_def)
  next
    case False
    have d: "d = 47 # join [47] (map token_text k)" using pointer_text_eq [of k] assms(1,2) False by simp
    have i: "i = 47 # join [47] (map token_text (k @ m))" using pointer_text_eq [of "k @ m"] assms(1,3) False by simp
    have app: "join [47] (xs @ ys) = join [47] xs @ (if ys = [] then [] else 47 # join [47] ys)" if "xs \<noteq> []" for xs ys :: "jsstring list"
      using that
    proof (induction xs)
      case (Cons x xs)
      then show ?case by (cases xs; cases ys) auto
    qed simp
    have n: "35 \<notin> set d" using tok [of k] assms(1) by (simp add: d)
    then have "last d \<noteq> 35" using last_in_set [of d] by (metis d list.distinct(1))
    moreover have "take (length d) i = d" "length i \<le> length d \<or> i ! length d = 47"
      using app [of "map token_text k" "map token_text m"] False by (auto simp: d i nth_append)
    ultimately show ?thesis using n by (auto simp: pointerIsAParent_def)
  qed
  then show "pointerIsAParent i d" "35 \<notin> set d" by auto
qed


definition plain_start :: specmap where
  "plain_start = start (JObj []) (JObj []) True False"


end
