(* ===== verification/Spec2Isabelle.thy ===== *)
theory Spec2Isabelle
  imports Imm_Map_Ops Imm_List_Props Imm_List_Iter Imm_OrderedMap Imm_Set Imm_Stack Buf_Integers Base64_Props Qs_Props Punycode_Props Url_Resolve Swg_Execute_Props Json_Patch_Props Swg_Context Swg_Tags Spec_Map_Props Spec_Refs_Props
begin

text \<open>
  A model of the JavaScript of this repository that can be run and reasoned about: the data structures, codecs and
  protocol code inside \<^verbatim>\<open>src/client/docs/swagger-ui/swagger-ui-bundle.js\<close>, which serves the API documentation of the chain.
  The bundle is minified; definitions keep its names where it has some (\<open>Qe\<close>, \<open>kt\<close>, \<open>buildRequest\<close>), and the text in front of
  a definition gives the name that the unminified package uses.

  \<^bold>\<open>Parts and how they interact.\<close> The interface keeps its state in the collections of Immutable.js. The API client
  (\<open>swagger-client\<close>) takes a specification, normalises it, resolves its references with a plugin machine that patches the
  document (\<open>fast-json-patch\<close>) and tracks contexts in a tree, groups the operations by tag, and builds and sends the request
  of an operation; for this it uses \<open>url\<close>, \<open>punycode\<close>, \<open>qs\<close>, two implementations of \<open>querystring\<close>, \<open>cookie\<close>, and \<open>btoa\<close> over
  \<open>Buffer\<close> and \<open>base64-js\<close>.

  \<^bold>\<open>Modelling.\<close> \<open>JS_Prelude\<close> has what all components share. A number that is used as an integer is an \<^typ>\<open>int\<close> or
  \<^typ>\<open>nat\<close>, and a 32-bit word from the first bitwise operator on; a string is a list of 16-bit code units; code that may throw
  returns \<^typ>\<open>'a js\<close>, an error or a value; a loop that might not end has the error \<^const>\<open>NeverReturns\<close>, and that it does not
  occur is proved. Objects are updated by returning the new object. \<open>JS_Value\<close>, \<open>JS_Access\<close>, \<open>JS_Digits\<close>, \<open>JS_Json\<close> and
  \<open>JS_Uri\<close> model what the code uses of the language: values with their properties in the order that \<open>for ... in\<close> shows
  (array indices first), inherited names of \<open>Object.prototype\<close>, access by a computed name, \<open>JSON.stringify\<close>, decimal texts, and
  \<open>encodeURIComponent\<close> and \<open>decodeURIComponent\<close>. Numbers inside JSON values are kept as their decimal texts, since
  the code only compares and prints them.

  \<^bold>\<open>Immutable.js\<close> (lines 149 to 2528). \<open>Imm_Hash\<close>: hashes of keys and collections, the cache of string hashes, the population
  count. \<open>Imm_Map\<close>: the nodes of the hash trie, \<open>update\<close> of each node kind, \<open>Map\<close> with \<open>get\<close>, \<open>set\<close>, \<open>remove\<close>, iteration and
  the stack iterator. \<open>Imm_Trie\<close> and \<open>Imm_Trie_Parts\<close> give the invariant and the pieces of an update, \<open>Imm_Map_Update\<close> proves
  the update and interprets the contract of \<open>Persistent_Map\<close> on the trie, \<open>Imm_Map_Iter\<close> proves the iterators and
  \<open>Imm_Map_Ops\<close> construction, merging and the operations along paths. \<open>Imm_List\<close>, \<open>Imm_List_Trie\<close>, \<open>Imm_List_Grow\<close>,
  \<open>Imm_List_Props\<close> and \<open>Imm_List_Iter\<close> do the same for \<open>List\<close> (trie, tail and window), with the contract of an indexed list.
  \<open>Imm_OrderedMap\<close>, \<open>Imm_Set\<close> (with the contract of a set of keys) and \<open>Imm_Stack\<close> are built on these. The lemmas show
  that a map is a partial function under any sequence of updates, that updates keep the shape of the trie and return
  the same map exactly when nothing changes, that iterators deliver every entry once and end, and that lists, ordered
  maps, sets and stacks are lists, lists of entries, sets and lists.

  \<^bold>\<open>Buffer and base64-js\<close> (lines 4000 to 4665 and 21852 to 21881). \<open>Buf_Bytes\<close> and \<open>Buf_Numbers\<close>: the readers and writers of
  integers; \<open>Buf_Codec\<close> and \<open>Buf_Integers\<close>: they are inverse, the fixed widths agree with the variable ones, and exactly
  when they throw, through the contract \<open>int_codec\<close> and its four interpretations. \<open>Buf_Text\<close>, \<open>Buf_Text_Props\<close>, \<open>Base64\<close> and
  \<open>Base64_Props\<close>: the text encodings and their round trips.

  \<^bold>\<open>URLs and query strings\<close> (lines 15528 to 15580, 31687 to 32064, 32363 to 32520 and 33133 to 33260). \<open>Punycode\<close>, \<open>Url\<close>, \<open>Qs\<close> and
  \<open>Querystring\<close> hold the packages; \<open>Punycode_Props\<close> shows that encoding a host name ends, \<open>Url_Resolve\<close> that a resolved path has
  no dot segments, \<open>Qs_Props\<close> that a flat query survives printing and parsing. \<open>Separated_Text\<close> is the contract of
  an escaping whose texts can be joined with a separator and split again; it is interpreted on the pairs of a query string, on
  the tokens of a JSON pointer, and on the values of an array with each of the separators of the style serializer.

  \<^bold>\<open>The API client\<close> (lines 13027 to 15515). \<open>Swg_Style\<close> (style serializer), \<open>Swg_Ops\<close> and \<open>Swg_Normalize\<close> (helpers),
  \<open>Swg_Http\<close> (http), \<open>Swg_Params\<close> (parameter builders), \<open>Swg_Security\<close> (build-request of both versions), \<open>Swg_Execute\<close>
  (execute), \<open>Swg_Tags\<close> (interfaces) and \<open>Swg_Context\<close> (context tree) follow the modules of the package.
  \<open>Swg_Style_Props\<close>: a styled array can be split again. \<open>Swg_Execute_Props\<close>: a request depends only on the credentials that
  its operation asks for, is not sent without its required parameters, and is complete when it is built.
  \<open>Swg_Tags\<close> and \<open>Swg_Context\<close> contain their own lemmas: grouping by tags loses nothing when identifiers are distinct,
  and the tree with its caches implements a map from paths to inherited contexts.

  \<^bold>\<open>Patches and the resolver\<close> (lines 6834 to 6848, 8925 to 8995, 13415 to 14640, 15617 to 15849, 32536 to 32672). \<open>Json_Patch\<close>
  and \<open>Json_Patch_Props\<close>: applying the patch between two documents leads from the first to the second. \<open>Spec_Lib\<close> is the library
  of the resolver, \<open>Spec_Map\<close> its state, and \<^const>\<open>sm_step\<close> its steps: a dispatch, the settling of a promise in any order,
  and the continuation of a dispatch that waits. \<open>Spec_Map_Props\<close>: no run of these steps is infinite, and a run that
  cannot go on is at its end. \<open>Spec_Refs\<close> and \<open>Spec_Refs_Props\<close>: the plugins for references, \<open>allOf\<close>, parameters and properties;
  JSON pointers are read back as they were written, and a reference to an object around it is left alone.

  \<^bold>\<open>Bounds.\<close> Sizes and indices of lists stay below \<open>2^30\<close> where the lemmas say so: the code shifts them as 32-bit
  integers, and no engine holds larger arrays. Lengths and offsets of buffers stay below \<open>2^31\<close> for the same reason. The recursion over the bits of a hash ends after 32 bits, where keys with equal
  hashes share a collision node. The outer loop of the punycode encoder and the splitting of a string have the length of
  their input as fuel: each turn consumes at least one code point, or one code unit. A dispatch of the resolver is counted,
  and the limit of 100 runs in the code is what bounds its runs.

  \<^bold>\<open>Not modelled.\<close> In Immutable.js: lazy sequences, \<open>Record\<close>, hashes of objects by identity, \<open>withMutations\<close>. In \<open>Buffer\<close>:
  allocation, searching, copying and floating-point numbers. In the client: the traversal that \<open>wrapPlugin\<close> puts around a
  plugin and the last test for cycles, which both depend on the identity of shared objects; the download of documents,
  \<open>fetch\<close>, and the parsers of JSON and YAML are arguments of the definitions that use them. In \<open>fast-json-patch\<close>: observers, which
  depend on timers. In the bundle: React, redux, the components of swagger-ui, \<open>js-yaml\<close>, \<open>remarkable\<close>, \<open>core-js\<close> and most of
  \<open>lodash\<close>, which act on a browser document or restate the language. The standalone preset is made of React components. The Go
  modules (\<^verbatim>\<open>src/x\<close>, \<^verbatim>\<open>src/app\<close>, \<^verbatim>\<open>src/cmd\<close>, \<^verbatim>\<open>src/utils\<close>) are calls into the Cosmos SDK, whose stores and keepers are not
  in the repository; this development does not cover them.
\<close>

end
